(* ===== verification/Prelude.thy ===== *)
theory Prelude
  imports Main
    "HOL-Library.Word"
    "HOL-Library.Monad_Syntax"
    "HOL-Library.Multiset"
    "HOL-Library.Sublist"
    "HOL-Library.Char_ord"
    "HOL-Library.List_Lexorder"
begin

text \<open>
  Shared vocabulary of the development: the machine types of the kernel, C characters and
  C strings, the 32-bit range of \<open>int\<close>, and generic list and option lemmas that the component
  theories use.

  A C function that can run into undefined behaviour (a read or write outside an object, a
  dereferenced NULL, a signed overflow) or that may not return is a function into an option
  type: \<open>None\<close> is "this call has no defined result".  A C pointer to characters is the list of
  the characters from that address to the end of the object it points into, so advancing the
  pointer is taking the tail and reading the empty list is an out-of-bounds read.
\<close>

unbundle bit_operations_syntax

type_synonym u8 = "8 word"
type_synonym u16 = "16 word"
type_synonym u32 = "32 word"
type_synonym u64 = "64 word"

text \<open>Collections that the component theories fill: definitional unfoldings of the string
  layer, facts on the allocator, and field-frame facts of the state-changing operations.\<close>

named_theorems cstring_simps
named_theorems heap_simps
named_theorems frame_simps

section \<open>Characters\<close>

abbreviation NUL :: char where "NUL \<equiv> CHR 0x00"
abbreviation TAB :: char where "TAB \<equiv> CHR 0x09"
abbreviation LF :: char where "LF \<equiv> CHR 0x0A"
abbreviation CR :: char where "CR \<equiv> CHR 0x0D"
abbreviation BS :: char where "BS \<equiv> CHR 0x08"
abbreviation QUOTE :: char where "QUOTE \<equiv> CHR 0x27"
abbreviation DQUOTE :: char where "DQUOTE \<equiv> CHR 0x22"
abbreviation BSLASH :: char where "BSLASH \<equiv> CHR 0x5C"

text \<open>\<open>(unsigned char)c\<close> as an \<open>int\<close>, and the conversion of an \<open>int\<close> to \<open>char\<close>.\<close>

definition uc :: "char \<Rightarrow> int" where
  "uc c = int (of_char c)"

definition to_char :: "int \<Rightarrow> char" where
  "to_char i = char_of (i mod 256)"

lemma uc_nonneg [simp]: "0 \<le> uc c"
  by (simp add: uc_def)

lemma uc_less_256 [simp]: "uc c < 256"
proof -
  have "(of_char c :: nat) < 256" by (rule nat_of_char_less_256)
  then show ?thesis by (simp add: uc_def)
qed

lemma uc_eq_iff [simp]: "uc a = uc b \<longleftrightarrow> a = b"
  by (simp add: uc_def)

lemma uc_NUL [simp]: "uc NUL = 0"
  by (simp add: uc_def)

lemma uc_eq_0_iff [simp]: "uc c = 0 \<longleftrightarrow> c = NUL"
  using uc_eq_iff [of c NUL] by simp

lemma uc_pos_iff: "0 < uc c \<longleftrightarrow> c \<noteq> NUL"
  using uc_nonneg [of c] uc_eq_0_iff [of c] by linarith

lemma uc_less_iff: "uc a < uc b \<longleftrightarrow> a < b"
  by (simp add: uc_def less_char_def)

lemma to_char_uc [simp]: "to_char (uc c) = c"
proof -
  have "uc c mod 256 = of_char c" by (simp add: uc_def of_nat_of_char)
  then show ?thesis by (simp add: to_char_def)
qed

lemma uc_to_char: "0 \<le> i \<Longrightarrow> i < 256 \<Longrightarrow> uc (to_char i) = i"
  by (simp add: uc_def to_char_def of_nat_of_char)

section \<open>C strings\<close>

text \<open>The string a pointer denotes: the characters before the terminator.\<close>

definition cstr :: "char list \<Rightarrow> string" where
  "cstr b = takeWhile (\<lambda>c. c \<noteq> NUL) b"

definition terminated :: "char list \<Rightarrow> bool" where
  "terminated b \<longleftrightarrow> NUL \<in> set b"

lemma cstr_simps [simp]:
  "cstr [] = []"
  "cstr (c # b) = (if c = NUL then [] else c # cstr b)"
  by (simp_all add: cstr_def)

lemma terminated_simps [simp]:
  "\<not> terminated []"
  "terminated (c # b) \<longleftrightarrow> c = NUL \<or> terminated b"
  by (auto simp: terminated_def)

lemma cstr_no_NUL [simp]: "NUL \<notin> set (cstr b)"
  by (induction b) auto

lemma cstr_append_NUL [simp]: "NUL \<notin> set s \<Longrightarrow> cstr (s @ NUL # r) = s"
  by (induction s) auto

lemma terminated_append_NUL [simp]: "terminated (s @ NUL # r)"
  by (simp add: terminated_def)

lemma terminatedE:
  assumes "terminated b"
  obtains r where "b = cstr b @ NUL # r"
proof -
  have "\<exists>r. b = cstr b @ NUL # r" using assms by (induction b) auto
  then show ?thesis using that by blast
qed

lemma cstr_length_less: "terminated b \<Longrightarrow> length (cstr b) < length b"
  by (induction b) auto

section \<open>Machine integers\<close>

text \<open>The range of \<open>int\<close>; a signed result outside it is undefined behaviour.\<close>

definition int_ok :: "int \<Rightarrow> bool" where
  "int_ok v \<longleftrightarrow> - 2147483648 \<le> v \<and> v \<le> 2147483647"

definition as_int :: "int \<Rightarrow> int option" where
  "as_int v = (if int_ok v then Some v else None)"

section \<open>Lists and options\<close>

lemma map_option_eq_NoneI: "x = None \<Longrightarrow> map_option f x = None"
  by simp

lemma bind_Some_eq_map [simp]: "(m \<bind> (\<lambda>x. Some (f x))) = map_option f m"
  by (cases m) auto

lemma takeWhile_dropWhile_length:
  "length (takeWhile P xs) + length (dropWhile P xs) = length xs"
  by (metis length_append takeWhile_dropWhile_id)

lemma find_append: "find P (xs @ ys) = (case find P xs of None \<Rightarrow> find P ys | Some x \<Rightarrow> Some x)"
  by (induction xs) auto

lemma find_distinct: "distinct (map f xs) \<Longrightarrow> c \<in> set xs \<Longrightarrow> find (\<lambda>x. f x = f c) xs = Some c"
  by (induction xs) (auto simp: image_iff)

lemma find_cong_set: "(\<And>x. x \<in> set xs \<Longrightarrow> P x = Q x) \<Longrightarrow> find P xs = find Q xs"
  by (induction xs) auto

lemma find_prefix: "prefix xs ys \<Longrightarrow> find P xs = Some x \<Longrightarrow> find P ys = Some x"
  by (auto simp: prefix_def find_append)

end
