(* ===== verification/Cstring.thy ===== *)
theory Cstring
  imports Prelude
begin

text \<open>
  The freestanding libc subset of \<open>src/string.c\<close> (the two allocating functions are with the
  heap).  A pointer argument is the rest of the object it points into, a pointer result is an
  offset (\<open>None\<close> inside \<open>Some\<close> is NULL), a written object is returned updated, and \<open>None\<close> is an
  access outside an object.  The lemmas relate each loop to the operation on the strings the
  pointers denote.
\<close>

section \<open>Length and comparison\<close>

fun strlen :: "char list \<Rightarrow> nat option" where
  "strlen [] = None"
| "strlen (c # s) = (if c \<noteq> NUL then map_option Suc (strlen s) else Some 0)"

fun strcmp :: "char list \<Rightarrow> char list \<Rightarrow> int option" where
  "strcmp (x # a) (y # b) =
     (if x \<noteq> NUL \<and> x = y then strcmp a b else Some (uc x - uc y))"
| "strcmp _ _ = None"

fun strncmp :: "char list \<Rightarrow> char list \<Rightarrow> nat \<Rightarrow> int option" where
  "strncmp a b 0 = Some 0"
| "strncmp (x # a) (y # b) (Suc n) =
     (if x \<noteq> NUL \<and> x = y then strncmp a b n else Some (uc x - uc y))"
| "strncmp _ _ (Suc n) = None"

section \<open>Character classes\<close>

definition isdigit :: "int \<Rightarrow> bool" where
  "isdigit c \<longleftrightarrow> c \<ge> uc CHR ''0'' \<and> c \<le> uc CHR ''9''"

definition isalpha :: "int \<Rightarrow> bool" where
  "isalpha c \<longleftrightarrow> (c \<ge> uc CHR ''a'' \<and> c \<le> uc CHR ''z'') \<or> (c \<ge> uc CHR ''A'' \<and> c \<le> uc CHR ''Z'')"

definition isspace :: "int \<Rightarrow> bool" where
  "isspace c \<longleftrightarrow> c = uc CHR '' '' \<or> c = uc TAB \<or> c = uc LF \<or> c = uc CR
     \<or> c = uc (CHR 0x0B) \<or> c = uc (CHR 0x0C)"

definition tolower :: "int \<Rightarrow> int" where
  "tolower c = (if c \<ge> uc CHR ''A'' \<and> c \<le> uc CHR ''Z'' then c + 32 else c)"

definition toupper :: "int \<Rightarrow> int" where
  "toupper c = (if c \<ge> uc CHR ''a'' \<and> c \<le> uc CHR ''z'' then c - 32 else c)"

fun strcasecmp :: "char list \<Rightarrow> char list \<Rightarrow> int option" where
  "strcasecmp (x # a) (y # b) =
     (if x \<noteq> NUL \<and> tolower (uc x) = tolower (uc y) then strcasecmp a b
      else Some (tolower (uc x) - tolower (uc y)))"
| "strcasecmp _ _ = None"

section \<open>Copying\<close>

fun strcpy :: "char list \<Rightarrow> char list \<Rightarrow> char list option" where
  "strcpy (d # dst) (c # src) =
     (if c \<noteq> NUL then map_option ((#) c) (strcpy dst src) else Some (NUL # dst))"
| "strcpy _ _ = None"

text \<open>\<open>memset\<close> (also the second loop of \<open>strncpy\<close>, with the character 0).\<close>

fun memset :: "char list \<Rightarrow> int \<Rightarrow> nat \<Rightarrow> char list option" where
  "memset dst c 0 = Some dst"
| "memset (d # dst) c (Suc n) = map_option ((#) (to_char c)) (memset dst c n)"
| "memset [] c (Suc n) = None"

fun strncpy :: "char list \<Rightarrow> char list \<Rightarrow> nat \<Rightarrow> char list option" where
  "strncpy dst src 0 = Some dst"
| "strncpy (d # dst) (c # src) (Suc n) =
     (if c \<noteq> NUL then map_option ((#) c) (strncpy dst src n)
      else memset (d # dst) 0 (Suc n))"
| "strncpy _ _ (Suc n) = None"

fun strcat :: "char list \<Rightarrow> char list \<Rightarrow> char list option" where
  "strcat [] src = None"
| "strcat (d # dst) src =
     (if d \<noteq> NUL then map_option ((#) d) (strcat dst src) else strcpy (d # dst) src)"

fun memcpy :: "char list \<Rightarrow> char list \<Rightarrow> nat \<Rightarrow> char list option" where
  "memcpy dst src 0 = Some dst"
| "memcpy (d # dst) (c # src) (Suc n) = map_option ((#) c) (memcpy dst src n)"
| "memcpy _ _ (Suc n) = None"

fun memcmp :: "char list \<Rightarrow> char list \<Rightarrow> nat \<Rightarrow> int option" where
  "memcmp a b 0 = Some 0"
| "memcmp (x # a) (y # b) (Suc n) = (if x \<noteq> y then Some (uc x - uc y) else memcmp a b n)"
| "memcmp _ _ (Suc n) = None"

section \<open>Searching\<close>

fun strchr :: "char list \<Rightarrow> int \<Rightarrow> nat option option" where
  "strchr [] c = None"
| "strchr (x # s) c =
     (if x \<noteq> NUL
      then (if x = to_char c then Some (Some 0) else map_option (map_option Suc) (strchr s c))
      else Some (if c = 0 then Some 0 else None))"

text \<open>\<open>i\<close> is the offset of \<open>s\<close> from the start, \<open>lst\<close> the offset of the last match.\<close>

fun strrchr_loop :: "char list \<Rightarrow> int \<Rightarrow> nat \<Rightarrow> nat option \<Rightarrow> nat option option" where
  "strrchr_loop [] c i lst = None"
| "strrchr_loop (x # s) c i lst =
     (if x \<noteq> NUL
      then strrchr_loop s c (Suc i) (if x = to_char c then Some i else lst)
      else Some (if c = 0 then Some i else lst))"

definition strrchr :: "char list \<Rightarrow> int \<Rightarrow> nat option option" where
  "strrchr s c = strrchr_loop s c 0 None"

fun strstr_loop :: "char list \<Rightarrow> char list \<Rightarrow> nat \<Rightarrow> nat option option" where
  "strstr_loop [] n nl = None"
| "strstr_loop (x # h) n nl =
     (if x \<noteq> NUL
      then do {
        r \<leftarrow> strncmp (x # h) n nl;
        if r = 0 then Some (Some 0) else map_option (map_option Suc) (strstr_loop h n nl)
      }
      else Some None)"

definition strstr :: "char list \<Rightarrow> char list \<Rightarrow> nat option option" where
  "strstr h n = do {
     nl \<leftarrow> strlen n;
     if nl = 0 then Some (Some 0) else strstr_loop h n nl
   }"

section \<open>Numbers\<close>

fun skip_spaces :: "char list \<Rightarrow> char list option" where
  "skip_spaces [] = None"
| "skip_spaces (c # s) = (if isspace (uc c) then skip_spaces s else Some (c # s))"

text \<open>The sign step shared by \<open>atoi\<close> and \<open>strtol\<close>: the sign and the rest of the text.\<close>

definition read_sign :: "char list \<Rightarrow> int \<times> char list" where
  "read_sign s = (case s of
       c # r \<Rightarrow> if c = CHR ''-'' then (- 1, r) else if c = CHR ''+'' then (1, r) else (1, s)
     | [] \<Rightarrow> (1, s))"

fun atoi_digits :: "char list \<Rightarrow> int \<Rightarrow> int option" where
  "atoi_digits [] n = None"
| "atoi_digits (c # s) n =
     (if isdigit (uc c)
      then do { n' \<leftarrow> as_int (n * 10 + (uc c - uc CHR ''0'')); atoi_digits s n' }
      else Some n)"

definition atoi :: "char list \<Rightarrow> int option" where
  "atoi s = do {
     s1 \<leftarrow> skip_spaces s;
     let (sign, s2) = read_sign s1;
     n \<leftarrow> atoi_digits s2 0;
     Some (n * sign)
   }"

text \<open>The value of one digit of \<open>strtol\<close>, -1 for any other character.\<close>

definition strtol_digit :: "char \<Rightarrow> int" where
  "strtol_digit c =
     (if c \<ge> CHR ''0'' \<and> c \<le> CHR ''9'' then uc c - uc CHR ''0''
      else if c \<ge> CHR ''a'' \<and> c \<le> CHR ''f'' then uc c - uc CHR ''a'' + 10
      else if c \<ge> CHR ''A'' \<and> c \<le> CHR ''F'' then uc c - uc CHR ''A'' + 10
      else - 1)"

text \<open>The digit loop returns the value and the offset of the first character it does not take.\<close>

fun strtol_loop :: "char list \<Rightarrow> int \<Rightarrow> int \<Rightarrow> nat \<Rightarrow> (int \<times> nat) option" where
  "strtol_loop [] base n i = None"
| "strtol_loop (c # s) base n i =
     (if c = NUL then Some (n, i)
      else let d = strtol_digit c in
        if d < 0 \<or> d \<ge> base then Some (n, i)
        else do { n' \<leftarrow> as_int (n * base + d); strtol_loop s base n' (Suc i) })"

text \<open>The prefix step: the base in force and the number of characters skipped.\<close>

definition strtol_prefix :: "char list \<Rightarrow> int \<Rightarrow> (int \<times> nat) option" where
  "strtol_prefix s base =
     (if base = 0 \<or> base = 16
      then (case s of
          [] \<Rightarrow> None
        | c # r \<Rightarrow>
            if c = CHR ''0''
            then (case r of
                [] \<Rightarrow> None
              | d # _ \<Rightarrow> if d = CHR ''x'' \<or> d = CHR ''X'' then Some (16, 2)
                        else Some (if base = 0 then 8 else base, 0))
            else Some (if base = 0 then 10 else base, 0))
      else Some (base, 0))"

definition strtol :: "char list \<Rightarrow> int \<Rightarrow> (int \<times> nat) option" where
  "strtol s base = do {
     s1 \<leftarrow> skip_spaces s;
     let (sign, s2) = read_sign s1;
     (base', k) \<leftarrow> strtol_prefix s2 base;
     (n, i) \<leftarrow> strtol_loop (drop k s2) base' 0 (length s - length s2 + k);
     Some (n * sign, i)
   }"

section \<open>What the loops compute on strings\<close>

lemma strlen_eq: "strlen b = (if terminated b then Some (length (cstr b)) else None)"
  by (induction b) auto

lemma strlen_append_NUL [cstring_simps]: "NUL \<notin> set s \<Longrightarrow> strlen (s @ NUL # r) = Some (length s)"
  by (simp add: strlen_eq)

text \<open>\<open>strcmp\<close> on the strings themselves; the upper layers compare strings with it.\<close>

fun str_cmp :: "string \<Rightarrow> string \<Rightarrow> int" where
  "str_cmp [] [] = 0"
| "str_cmp [] (y # b) = - uc y"
| "str_cmp (x # a) [] = uc x"
| "str_cmp (x # a) (y # b) = (if x = y then str_cmp a b else uc x - uc y)"

lemma strcmp_terminated:
  "terminated a \<Longrightarrow> terminated b \<Longrightarrow> strcmp a b = Some (str_cmp (cstr a) (cstr b))"
  by (induction a b rule: strcmp.induct) auto

lemma str_cmp_0: "NUL \<notin> set a \<Longrightarrow> NUL \<notin> set b \<Longrightarrow> str_cmp a b = 0 \<longleftrightarrow> a = b"
  by (induction a b rule: str_cmp.induct) auto

lemma str_cmp_neg: "NUL \<notin> set a \<Longrightarrow> NUL \<notin> set b \<Longrightarrow> str_cmp a b < 0 \<longleftrightarrow> a < b"
proof (induction a b rule: str_cmp.induct)
  case (2 y b)
  then show ?case using uc_pos_iff [of y] by auto
next
  case (3 x a)
  then show ?case by (simp add: not_less)
next
  case (4 x a y b)
  then show ?case using uc_less_iff [of x y] by (auto simp: Cons_less_Cons)
qed simp

lemma str_cmp_antisym: "str_cmp b a = - str_cmp a b"
  by (induction a b rule: str_cmp.induct) auto

lemma strcmp_NUL [cstring_simps]:
  "NUL \<notin> set a \<Longrightarrow> NUL \<notin> set b \<Longrightarrow> strcmp (a @ NUL # r) (b @ NUL # q) = Some (str_cmp a b)"
  by (simp add: strcmp_terminated)

lemma strncmp_prefix:
  "NUL \<notin> set n \<Longrightarrow> terminated h \<Longrightarrow>
   \<exists>r. strncmp h (n @ q) (length n) = Some r \<and> (r = 0 \<longleftrightarrow> prefix n (cstr h))"
proof (induction n arbitrary: h)
  case Nil
  then show ?case by simp
next
  case (Cons y n)
  then obtain x h' where h: "h = x # h'" by (cases h) auto
  show ?case using Cons h by auto
qed

lemma strcpy_fits:
  assumes "NUL \<notin> set s" and "length s < length dst"
  shows "strcpy dst (s @ NUL # r) = Some (s @ NUL # drop (Suc (length s)) dst)"
  using assms
proof (induction s arbitrary: dst)
  case Nil
  then show ?case by (cases dst) auto
next
  case (Cons c s)
  then obtain d dst' where "dst = d # dst'" by (cases dst) auto
  with Cons show ?case by auto
qed

lemma strcpy_overflow:
  assumes "NUL \<notin> set s" and "length dst \<le> length s"
  shows "strcpy dst (s @ NUL # r) = None"
  using assms
proof (induction s arbitrary: dst)
  case Nil
  then show ?case by simp
next
  case (Cons c s)
  then show ?case by (cases dst) auto
qed

lemma memset_eq: "n \<le> length dst \<Longrightarrow> memset dst c n = Some (replicate n (to_char c) @ drop n dst)"
  by (induction dst c n rule: memset.induct) auto

lemma memcpy_eq:
  "n \<le> length dst \<Longrightarrow> n \<le> length src \<Longrightarrow> memcpy dst src n = Some (take n src @ drop n dst)"
  by (induction dst src n rule: memcpy.induct) auto

lemma memcpy_None: "n > length dst \<Longrightarrow> memcpy dst src n = None"
  by (induction dst src n rule: memcpy.induct) auto

lemma to_char_0 [simp]: "to_char 0 = NUL"
  using to_char_uc [of NUL] by simp

lemma strncpy_eq:
  assumes "n \<le> length dst" and "NUL \<notin> set s"
  shows "strncpy dst (s @ NUL # r) n =
    Some (take n s @ replicate (n - length s) NUL @ drop n dst)"
  using assms
proof (induction s arbitrary: n dst)
  case Nil
  then show ?case by (cases n; cases dst) (auto simp: memset_eq)
next
  case (Cons c s)
  then show ?case by (cases n; cases dst) auto
qed

lemma strcat_fits:
  assumes "NUL \<notin> set d" and "NUL \<notin> set s" and "length s \<le> length rest"
  shows "strcat (d @ NUL # rest) (s @ NUL # r) = Some (d @ s @ NUL # drop (length s) rest)"
  using assms by (induction d) (auto simp: strcpy_fits)

end
