(* ===== verification/Kheap.thy ===== *)
theory Kheap
  imports Cstring
begin

text \<open>
  The kernel heap of \<open>src/kheap.c\<close>: a bump allocator over a fixed region, whose \<open>kfree\<close> does
  nothing.  The state is the record of the file's static variables; every larger state of the
  development extends this record, so the operations apply to it unchanged.  \<open>ram\<close> is the
  content of the heap area, in which \<open>kzalloc\<close> and \<open>krealloc\<close> write; objects with a type of
  their own (file nodes, file data) are kept by the components that own them.

  The interface that the components rely on is the locale \<open>bump_allocator\<close>: every block starts
  at the frontier and the frontier moves past it.  It is interpreted on \<open>kmalloc\<close> for requests
  below \<open>2^63\<close> bytes; for larger requests the sum in the code wraps and the laws fail.
\<close>

section \<open>State\<close>

record heap =
  used :: u64
  total :: u64
  ram :: "u64 \<Rightarrow> char"

definition HEAP_START :: u64 where "HEAP_START = 0x1000000"
definition HEAP_MAX :: u64 where "HEAP_MAX = 0x2000000"

section \<open>Operations\<close>

definition kheap_init :: "u32 \<Rightarrow> ('z) heap_scheme \<Rightarrow> ('z) heap_scheme" where
  "kheap_init total_mem_kb h =
     (let t = HEAP_MAX - HEAP_START;
          mem = (ucast total_mem_kb :: u64) * 1024
      in h\<lparr>used := 0,
           total :=
             if total_mem_kb \<noteq> 0
             then (if mem > HEAP_START + t then t
                   else if mem > HEAP_START + 0x100000 then mem - HEAP_START - 0x100000
                   else 0x100000)
             else t\<rparr>)"

definition align_up :: "u64 \<Rightarrow> u64 \<Rightarrow> u64" where
  "align_up x a = (x + a - 1) AND NOT (a - 1)"

definition kmalloc :: "u64 \<Rightarrow> ('z) heap_scheme \<Rightarrow> u64 option \<times> ('z) heap_scheme" where
  "kmalloc n0 h =
     (let n = align_up n0 16
      in if used h + n > total h then (None, h)
         else (Some (HEAP_START + used h), h\<lparr>used := used h + n\<rparr>))"

text \<open>\<open>memset(p, c, n)\<close> and the byte loop of \<open>krealloc\<close> on the heap area.\<close>

definition ram_fill :: "u64 \<Rightarrow> char \<Rightarrow> nat \<Rightarrow> (u64 \<Rightarrow> char) \<Rightarrow> (u64 \<Rightarrow> char)" where
  "ram_fill p c n m = (\<lambda>a. if unat (a - p) < n then c else m a)"

text \<open>Evaluations of concrete states leave the content of the heap area as it stands.\<close>

declare ram_fill_def [code del]

fun ram_copy :: "u64 \<Rightarrow> u64 \<Rightarrow> nat \<Rightarrow> (u64 \<Rightarrow> char) \<Rightarrow> (u64 \<Rightarrow> char)" where
  "ram_copy b a 0 m = m"
| "ram_copy b a (Suc n) m = ram_copy (b + 1) (a + 1) n (m(b := m a))"

definition kzalloc :: "u64 \<Rightarrow> ('z) heap_scheme \<Rightarrow> u64 option \<times> ('z) heap_scheme" where
  "kzalloc n h =
     (case kmalloc n h of
        (None, h') \<Rightarrow> (None, h')
      | (Some p, h') \<Rightarrow> (Some p, h'\<lparr>ram := ram_fill p NUL (unat n) (ram h')\<rparr>))"

definition kfree :: "u64 option \<Rightarrow> ('z) heap_scheme \<Rightarrow> ('z) heap_scheme" where
  "kfree p h = h"

definition krealloc :: "u64 option \<Rightarrow> u64 \<Rightarrow> ('z) heap_scheme \<Rightarrow> u64 option \<times> ('z) heap_scheme" where
  "krealloc p n h =
     (case kmalloc n h of
        (None, h') \<Rightarrow> (None, h')
      | (Some np, h') \<Rightarrow>
          (Some np,
           case p of None \<Rightarrow> h'
           | Some a \<Rightarrow> h'\<lparr>ram := ram_copy np a (unat n) (ram h')\<rparr>))"

text \<open>\<open>strndup\<close> and \<open>strdup\<close> of \<open>src/string.c\<close>: the second component is the new object,
  \<open>None\<close> for NULL.\<close>

fun strndup_len :: "char list \<Rightarrow> nat \<Rightarrow> nat option" where
  "strndup_len s 0 = Some 0"
| "strndup_len [] (Suc n) = None"
| "strndup_len (c # s) (Suc n) = (if c \<noteq> NUL then map_option Suc (strndup_len s n) else Some 0)"

definition strndup ::
  "char list \<Rightarrow> nat \<Rightarrow> ('z) heap_scheme \<Rightarrow> (char list option \<times> ('z) heap_scheme) option" where
  "strndup s n h = do {
     l \<leftarrow> strndup_len s n;
     case kmalloc (of_nat (l + 1)) h of
       (None, h') \<Rightarrow> Some (None, h')
     | (Some p, h') \<Rightarrow> Some (Some (take l s @ [NUL]), h')
   }"

definition strdup ::
  "char list \<Rightarrow> ('z) heap_scheme \<Rightarrow> (char list option \<times> ('z) heap_scheme) option" where
  "strdup s h = do { n \<leftarrow> strlen s; strndup s n h }"

definition kheap_used :: "('z) heap_scheme \<Rightarrow> u64" where "kheap_used h = used h"
definition kheap_total :: "('z) heap_scheme \<Rightarrow> u64" where "kheap_total h = total h"

section \<open>Rounding\<close>

definition up16 :: "nat \<Rightarrow> nat" where
  "up16 n = (n + 15) div 16 * 16"

lemma up16_ge: "n \<le> up16 n" and up16_less: "up16 n < n + 16" and up16_dvd: "16 dvd up16 n"
  by (simp_all add: up16_def)

lemma and_not_15: "unat ((x :: u64) AND NOT 15) = unat x div 16 * 16"
proof -
  have m: "(15 :: u64) = mask 4" by (simp add: mask_eq_exp_minus_1)
  have eq: "x AND NOT 15 = push_bit 4 (drop_bit 4 x)"
    unfolding m by (rule bit_eqI) (auto simp: bit_simps)
  have b: "unat x < 2 ^ 64" using unsigned_less [of x] by simp
  have "unat x div 16 * 16 < 2 ^ 64"
    using b by (metis div_times_less_eq_dividend le_less_trans)
  then have "take_bit 64 (unat x div 16 * 16) = unat x div 16 * 16"
    by (simp add: take_bit_nat_eq_self)
  moreover have "unat (push_bit 4 (drop_bit 4 x)) = take_bit 64 (push_bit 4 (drop_bit 4 (unat x)))"
    using b by (simp only: unsigned_push_bit_eq unsigned_drop_bit_eq) (simp add: take_bit_nat_eq_self)
  ultimately show ?thesis
    by (simp only: eq push_bit_eq_mult drop_bit_eq_div) simp
qed

lemma align_up_16:
  assumes "unat n < 2 ^ 63"
  shows "unat (align_up n 16) = up16 (unat n)"
proof -
  have "unat (n + 15) = unat n + 15"
    using assms by (simp add: unat_plus_if_size word_size unat_word_ariths)
  moreover have "align_up n 16 = (n + 15) AND NOT 15"
    by (simp add: align_up_def add.commute)
  ultimately show ?thesis
    by (simp only: and_not_15 up16_def)
qed

section \<open>The invariant and the block a request gets\<close>

text \<open>The region is at most 16 MB and the frontier is inside it and 16-byte aligned.\<close>

definition heap_ok :: "('z) heap_scheme \<Rightarrow> bool" where
  "heap_ok h \<longleftrightarrow> unat (used h) \<le> unat (total h) \<and> unat (total h) \<le> 16777216 \<and> 16 dvd unat (used h)"

definition frontier :: "('z) heap_scheme \<Rightarrow> nat" where
  "frontier h = unat HEAP_START + unat (used h)"

definition heap_end :: "('z) heap_scheme \<Rightarrow> nat" where
  "heap_end h = unat HEAP_START + unat (total h)"

lemma unat_HEAP_START [simp]: "unat HEAP_START = 16777216"
  by (simp add: HEAP_START_def)

lemma unat_HEAP_MAX [simp]: "unat HEAP_MAX = 33554432"
  by (simp add: HEAP_MAX_def)

lemma kmalloc_cases:
  assumes ok: "heap_ok h" and n: "unat n < 2 ^ 63"
  shows "unat (used h) + up16 (unat n) \<le> unat (total h) \<and>
           kmalloc n h = (Some (HEAP_START + used h), h\<lparr>used := used h + align_up n 16\<rparr>) \<and>
           unat (used h + align_up n 16) = unat (used h) + up16 (unat n)
       \<or> unat (total h) < unat (used h) + up16 (unat n) \<and> kmalloc n h = (None, h)"
proof -
  have b: "unat (used h) \<le> 16777216" using ok by (simp add: heap_ok_def)
  have "up16 (unat n) < 2 ^ 63 + 16" using up16_less [of "unat n"] n by linarith
  with b have s: "unat (used h + align_up n 16) = unat (used h) + up16 (unat n)"
    by (simp add: unat_word_ariths align_up_16 [OF n])
  show ?thesis
    by (auto simp: kmalloc_def Let_def word_less_nat_alt s not_less)
qed

lemma heap_ok_kmalloc:
  assumes "heap_ok h" and "unat n < 2 ^ 63"
  shows "heap_ok (snd (kmalloc n h))"
  using kmalloc_cases [OF assms] assms(1) up16_dvd [of "unat n"]
  by (auto simp: heap_ok_def dvd_add)

lemma kmalloc_Some:
  assumes ok: "heap_ok h" and n: "unat n < 2 ^ 63" and k: "kmalloc n h = (Some p, h')"
  shows "unat p = frontier h" and "frontier h' = frontier h + up16 (unat n)"
    and "frontier h' \<le> heap_end h'" and "h' = h\<lparr>used := used h'\<rparr>"
proof -
  have b: "unat (used h) \<le> 16777216" using ok by (simp add: heap_ok_def)
  have p: "p = HEAP_START + used h" and h': "h' = h\<lparr>used := used h + align_up n 16\<rparr>"
    and s: "unat (used h + align_up n 16) = unat (used h) + up16 (unat n)"
    and f: "unat (used h) + up16 (unat n) \<le> unat (total h)"
    using kmalloc_cases [OF ok n] k by auto
  show "unat p = frontier h"
    using b by (simp add: p frontier_def unat_word_ariths)
  show "frontier h' = frontier h + up16 (unat n)" by (simp add: h' frontier_def s)
  show "frontier h' \<le> heap_end h'" using f by (simp add: h' frontier_def heap_end_def s)
  show "h' = h\<lparr>used := used h'\<rparr>" by (simp add: h')
qed

lemma kmalloc_None: "kmalloc n h = (None, h') \<Longrightarrow> h' = h"
  by (auto simp: kmalloc_def Let_def split: if_splits)

lemma kmalloc_frame [frame_simps]:
  "total (snd (kmalloc n h)) = total h" "ram (snd (kmalloc n h)) = ram h"
  "heap.more (snd (kmalloc n h)) = heap.more h"
  by (simp_all add: kmalloc_def Let_def)

section \<open>The allocator interface\<close>

text \<open>A sequence of requests, with the blocks (address, size) of those that succeeded.\<close>

fun alloc_all :: "(u64 \<Rightarrow> 's \<Rightarrow> u64 option \<times> 's) \<Rightarrow> u64 list \<Rightarrow> 's \<Rightarrow> (nat \<times> nat) list \<times> 's" where
  "alloc_all alloc [] s = ([], s)"
| "alloc_all alloc (n # ns) s =
     (case alloc n s of
        (None, s') \<Rightarrow> alloc_all alloc ns s'
      | (Some p, s') \<Rightarrow>
          (let (bs, s'') = alloc_all alloc ns s' in ((unat p, unat n) # bs, s'')))"

text \<open>Blocks in a list lie one behind the other, between two addresses.\<close>

fun blocks_between :: "nat \<Rightarrow> (nat \<times> nat) list \<Rightarrow> nat \<Rightarrow> bool" where
  "blocks_between lo [] hi \<longleftrightarrow> lo \<le> hi"
| "blocks_between lo ((p, n) # bs) hi \<longleftrightarrow> lo \<le> p \<and> blocks_between (p + n) bs hi"

definition disjoint_blocks :: "nat \<times> nat \<Rightarrow> nat \<times> nat \<Rightarrow> bool" where
  "disjoint_blocks a b \<longleftrightarrow> {fst a ..< fst a + snd a} \<inter> {fst b ..< fst b + snd b} = {}"

lemma blocks_between_bounds:
  "blocks_between lo bs hi \<Longrightarrow> (p, n) \<in> set bs \<Longrightarrow> lo \<le> p \<and> p + n \<le> hi"
proof (induction lo bs hi rule: blocks_between.induct)
  case (2 lo q m bs hi)
  have "lo' \<le> hi" if "blocks_between lo' bs hi" for lo'
    using that by (induction lo' bs hi rule: blocks_between.induct) auto
  with 2 show ?case by (fastforce dest: add_leD1)
qed simp

lemma blocks_between_disjoint:
  "blocks_between lo bs hi \<Longrightarrow> i < j \<Longrightarrow> j < length bs \<Longrightarrow> disjoint_blocks (bs ! i) (bs ! j)"
proof (induction lo bs hi arbitrary: i j rule: blocks_between.induct)
  case (2 lo p n bs hi)
  obtain j' where j: "j = Suc j'" using 2 by (cases j) auto
  show ?case
  proof (cases i)
    case 0
    obtain q m where q: "bs ! j' = (q, m)" by (cases "bs ! j'")
    have "(q, m) \<in> set bs" using 2 j q by (metis length_Cons not_less_eq nth_mem)
    with 2 have "p + n \<le> q" using blocks_between_bounds [of "p + n" bs hi q m] by simp
    then show ?thesis using 0 j q by (auto simp: disjoint_blocks_def)
  next
    case (Suc i')
    then show ?thesis using 2 j by simp
  qed
qed simp

locale bump_allocator =
  fixes alloc :: "u64 \<Rightarrow> 's \<Rightarrow> u64 option \<times> 's"
    and front :: "'s \<Rightarrow> nat"
    and limit :: "'s \<Rightarrow> nat"
    and ok :: "'s \<Rightarrow> bool"
    and small :: "u64 \<Rightarrow> bool"
  assumes alloc_ok: "ok s \<Longrightarrow> small n \<Longrightarrow> ok (snd (alloc n s))"
    and alloc_Some: "ok s \<Longrightarrow> small n \<Longrightarrow> alloc n s = (Some p, s') \<Longrightarrow>
          unat p = front s \<and> front s + unat n \<le> front s' \<and> front s' \<le> limit s \<and> limit s' = limit s"
    and alloc_None: "alloc n s = (None, s') \<Longrightarrow> s' = s"
    and front_limit: "ok s \<Longrightarrow> front s \<le> limit s"
begin

lemma alloc_all_blocks:
  assumes "ok s" and "\<forall>n \<in> set ns. small n" and "alloc_all alloc ns s = (bs, s')"
  shows "blocks_between (front s) bs (limit s)"
  using assms
proof (induction ns arbitrary: s bs)
  case Nil
  then show ?case by (auto intro: front_limit)
next
  case (Cons n ns)
  obtain r t where r: "alloc n s = (r, t)" by (cases "alloc n s")
  have t: "ok t" using alloc_ok [of s n] Cons.prems r by simp
  show ?case
  proof (cases r)
    case None
    then have "t = s" using alloc_None r by blast
    with None Cons r show ?thesis by simp
  next
    case (Some p)
    obtain cs u where c: "alloc_all alloc ns t = (cs, u)" by (cases "alloc_all alloc ns t")
    have a: "unat p = front s \<and> front s + unat n \<le> front t \<and> limit t = limit s"
      using alloc_Some [of s n p t] Cons.prems r Some by simp
    have "blocks_between (front t) cs (limit t)"
    proof (rule Cons.IH [OF t])
      show "\<forall>a\<in>set ns. small a" using Cons.prems by simp
      show "alloc_all alloc ns t = (cs, s')" using Cons.prems Some r c by simp
    qed
    then have "blocks_between (front s + unat n) cs (limit s)"
      using a by (cases cs) auto
    then show ?thesis using Cons.prems Some r c a by auto
  qed
qed

lemma alloc_all_disjoint:
  assumes "ok s" and "\<forall>n \<in> set ns. small n" and "alloc_all alloc ns s = (bs, s')"
    and "i < j" and "j < length bs"
  shows "disjoint_blocks (bs ! i) (bs ! j)"
  using blocks_between_disjoint alloc_all_blocks [OF assms(1-3)] assms(4,5) by blast

end

definition request_ok :: "u64 \<Rightarrow> bool" where
  "request_ok n \<longleftrightarrow> unat n < 2 ^ 63"

interpretation kmalloc: bump_allocator kmalloc frontier heap_end heap_ok request_ok
proof unfold_locales
  fix s :: "('z) heap_scheme" and n p s'
  assume a: "heap_ok s" "request_ok n" "kmalloc n s = (Some p, s')"
  have n: "unat n < 2 ^ 63" using a by (simp add: request_ok_def)
  have "total s' = total s" using a kmalloc_frame(1) [of n s] by simp
  then show "unat p = frontier s \<and> frontier s + unat n \<le> frontier s' \<and>
      frontier s' \<le> heap_end s \<and> heap_end s' = heap_end s"
    using kmalloc_Some [OF a(1) n a(3)] up16_ge [of "unat n"] by (simp add: heap_end_def)
next
  fix s :: "('z) heap_scheme"
  show "heap_ok s \<Longrightarrow> frontier s \<le> heap_end s"
    by (simp add: heap_ok_def frontier_def heap_end_def)
qed (simp_all add: request_ok_def heap_ok_kmalloc kmalloc_None)

end
