(* ===== verification/Vfs.thy ===== *)
theory Vfs
  imports Kheap "HOL-Library.While_Combinator"
begin

text \<open>
  The in-memory file system of \<open>src/vfs.c\<close>: the vnode store, its operations and the initial
  tree.  The state extends the heap record with the map from addresses to vnodes and the
  globals \<open>vfs_root\<close>, \<open>vfs_cwd\<close> and \<open>vfs_pwd\<close>.  Vnodes are never freed, so a removed node stays
  in the map and pointers to it stay valid.

  In a vnode, \<open>children\<close> is \<open>children[0 .. child_count)\<close>, and \<open>data\<close> holds the bytes of the data
  block that have been written (the rest of the \<open>fcap\<close> bytes is never read); \<open>None\<close> is NULL.
  Path arguments are the strings their pointers denote.  An operation with an option result is
  \<open>None\<close> where the C code overruns a fixed-size buffer or dereferences NULL.
\<close>

section \<open>State\<close>

datatype ftype = FS_TYPE_FILE | FS_TYPE_DIR

record vnode =
  vtype :: ftype
  name :: string
  parent :: "u64 option"
  children :: "u64 list"
  child_cap :: nat
  data :: "char list option"
  fsize :: nat
  fcap :: nat

record fs = heap +
  nodes :: "u64 \<Rightarrow> vnode option"
  vfs_root :: u64
  vfs_cwd :: u64
  vfs_pwd :: string

definition VFS_NAME_MAX :: nat where "VFS_NAME_MAX = 64"

text \<open>\<open>sizeof(vnode_t)\<close> on x86-64 and the size of a pointer.\<close>

definition sizeof_vnode :: nat where "sizeof_vnode = 120"
definition sizeof_ptr :: nat where "sizeof_ptr = 8"

text \<open>The vnode at an address.  Every pointer the code follows is in the map (the invariant of
  theory \<open>Vfs_Inv\<close>), so the vnode given for an address outside it is never used.\<close>

definition blank_vnode :: "ftype \<Rightarrow> string \<Rightarrow> u64 option \<Rightarrow> vnode" where
  "blank_vnode t nm p = \<lparr>vtype = t, name = nm, parent = p, children = [], child_cap = 0,
     data = None, fsize = 0, fcap = 0\<rparr>"

definition node :: "('z) fs_scheme \<Rightarrow> u64 \<Rightarrow> vnode" where
  "node s a = (case nodes s a of Some n \<Rightarrow> n | None \<Rightarrow> blank_vnode FS_TYPE_FILE [] None)"

definition set_node :: "u64 \<Rightarrow> vnode \<Rightarrow> ('z) fs_scheme \<Rightarrow> ('z) fs_scheme" where
  "set_node a n s = s\<lparr>nodes := (nodes s)(a \<mapsto> n)\<rparr>"

abbreviation is_dir :: "('z) fs_scheme \<Rightarrow> u64 \<Rightarrow> bool" where
  "is_dir s a \<equiv> vtype (node s a) = FS_TYPE_DIR"

abbreviation is_file :: "('z) fs_scheme \<Rightarrow> u64 \<Rightarrow> bool" where
  "is_file s a \<equiv> vtype (node s a) = FS_TYPE_FILE"

text \<open>The content of a file: the \<open>fsize\<close> bytes at \<open>data\<close>.\<close>

definition content :: "vnode \<Rightarrow> string" where
  "content n = (case data n of None \<Rightarrow> [] | Some b \<Rightarrow> take (fsize n) b)"

section \<open>Nodes and children\<close>

definition make_node ::
  "ftype \<Rightarrow> string \<Rightarrow> u64 option \<Rightarrow> ('z) fs_scheme \<Rightarrow> u64 option \<times> ('z) fs_scheme" where
  "make_node t nm p s =
     (case kzalloc (of_nat sizeof_vnode) s of
        (None, s') \<Rightarrow> (None, s')
      | (Some n, s') \<Rightarrow> (Some n, set_node n (blank_vnode t (take (VFS_NAME_MAX - 1) nm) p) s'))"

definition child_of :: "('z) fs_scheme \<Rightarrow> u64 option \<Rightarrow> string \<Rightarrow> u64 option" where
  "child_of s dir nm =
     (case dir of None \<Rightarrow> None
      | Some d \<Rightarrow>
          if vtype (node s d) \<noteq> FS_TYPE_DIR then None
          else find (\<lambda>c. name (node s c) = nm) (children (node s d)))"

definition grown_child_cap :: "nat \<Rightarrow> nat" where
  "grown_child_cap c = (if c \<noteq> 0 then c * 2 else 8)"

definition add_child :: "u64 \<Rightarrow> u64 \<Rightarrow> ('z) fs_scheme \<Rightarrow> bool \<times> ('z) fs_scheme" where
  "add_child dir child s =
     (let d = node s dir in
      if length (children d) \<ge> child_cap d
      then let newcap = grown_child_cap (child_cap d) in
        (case kmalloc (of_nat (newcap * sizeof_ptr)) s of
           (None, s') \<Rightarrow> (False, s')
         | (Some nc, s') \<Rightarrow>
             (True, set_node dir (d\<lparr>children := children d @ [child], child_cap := newcap\<rparr>) s'))
      else (True, set_node dir (d\<lparr>children := children d @ [child]\<rparr>) s))"

section \<open>Paths\<close>

definition vfs_is_abs :: "string \<Rightarrow> bool" where
  "vfs_is_abs p \<longleftrightarrow> (case p of c # _ \<Rightarrow> c = CHR ''/'' | [] \<Rightarrow> False)"

fun basename_loop :: "string \<Rightarrow> string \<Rightarrow> string" where
  "basename_loop b [] = b"
| "basename_loop b (c # p) = basename_loop (if c = CHR ''/'' then p else b) p"

definition vfs_basename :: "string \<Rightarrow> string" where
  "vfs_basename path = basename_loop path path"

text \<open>One round of the loop of \<open>vfs_resolve\<close> skips slashes, copies the next component into a
  64-byte buffer (cutting it there) and leaves the pointer behind the component.\<close>

definition skip_slashes :: "string \<Rightarrow> string" where
  "skip_slashes p = dropWhile (\<lambda>c. c = CHR ''/'') p"

definition path_name :: "string \<Rightarrow> string" where
  "path_name q = take (VFS_NAME_MAX - 1) (takeWhile (\<lambda>c. c \<noteq> CHR ''/'') q)"

definition path_rest :: "string \<Rightarrow> string" where
  "path_rest q = dropWhile (\<lambda>c. c \<noteq> CHR ''/'') q"

lemma path_rest_shorter:
  assumes "skip_slashes p \<noteq> []"
  shows "length (path_rest (skip_slashes p)) < length p"
proof -
  obtain c q where q: "skip_slashes p = c # q" using assms by (cases "skip_slashes p") auto
  then have c: "c \<noteq> CHR ''/''"
    unfolding skip_slashes_def by (metis (mono_tags) hd_dropWhile list.sel(1) list.discI)
  have "length (path_rest (c # q)) \<le> length q"
    using c by (simp add: path_rest_def length_dropWhile_le)
  moreover have "length (c # q) \<le> length p"
    unfolding q [symmetric] skip_slashes_def by (rule length_dropWhile_le)
  ultimately show ?thesis using q by simp
qed

function resolve_loop :: "('z) fs_scheme \<Rightarrow> u64 \<Rightarrow> string \<Rightarrow> u64 option" where
  "resolve_loop s cur p =
     (if skip_slashes p = [] then Some cur
      else if path_name (skip_slashes p) = ''.'' then
        resolve_loop s cur (path_rest (skip_slashes p))
      else if path_name (skip_slashes p) = ''..'' then
        resolve_loop s (case parent (node s cur) of Some u \<Rightarrow> u | None \<Rightarrow> cur)
          (path_rest (skip_slashes p))
      else if path_name (skip_slashes p) = ''~'' then
        (case child_of s (Some (vfs_root s)) ''root'' of
           None \<Rightarrow> None
         | Some home \<Rightarrow> resolve_loop s home (path_rest (skip_slashes p)))
      else
        (case child_of s (Some cur) (path_name (skip_slashes p)) of
           None \<Rightarrow> None
         | Some c \<Rightarrow> resolve_loop s c (path_rest (skip_slashes p))))"
  by pat_completeness auto

termination resolve_loop
  by (relation "measure (\<lambda>(s, cur, p). length p)") (simp_all add: path_rest_shorter)

declare resolve_loop.simps [simp del]

definition vfs_resolve :: "('z) fs_scheme \<Rightarrow> string option \<Rightarrow> u64 option" where
  "vfs_resolve s path =
     (case path of
        None \<Rightarrow> Some (vfs_cwd s)
      | Some [] \<Rightarrow> Some (vfs_cwd s)
      | Some (c # p) \<Rightarrow>
          resolve_loop s (if c = CHR ''/'' then vfs_root s else vfs_cwd s) (c # p))"

text \<open>The parent directory and the last component; \<open>out_name\<close> is a 64-byte buffer of the callers,
  which \<open>strcpy\<close> overruns when the component is longer.\<close>

definition vfs_resolve_parent :: "('z) fs_scheme \<Rightarrow> string \<Rightarrow> (u64 option \<times> string) option" where
  "vfs_resolve_parent s path = do {
     let buf = take 1023 path;
     slash \<leftarrow> strrchr (buf @ [NUL]) (uc CHR ''/'');
     case slash of
       None \<Rightarrow> if length buf < VFS_NAME_MAX then Some (Some (vfs_cwd s), buf) else None
     | Some i \<Rightarrow>
         let nm = drop (Suc i) buf;
             out = (if nm \<noteq> [] then nm else ''/'')
         in if length out < VFS_NAME_MAX
            then Some (if i = 0 then Some (vfs_root s)
                       else let dir = take i buf in
                         vfs_resolve s (Some (if dir \<noteq> [] then dir else ''/'')), out)
            else None
   }"

section \<open>File data\<close>

text \<open>The loops that choose the size of a new data block.\<close>

definition write_cap :: "nat \<Rightarrow> nat \<Rightarrow> nat" where
  "write_cap c len = while (\<lambda>nc. nc \<le> len) (\<lambda>nc. nc * 2) (if c \<noteq> 0 then c else 64)"

definition append_cap :: "nat \<Rightarrow> nat \<Rightarrow> nat" where
  "append_cap c need = while (\<lambda>nc. nc < need) (\<lambda>nc. nc * 2) (if c \<noteq> 0 then c else 64)"

definition vfs_write_file :: "u64 option \<Rightarrow> string \<Rightarrow> ('z) fs_scheme \<Rightarrow> bool \<times> ('z) fs_scheme" where
  "vfs_write_file np dat s =
     (case np of None \<Rightarrow> (False, s)
      | Some n \<Rightarrow>
        let v = node s n; len = length dat in
        if vtype v \<noteq> FS_TYPE_FILE then (False, s)
        else if len + 1 > fcap v then
          let nc = write_cap (fcap v) len in
          (case kmalloc (of_nat nc) s of
             (None, s') \<Rightarrow> (False, s')
           | (Some nd, s') \<Rightarrow>
               (True, set_node n (v\<lparr>data := Some (dat @ NUL # drop (len + 1) (content v)),
                                    fsize := len, fcap := nc\<rparr>) s'))
        else
          (True, set_node n (v\<lparr>data := map_option (\<lambda>b. dat @ NUL # drop (len + 1) b) (data v),
                               fsize := len\<rparr>) s))"

definition vfs_append_file :: "u64 option \<Rightarrow> string \<Rightarrow> ('z) fs_scheme \<Rightarrow> bool \<times> ('z) fs_scheme" where
  "vfs_append_file np dat s =
     (case np of None \<Rightarrow> (False, s)
      | Some n \<Rightarrow>
        let v = node s n; len = length dat; need = fsize v + len + 1 in
        if vtype v \<noteq> FS_TYPE_FILE then (False, s)
        else if need > fcap v then
          let nc = append_cap (fcap v) need in
          (case kmalloc (of_nat nc) s of
             (None, s') \<Rightarrow> (False, s')
           | (Some nd, s') \<Rightarrow>
               (True, set_node n (v\<lparr>data := Some (content v @ dat @ [NUL]),
                                    fsize := fsize v + len, fcap := nc\<rparr>) s'))
        else
          (True, set_node n (v\<lparr>data := map_option (\<lambda>b. take (fsize v) b @ dat @ NUL # drop need b) (data v),
                               fsize := fsize v + len\<rparr>) s))"

definition vfs_truncate :: "u64 option \<Rightarrow> ('z) fs_scheme \<Rightarrow> ('z) fs_scheme" where
  "vfs_truncate np s =
     (case np of None \<Rightarrow> s
      | Some n \<Rightarrow>
        let v = node s n in
        if vtype v = FS_TYPE_FILE
        then set_node n (v\<lparr>data := map_option (\<lambda>b. NUL # drop 1 b) (data v), fsize := 0\<rparr>) s
        else s)"

section \<open>Creating and removing\<close>

text \<open>\<open>vfs_mkfile\<close> and \<open>vfs_mkdir\<close> differ in the type of the node only.\<close>

definition mk_entry :: "ftype \<Rightarrow> string \<Rightarrow> ('z) fs_scheme \<Rightarrow> (bool \<times> ('z) fs_scheme) option" where
  "mk_entry t path s = do {
     (par, nm) \<leftarrow> vfs_resolve_parent s path;
     case par of
       None \<Rightarrow> Some (False, s)
     | Some p \<Rightarrow>
         if vtype (node s p) \<noteq> FS_TYPE_DIR then Some (False, s)
         else if nm = [] \<or> child_of s (Some p) nm \<noteq> None then Some (False, s)
         else (case make_node t nm (Some p) s of
             (None, s') \<Rightarrow> Some (False, s')
           | (Some n, s') \<Rightarrow> Some (add_child p n s'))
   }"

definition vfs_mkfile :: "string \<Rightarrow> ('z) fs_scheme \<Rightarrow> (bool \<times> ('z) fs_scheme) option" where
  "vfs_mkfile path s = mk_entry FS_TYPE_FILE path s"

definition vfs_mkdir :: "string \<Rightarrow> ('z) fs_scheme \<Rightarrow> (bool \<times> ('z) fs_scheme) option" where
  "vfs_mkdir path s = mk_entry FS_TYPE_DIR path s"

definition vfs_unlink_node :: "u64 option \<Rightarrow> ('z) fs_scheme \<Rightarrow> bool \<times> ('z) fs_scheme" where
  "vfs_unlink_node np s =
     (case np of None \<Rightarrow> (False, s)
      | Some n \<Rightarrow>
        if n = vfs_root s then (False, s)
        else (case parent (node s n) of
            None \<Rightarrow> (False, s)
          | Some p \<Rightarrow>
              let v = node s p in
              if n \<in> set (children v)
              then (True, set_node p (v\<lparr>children := remove1 n (children v)\<rparr>) s)
              else (False, s)))"

definition vfs_rm :: "string \<Rightarrow> ('z) fs_scheme \<Rightarrow> bool \<times> ('z) fs_scheme" where
  "vfs_rm path s =
     (case vfs_resolve s (Some path) of None \<Rightarrow> (False, s)
      | Some n \<Rightarrow>
        if n = vfs_root s \<or> parent (node s n) = None then (False, s)
        else if vtype (node s n) = FS_TYPE_DIR \<and> length (children (node s n)) > 0 then (False, s)
        else vfs_unlink_node (Some n) s)"

text \<open>The recursion over the last child; a call that does not return is \<open>None\<close>.\<close>

partial_function (option) vfs_rm_recursive_node ::
  "u64 \<Rightarrow> ('z) fs_scheme \<Rightarrow> (bool \<times> ('z) fs_scheme) option" where
  "vfs_rm_recursive_node n s =
     (if n = vfs_root s then Some (False, s)
      else if children (node s n) \<noteq> []
      then do {
        r \<leftarrow> vfs_rm_recursive_node (last (children (node s n))) s;
        if fst r then vfs_rm_recursive_node n (snd r) else Some (False, snd r)
      }
      else Some (vfs_unlink_node (Some n) s))"

definition vfs_rm_recursive :: "string \<Rightarrow> ('z) fs_scheme \<Rightarrow> (bool \<times> ('z) fs_scheme) option" where
  "vfs_rm_recursive path s =
     (case vfs_resolve s (Some path) of None \<Rightarrow> Some (False, s)
      | Some n \<Rightarrow> if n = vfs_root s then Some (False, s) else vfs_rm_recursive_node n s)"

section \<open>The working directory name and the initial tree\<close>

text \<open>Where \<open>vfs_init\<close> cannot allocate the root or the home directory the kernel goes on with a
  NULL root or working directory; the state has no such value, and \<open>vfs_init\<close> is \<open>None\<close>.\<close>

text \<open>The names from \<open>n\<close> up to the root, at most \<open>k\<close> of them.\<close>

fun pwd_names :: "('z) fs_scheme \<Rightarrow> nat \<Rightarrow> u64 option \<Rightarrow> string list" where
  "pwd_names s 0 n = []"
| "pwd_names s (Suc k) None = []"
| "pwd_names s (Suc k) (Some n) =
     (if n = vfs_root s then [] else name (node s n) # pwd_names s k (parent (node s n)))"

text \<open>The second loop appends to a 1024-byte buffer.\<close>

definition vfs_update_pwd :: "('z) fs_scheme \<Rightarrow> ('z) fs_scheme option" where
  "vfs_update_pwd s =
     (if vfs_cwd s = vfs_root s then Some (s\<lparr>vfs_pwd := ''/''\<rparr>)
      else let buf = concat (map (\<lambda>nm. CHR ''/'' # nm) (rev (pwd_names s 64 (Some (vfs_cwd s)))))
        in if length buf < 1024
           then Some (s\<lparr>vfs_pwd := (if buf = [] then ''/'' else buf)\<rparr>)
           else None)"

definition mkdir_simple ::
  "u64 option \<Rightarrow> string \<Rightarrow> ('z) fs_scheme \<Rightarrow> (u64 option \<times> ('z) fs_scheme) option" where
  "mkdir_simple par nm s =
     (case make_node FS_TYPE_DIR nm par s of
        (None, s') \<Rightarrow> Some (None, s')
      | (Some n, s') \<Rightarrow>
          (case par of None \<Rightarrow> None | Some p \<Rightarrow> Some (Some n, snd (add_child p n s'))))"

definition mkfile_simple ::
  "u64 option \<Rightarrow> string \<Rightarrow> string \<Rightarrow> ('z) fs_scheme \<Rightarrow> (u64 option \<times> ('z) fs_scheme) option" where
  "mkfile_simple par nm txt s =
     (case make_node FS_TYPE_FILE nm par s of
        (None, s') \<Rightarrow> Some (None, s')
      | (Some n, s') \<Rightarrow>
          (case par of None \<Rightarrow> None
           | Some p \<Rightarrow> Some (Some n, snd (vfs_write_file (Some n) txt (snd (add_child p n s'))))))"

definition motd_text :: string where
  "motd_text = ''Welcome to BojanOS - a from-scratch 64-bit operating system'' @ [LF]"

definition os_release_text :: string where
  "os_release_text = ''NAME=BojanOS'' @ [LF] @ ''VERSION=1.0'' @ [LF] @ ''ID=bojanos'' @ [LF]
     @ ''PRETTY_NAME='' @ [DQUOTE] @ ''BojanOS 1.0'' @ [DQUOTE, LF]"

definition readme_text :: string where
  "readme_text = ''BojanOS'' @ [LF] @ ''======='' @ [LF]
     @ ''Everything you see was written from scratch for this OS:'' @ [LF]
     @ '' - 64-bit long mode kernel with paging, GDT, IDT, IRQs'' @ [LF]
     @ '' - PS/2 keyboard driver, PIT timer, CMOS RTC'' @ [LF]
     @ '' - in-RAM filesystem with directories and files'' @ [LF]
     @ '' - shell with pipes and redirections'' @ [LF]
     @ ''Type '' @ [QUOTE] @ ''help'' @ [QUOTE] @ '' to list commands.'' @ [LF]"

definition vfs_init :: "('z) fs_scheme \<Rightarrow> ('z) fs_scheme option" where
  "vfs_init s0 =
     (case make_node FS_TYPE_DIR [] None s0 of
        (None, _) \<Rightarrow> None
      | (Some r, s1) \<Rightarrow>
        let s2 = (set_node r ((node s1 r)\<lparr>parent := Some r\<rparr>) s1)\<lparr>vfs_root := r, vfs_cwd := r\<rparr> in
        do {
          (bin, s) \<leftarrow> mkdir_simple (Some r) ''bin'' s2;
          (etc, s) \<leftarrow> mkdir_simple (Some r) ''etc'' s;
          (home, s) \<leftarrow> mkdir_simple (Some r) ''home'' s;
          (root, s) \<leftarrow> mkdir_simple (Some r) ''root'' s;
          (tmp, s) \<leftarrow> mkdir_simple (Some r) ''tmp'' s;
          (usr, s) \<leftarrow> mkdir_simple (Some r) ''usr'' s;
          (_, s) \<leftarrow> mkdir_simple usr ''bin'' s;
          (_, s) \<leftarrow> mkdir_simple home ''user'' s;
          (_, s) \<leftarrow> mkfile_simple etc ''motd'' motd_text s;
          (_, s) \<leftarrow> mkfile_simple etc ''hostname'' (''bojanos'' @ [LF]) s;
          (_, s) \<leftarrow> mkfile_simple etc ''os-release'' os_release_text s;
          (_, s) \<leftarrow> mkfile_simple root ''readme.txt'' readme_text s;
          home_dir \<leftarrow> root;
          vfs_update_pwd (s\<lparr>vfs_cwd := home_dir\<rparr>)
        })"

end
