(* ===== verification/Vfs_Inv.thy ===== *)
theory Vfs_Inv
  imports Vfs
begin

text \<open>
  The invariant of the vnode store and its preservation by every operation of \<open>src/vfs.c\<close>.
  It says that every stored pointer points to a vnode, that parents are directories allocated
  before their children (so the tree has no cycle and every walk up or down ends), that a child
  names its directory as parent, that siblings have different names, and that the bytes of a
  file fit its block.
\<close>

section \<open>The invariant\<close>

definition data_ok :: "vnode \<Rightarrow> bool" where
  "data_ok n \<longleftrightarrow> (case data n of
       None \<Rightarrow> fsize n = 0 \<and> fcap n = 0
     | Some b \<Rightarrow> fsize n < length b \<and> length b \<le> fcap n)"

definition node_ok :: "('z) fs_scheme \<Rightarrow> u64 \<Rightarrow> vnode \<Rightarrow> bool" where
  "node_ok s a n \<longleftrightarrow>
     unat a + 128 \<le> frontier s \<and>
     (\<exists>p m. parent n = Some p \<and> nodes s p = Some m \<and> vtype m = FS_TYPE_DIR \<and>
            (if a = vfs_root s then p = a else unat p < unat a)) \<and>
     (\<forall>c \<in> set (children n). c \<noteq> vfs_root s \<and> (\<exists>m. nodes s c = Some m \<and> parent m = Some a)) \<and>
     distinct (map (\<lambda>c. name (node s c)) (children n)) \<and>
     (vtype n = FS_TYPE_FILE \<longrightarrow> children n = []) \<and>
     length (children n) \<le> child_cap n \<and> child_cap n * 8 \<le> unat (used s) \<and>
     length (name n) < 64 \<and>
     data_ok n \<and> fcap n \<le> unat (used s)"

definition fs_ok :: "('z) fs_scheme \<Rightarrow> bool" where
  "fs_ok s \<longleftrightarrow>
     heap_ok s \<and>
     (\<exists>r. nodes s (vfs_root s) = Some r \<and> vtype r = FS_TYPE_DIR) \<and>
     (\<exists>c. nodes s (vfs_cwd s) = Some c \<and> vtype c = FS_TYPE_DIR) \<and>
     (\<forall>a n. nodes s a = Some n \<longrightarrow> node_ok s a n)"

lemma node_Some [simp]: "nodes s a = Some n \<Longrightarrow> node s a = n"
  by (simp add: node_def)

lemma node_set_node [simp]: "node (set_node a n s) b = (if b = a then n else node s b)"
  by (simp add: node_def set_node_def)

lemma set_node_frame [frame_simps, simp]:
  "used (set_node a n s) = used s" "heap.total (set_node a n s) = heap.total s"
  "vfs_root (set_node a n s) = vfs_root s" "vfs_cwd (set_node a n s) = vfs_cwd s"
  "vfs_pwd (set_node a n s) = vfs_pwd s"
  "nodes (set_node a n s) = (nodes s)(a \<mapsto> n)"
  "fs.more (set_node a n s) = fs.more s"
  by (simp_all add: set_node_def)

lemma frontier_used: "frontier s = 16777216 + unat (used s)"
  by (simp add: frontier_def)

lemma heap_ok_used_cong: "used s = used t \<Longrightarrow> heap.total s = heap.total t \<Longrightarrow> heap_ok s = heap_ok t"
  by (simp add: heap_ok_def)

lemma fs_okD:
  assumes "fs_ok s"
  shows "heap_ok s" "nodes s (vfs_root s) \<noteq> None" "is_dir s (vfs_root s)"
    "nodes s (vfs_cwd s) \<noteq> None" "is_dir s (vfs_cwd s)"
    "nodes s a = Some n \<Longrightarrow> node_ok s a n"
  using assms by (auto simp: fs_ok_def)

section \<open>Heap growth\<close>

text \<open>What an allocation changes: the frontier moves up, the heap area may be written.\<close>

definition heap_step :: "('z) fs_scheme \<Rightarrow> ('z) fs_scheme \<Rightarrow> bool" where
  "heap_step s s' \<longleftrightarrow> (\<exists>u m. s' = s\<lparr>used := u, ram := m\<rparr> \<and> used s \<le> u) \<and> heap_ok s'"

lemma heap_step_refl: "heap_ok s \<Longrightarrow> heap_step s s"
  unfolding heap_step_def by (intro conjI exI [of _ "used s"] exI [of _ "ram s"]) auto

lemma heap_step_frame [frame_simps]:
  "heap_step s s' \<Longrightarrow> nodes s' = nodes s" "heap_step s s' \<Longrightarrow> vfs_root s' = vfs_root s"
  "heap_step s s' \<Longrightarrow> vfs_cwd s' = vfs_cwd s" "heap_step s s' \<Longrightarrow> vfs_pwd s' = vfs_pwd s"
  "heap_step s s' \<Longrightarrow> fs.more s' = fs.more s" "heap_step s s' \<Longrightarrow> heap.total s' = heap.total s"
  by (auto simp: heap_step_def)

lemma heap_step_node [frame_simps]: "heap_step s s' \<Longrightarrow> node s' a = node s a"
  by (simp add: node_def frame_simps)

lemma heap_step_used: "heap_step s s' \<Longrightarrow> unat (used s) \<le> unat (used s')"
  by (auto simp: heap_step_def word_le_nat_alt)

lemma node_ok_heap_step: "heap_step s s' \<Longrightarrow> node_ok s a n \<Longrightarrow> node_ok s' a n"
  using heap_step_used [of s s'] by (auto simp: node_ok_def frame_simps frontier_used)

lemma fs_ok_heap_step:
  assumes "heap_step s s'" and "fs_ok s"
  shows "fs_ok s'"
  using assms node_ok_heap_step [OF assms(1)]
  by (auto simp: fs_ok_def frame_simps heap_step_def)

lemma kmalloc_heap_step:
  assumes "heap_ok s" and "unat n < 2 ^ 63" and "kmalloc n s = (r, s')"
  shows "heap_step s s'"
    and "r = Some p \<Longrightarrow> unat p = frontier s \<and> unat (used s') = unat (used s) + up16 (unat n)"
    and "r = None \<Longrightarrow> s' = s"
proof -
  have ok: "heap_ok s'" using heap_ok_kmalloc [OF assms(1,2)] assms(3) by simp
  from kmalloc_cases [OF assms(1,2)] assms(3)
  have "s' = s \<and> r = None \<or>
      s' = s\<lparr>used := used s + align_up n 16\<rparr> \<and> unat (used s') = unat (used s) + up16 (unat n)"
    by auto
  then have "\<exists>u. s' = s\<lparr>used := u\<rparr> \<and> used s \<le> u"
  proof
    assume "s' = s \<and> r = None"
    then show ?thesis by (intro exI [of _ "used s"]) auto
  next
    assume "s' = s\<lparr>used := used s + align_up n 16\<rparr> \<and> unat (used s') = unat (used s) + up16 (unat n)"
    then show ?thesis by (intro exI [of _ "used s'"]) (auto simp: word_le_nat_alt)
  qed
  then obtain u where "s' = s\<lparr>used := u\<rparr>" and u: "used s \<le> u" by blast
  then have "s' = s\<lparr>used := u, ram := ram s\<rparr>" by simp
  with u ok show "heap_step s s'" unfolding heap_step_def by blast
  show "r = Some p \<Longrightarrow> unat p = frontier s \<and> unat (used s') = unat (used s) + up16 (unat n)"
    using kmalloc_Some [OF assms(1,2), of p s'] assms(3) by (auto simp: frontier_used)
  show "r = None \<Longrightarrow> s' = s" using assms(3) kmalloc_None by blast
qed

lemma heap_step_ram:
  assumes "heap_step s t"
  shows "heap_step s (t\<lparr>ram := m\<rparr>)"
proof -
  obtain u m0 where t: "t = s\<lparr>used := u, ram := m0\<rparr>" and u: "used s \<le> u"
    using assms by (auto simp: heap_step_def)
  have "t\<lparr>ram := m\<rparr> = s\<lparr>used := u, ram := m\<rparr>" by (simp add: t)
  moreover have "heap_ok (t\<lparr>ram := m\<rparr>)"
    using assms by (simp add: heap_step_def heap_ok_def)
  ultimately show ?thesis using u unfolding heap_step_def by blast
qed

lemma kzalloc_heap_step:
  assumes "heap_ok s" and "unat n < 2 ^ 63" and "kzalloc n s = (r, s')"
  shows "heap_step s s'"
    and "r = Some p \<Longrightarrow> unat p = frontier s \<and> unat (used s') = unat (used s) + up16 (unat n)"
    and "r = None \<Longrightarrow> s' = s"
proof -
  obtain r1 s1 where k: "kmalloc n s = (r1, s1)" by (cases "kmalloc n s")
  note ks = kmalloc_heap_step [OF assms(1,2) k]
  have r: "r = r1" and s': "s' = (case r1 of None \<Rightarrow> s1 | Some p \<Rightarrow> s1\<lparr>ram := ram_fill p NUL (unat n) (ram s1)\<rparr>)"
    using assms(3) k by (auto simp: kzalloc_def split: option.splits)
  show "heap_step s s'"
    using ks(1) heap_step_ram by (auto simp: s' split: option.splits)
  show "r = Some p \<Longrightarrow> unat p = frontier s \<and> unat (used s') = unat (used s) + up16 (unat n)"
    using ks(2) [of p] by (simp add: r s')
  show "r = None \<Longrightarrow> s' = s"
    using ks(3) by (simp add: r s')
qed

section \<open>Replacing and adding a vnode\<close>

text \<open>A new version of a vnode that keeps its type, name and parent.\<close>

lemma fs_ok_update:
  assumes ok: "fs_ok s" and a: "nodes s a = Some n"
    and same: "vtype n' = vtype n" "name n' = name n" "parent n' = parent n"
    and n': "node_ok s a n'"
  shows "fs_ok (set_node a n' s)"
proof -
  let ?t = "set_node a n' s"
  have nm: "name (node ?t c) = name (node s c)" for c using a same by simp
  have par: "\<exists>q. nodes ?t p = Some q \<and> vtype q = vtype m \<and> parent q = parent m"
    if "nodes s p = Some m" for p m
    using that a same by (cases "p = a") auto
  have lift: "node_ok ?t b m" if m: "node_ok s b m" for b m
  proof -
    obtain p q where pq: "parent m = Some p" "nodes s p = Some q" "vtype q = FS_TYPE_DIR"
        "if b = vfs_root s then p = b else unat p < unat b"
      using m unfolding node_ok_def by blast
    then have "\<exists>p q. parent m = Some p \<and> nodes ?t p = Some q \<and> vtype q = FS_TYPE_DIR \<and>
        (if b = vfs_root s then p = b else unat p < unat b)"
      using par by metis
    moreover have "\<forall>c \<in> set (children m). c \<noteq> vfs_root s \<and> (\<exists>q. nodes ?t c = Some q \<and> parent q = Some b)"
      using m par unfolding node_ok_def by metis
    ultimately show ?thesis
      using m unfolding node_ok_def nm by (simp add: frontier_used del: set_node_frame(6))
  qed
  have "node_ok ?t b m" if b: "nodes ?t b = Some m" for b m
    using b n' fs_okD(6) [OF ok] lift by (cases "b = a") auto
  moreover have "heap_ok ?t" using fs_okD(1) [OF ok] by (simp add: heap_ok_def)
  ultimately show ?thesis
    using ok a same by (auto simp: fs_ok_def)
qed

lemma fs_ok_update_data:
  assumes ok: "fs_ok s" and a: "nodes s a = Some n" and d: "data_ok n'" "fcap n' \<le> unat (used s)"
    and n': "n' = n\<lparr>data := data n', fsize := fsize n', fcap := fcap n'\<rparr>"
  shows "fs_ok (set_node a n' s)"
proof (rule fs_ok_update [OF ok a])
  have same: "vtype n' = vtype n" "name n' = name n" "parent n' = parent n"
      "children n' = children n" "child_cap n' = child_cap n"
    by (subst n', simp)+
  then show "vtype n' = vtype n" "name n' = name n" "parent n' = parent n" by simp_all
  show "node_ok s a n'"
    using fs_okD(6) [OF ok a] d unfolding node_ok_def same by blast
qed

lemma fs_ok_update_children:
  assumes ok: "fs_ok s" and a: "nodes s a = Some n" and d: "vtype n = FS_TYPE_DIR"
    and cs: "\<forall>c \<in> set cs. c \<noteq> vfs_root s \<and> (\<exists>m. nodes s c = Some m \<and> parent m = Some a)"
      "distinct (map (\<lambda>c. name (node s c)) cs)" "length cs \<le> k" "k * 8 \<le> unat (used s)"
  shows "fs_ok (set_node a (n\<lparr>children := cs, child_cap := k\<rparr>) s)"
proof (rule fs_ok_update [OF ok a])
  let ?n = "n\<lparr>children := cs, child_cap := k\<rparr>"
  have "data_ok ?n = data_ok n" by (simp add: data_ok_def split: option.split)
  then show "node_ok s a ?n"
    using fs_okD(6) [OF ok a] d cs by (auto simp: node_ok_def)
qed simp_all

lemma fs_ok_fresh:
  assumes "fs_ok s" and "frontier s \<le> unat a"
  shows "nodes s a = None"
proof (rule ccontr)
  assume "nodes s a \<noteq> None"
  then obtain n where "nodes s a = Some n" by blast
  then have "unat a + 128 \<le> frontier s" using fs_okD(6) [OF assms(1)] by (simp add: node_ok_def)
  with assms(2) show False by simp
qed

lemma fs_ok_insert:
  assumes ok: "fs_ok s" and a: "nodes s a = None" and f: "unat a + 128 \<le> frontier s"
    and p: "nodes s p = Some m" "vtype m = FS_TYPE_DIR" "unat p < unat a" and l: "length nm < 64"
  shows "fs_ok (set_node a (blank_vnode t nm (Some p)) s)"
proof -
  let ?t = "set_node a (blank_vnode t nm (Some p)) s"
  have keep: "nodes ?t b = nodes s b" if "nodes s b \<noteq> None" for b using that a by auto
  have lift: "node_ok ?t b n" if n: "nodes s b = Some n" for b n
  proof -
    have ok': "node_ok s b n" using ok n by (rule fs_okD(6))
    then have ch: "\<forall>c \<in> set (children n). nodes s c \<noteq> None" by (auto simp: node_ok_def)
    then have "map (\<lambda>c. name (node ?t c)) (children n) = map (\<lambda>c. name (node s c)) (children n)"
      using keep a by (intro map_cong) (auto simp: node_def)
    then show ?thesis
      using ok' ch keep unfolding node_ok_def frontier_used set_node_frame(1) set_node_frame(3)
      by (metis option.distinct(1))
  qed
  have "a \<noteq> vfs_root s" using fs_okD(2) [OF ok] a by auto
  then have "node_ok ?t a (blank_vnode t nm (Some p))"
    using f p l a by (auto simp: node_ok_def blank_vnode_def data_ok_def frontier_used)
  then have "node_ok ?t b n" if "nodes ?t b = Some n" for b n
    using that lift by (cases "b = a") auto
  moreover have "heap_ok ?t" using fs_okD(1) [OF ok] by (simp add: heap_ok_def)
  ultimately show ?thesis
    using ok a by (auto simp: fs_ok_def)
qed

section \<open>Creating\<close>

lemma unat_sizeof_vnode [simp]: "unat (of_nat sizeof_vnode :: u64) = 120"
  by (simp add: sizeof_vnode_def)

lemma up16_120 [simp]: "up16 120 = 128"
  by (simp add: up16_def)

text \<open>A node that was created is at a fresh address, has its fields set and is not yet a child.\<close>

lemma make_node_Some:
  assumes ok: "fs_ok s" and p: "nodes s p = Some m" "vtype m = FS_TYPE_DIR"
    and mk: "make_node t nm (Some p) s = (Some n, s')"
  shows "fs_ok s'" and "nodes s n = None"
    and "\<exists>s1. heap_step s s1 \<and> s' = set_node n (blank_vnode t (take 63 nm) (Some p)) s1"
    and "unat n = frontier s"
proof -
  obtain s1 where z: "kzalloc (of_nat sizeof_vnode) s = (Some n, s1)"
    and s': "s' = set_node n (blank_vnode t (take 63 nm) (Some p)) s1"
    using mk by (auto simp: make_node_def VFS_NAME_MAX_def split: prod.splits option.splits)
  have small: "unat (of_nat sizeof_vnode :: u64) < 2 ^ 63" by simp
  note k = kzalloc_heap_step [OF fs_okD(1) [OF ok] small z]
  have n: "unat n = frontier s" and u: "unat (used s1) = unat (used s) + 128"
    using k(2) [of n] by simp_all
  have ok1: "fs_ok s1" using k(1) ok by (rule fs_ok_heap_step)
  show fresh: "nodes s n = None" using ok n by (intro fs_ok_fresh) simp_all
  have "unat p + 128 \<le> frontier s" using fs_okD(6) [OF ok p(1)] by (simp add: node_ok_def)
  then have lt: "unat p < unat n" using n by simp
  show "fs_ok s'"
    unfolding s'
  proof (rule fs_ok_insert [OF ok1 _ _ _ p(2) lt])
    show "nodes s1 n = None" using fresh k(1) by (simp add: frame_simps)
    show "unat n + 128 \<le> frontier s1" using n u by (simp add: frontier_used)
    show "nodes s1 p = Some m" using p(1) k(1) by (simp add: frame_simps)
  qed simp
  show "unat n = frontier s" by (rule n)
  show "\<exists>s1. heap_step s s1 \<and> s' = set_node n (blank_vnode t (take 63 nm) (Some p)) s1"
    using k(1) s' by blast
qed

lemma make_node_None:
  assumes "fs_ok s" and "make_node t nm p s = (None, s')"
  shows "s' = s"
proof -
  have "kzalloc (of_nat sizeof_vnode) s = (None, s')"
    using assms(2) by (auto simp: make_node_def split: prod.splits option.splits)
  then show ?thesis
    using kzalloc_heap_step(3) [OF fs_okD(1) [OF assms(1)], of "of_nat sizeof_vnode" None s'] by simp
qed

text \<open>Entering a node into its directory; where no memory is left the directory is unchanged.\<close>

lemma add_child_cases:
  assumes ok: "fs_ok s" and d: "nodes s d = Some v" "vtype v = FS_TYPE_DIR"
    and add: "add_child d c s = (r, s')"
  shows "r \<and> (\<exists>s1 k. heap_step s s1 \<and> length (children v) < k \<and> k * 8 \<le> unat (used s1) \<and>
             s' = set_node d (v\<lparr>children := children v @ [c], child_cap := k\<rparr>) s1)
       \<or> \<not> r \<and> s' = s"
proof -
  have nd: "node_ok s d v" using ok d(1) by (rule fs_okD(6))
  then have capu: "child_cap v * 8 \<le> unat (used s)" and lenc: "length (children v) \<le> child_cap v"
    by (auto simp: node_ok_def)
  have hok: "heap_ok s" using ok by (rule fs_okD(1))
  have bound: "unat (used s) \<le> 16777216" using hok by (simp add: heap_ok_def)
  show ?thesis
  proof (cases "length (children v) \<ge> child_cap v")
    case False
    have "v\<lparr>children := children v @ [c]\<rparr> = v\<lparr>children := children v @ [c], child_cap := child_cap v\<rparr>"
      by simp
    then have "r \<and> s' = set_node d (v\<lparr>children := children v @ [c], child_cap := child_cap v\<rparr>) s"
      using add False d by (simp add: add_child_def)
    with False heap_step_refl [OF hok] capu show ?thesis
      by (metis not_le)
  next
    case True
    define k where "k = grown_child_cap (child_cap v)"
    have k8: "k * 8 \<le> 33554432" and kl: "length (children v) < k"
      using capu bound lenc by (auto simp: k_def grown_child_cap_def)
    have sz: "unat (of_nat (k * sizeof_ptr) :: u64) = k * 8"
      using k8 by (simp add: sizeof_ptr_def unat_of_nat del: of_nat_mult)
    obtain q s1 where q: "kmalloc (of_nat (k * sizeof_ptr)) s = (q, s1)"
      by (cases "kmalloc (of_nat (k * sizeof_ptr)) s")
    have small: "unat (of_nat (k * sizeof_ptr) :: u64) < 2 ^ 63" using sz k8 by simp
    note ks = kmalloc_heap_step [OF hok small q]
    show ?thesis
    proof (cases q)
      case None
      then show ?thesis using add True d q ks(3)
        by (simp add: add_child_def Let_def flip: k_def del: of_nat_mult)
    next
      case (Some nc)
      have "unat (used s1) = unat (used s) + up16 (k * 8)" using ks(2) Some sz by simp
      then have "k * 8 \<le> unat (used s1)" using up16_ge [of "k * 8"] by simp
      moreover have "r \<and> s' = set_node d (v\<lparr>children := children v @ [c], child_cap := k\<rparr>) s1"
        using add True d q Some by (simp add: add_child_def Let_def flip: k_def del: of_nat_mult)
      ultimately show ?thesis using ks(1) kl by blast
    qed
  qed
qed

lemma fs_ok_add_child:
  assumes ok: "fs_ok s" and d: "nodes s d = Some v" "vtype v = FS_TYPE_DIR"
    and c: "nodes s c = Some m" "parent m = Some d" "c \<noteq> vfs_root s"
    and new: "\<forall>b \<in> set (children v). name (node s b) \<noteq> name m"
    and add: "add_child d c s = (r, s')"
  shows "fs_ok s'"
  using add_child_cases [OF ok d add]
proof (elim disjE conjE exE)
  fix s1 k
  assume h: "heap_step s s1" and k: "length (children v) < k" "k * 8 \<le> unat (used s1)"
    and s': "s' = set_node d (v\<lparr>children := children v @ [c], child_cap := k\<rparr>) s1"
  have ok1: "fs_ok s1" using h ok by (rule fs_ok_heap_step)
  have eqs: "nodes s1 = nodes s" "vfs_root s1 = vfs_root s"
    using h by (rule heap_step_frame)+
  have eqn: "node s1 = node s" using eqs by (simp add: node_def fun_eq_iff)
  have nd: "node_ok s1 d v" using ok1 by (rule fs_okD(6)) (simp add: eqs d)
  show ?thesis
    unfolding s'
  proof (rule fs_ok_update_children [OF ok1 _ d(2)])
    show "nodes s1 d = Some v" using d(1) by (simp add: eqs)
    show "\<forall>x \<in> set (children v @ [c]). x \<noteq> vfs_root s1 \<and> (\<exists>m. nodes s1 x = Some m \<and> parent m = Some d)"
      using nd c unfolding node_ok_def eqs by auto
    show "distinct (map (\<lambda>x. name (node s1 x)) (children v @ [c]))"
      using nd c new unfolding node_ok_def eqn by auto
  qed (use k in auto)
qed (use ok in auto)

section \<open>Resolving\<close>

lemma child_of_Some:
  assumes ok: "fs_ok s" and d: "nodes s d = Some v" and c: "child_of s (Some d) nm = Some c"
  shows "c \<in> set (children v)" "vtype v = FS_TYPE_DIR" "name (node s c) = nm" "c \<noteq> vfs_root s"
    "\<exists>m. nodes s c = Some m \<and> parent m = Some d"
proof -
  have v: "vtype v = FS_TYPE_DIR" and f: "find (\<lambda>c. name (node s c) = nm) (children v) = Some c"
    using c d by (auto simp: child_of_def split: if_splits)
  then show mem: "c \<in> set (children v)" and "name (node s c) = nm" and "vtype v = FS_TYPE_DIR"
    by (auto simp: find_Some_iff)
  have "node_ok s d v" using ok d by (rule fs_okD(6))
  with mem show "c \<noteq> vfs_root s" "\<exists>m. nodes s c = Some m \<and> parent m = Some d"
    by (auto simp: node_ok_def)
qed

lemma parent_valid:
  assumes "fs_ok s" and "nodes s a = Some n"
  obtains p m where "parent n = Some p" "nodes s p = Some m" "vtype m = FS_TYPE_DIR"
    "if a = vfs_root s then p = a else unat p < unat a"
  using fs_okD(6) [OF assms] unfolding node_ok_def by blast

lemma resolve_loop_valid:
  "fs_ok s \<Longrightarrow> nodes s cur \<noteq> None \<Longrightarrow> resolve_loop s cur p = Some n \<Longrightarrow> nodes s n \<noteq> None"
proof (induction s cur p rule: resolve_loop.induct)
  case (1 s cur p)
  obtain v where v: "nodes s cur = Some v" using "1.prems"(2) by blast
  obtain u m where u: "parent v = Some u" "nodes s u = Some m"
    using parent_valid [OF "1.prems"(1) v] by metis
  have c: "child_of s (Some d) nm = Some c \<Longrightarrow> nodes s d \<noteq> None \<Longrightarrow> nodes s c \<noteq> None" for d nm c
    using child_of_Some(5) [OF "1.prems"(1)] by blast
  have r: "nodes s (vfs_root s) \<noteq> None" using fs_okD(2) [OF "1.prems"(1)] .
  show ?case
    using "1.prems"(3) v u r c "1.IH" "1.prems"(1)
    by (subst (asm) resolve_loop.simps) (auto split: if_splits option.splits)
qed

lemma vfs_resolve_valid:
  assumes ok: "fs_ok s" and r: "vfs_resolve s path = Some n"
  shows "nodes s n \<noteq> None"
proof (cases "path = None \<or> path = Some []")
  case True
  then show ?thesis using r fs_okD(4) [OF ok] by (auto simp: vfs_resolve_def)
next
  case False
  then obtain c p where p: "path = Some (c # p)" by (metis list.exhaust option.exhaust)
  have "resolve_loop s (if c = CHR ''/'' then vfs_root s else vfs_cwd s) (c # p) = Some n"
    using r by (simp add: vfs_resolve_def p)
  then show ?thesis
    by (rule resolve_loop_valid [OF ok, rotated]) (use fs_okD(2,4) [OF ok] in auto)
qed

lemma vfs_resolve_parent_valid:
  assumes ok: "fs_ok s" and r: "vfs_resolve_parent s path = Some (Some p, nm)"
  shows "nodes s p \<noteq> None" and "length nm < 64"
  using r fs_okD(2,4) [OF ok] vfs_resolve_valid [OF ok]
  by (auto simp: vfs_resolve_parent_def Let_def VFS_NAME_MAX_def
      split: option.splits if_splits bind_splits)

section \<open>The create operations keep the invariant\<close>

text \<open>What a create call does: it fails and leaves the state as it is, or runs out of memory
  after making the node, or enters the new node under its parent.\<close>

lemma mk_entry_cases:
  assumes ok: "fs_ok s" and mk: "mk_entry t path s = Some (r, s')"
  shows "(\<not> r \<and> s' = s) \<or>
    (\<exists>p v nm n s1. vfs_resolve_parent s path = Some (Some p, nm) \<and>
       nodes s p = Some v \<and> vtype v = FS_TYPE_DIR \<and> nm \<noteq> [] \<and> child_of s (Some p) nm = None \<and>
       make_node t nm (Some p) s = (Some n, s1) \<and> add_child p n s1 = (r, s'))"
proof -
  obtain par nm where rp: "vfs_resolve_parent s path = Some (par, nm)"
    using mk by (cases "vfs_resolve_parent s path") (auto simp: mk_entry_def)
  show ?thesis
  proof (cases par)
    case None
    then show ?thesis using mk rp by (auto simp: mk_entry_def)
  next
    case (Some p)
    obtain v where v: "nodes s p = Some v"
      using vfs_resolve_parent_valid(1) [OF ok, of path p nm] rp Some by auto
    have none: "make_node t nm (Some p) s = (None, s1) \<Longrightarrow> s1 = s" for s1
      using make_node_None [OF ok] by blast
    show ?thesis
      using mk rp Some v none
      by (auto simp: mk_entry_def split: if_splits prod.splits option.splits)
  qed
qed

lemma child_of_None:
  "vtype (node s d) = FS_TYPE_DIR \<Longrightarrow> child_of s (Some d) nm = None \<longleftrightarrow>
     (\<forall>c \<in> set (children (node s d)). name (node s c) \<noteq> nm)"
  by (auto simp: child_of_def find_None_iff)

lemma fs_ok_mk_entry:
  assumes ok: "fs_ok s" and mk: "mk_entry t path s = Some (r, s')"
  shows "fs_ok s'"
  using mk_entry_cases [OF ok mk]
proof (elim disjE conjE exE)
  fix p v nm n s1
  assume rp: "vfs_resolve_parent s path = Some (Some p, nm)"
    and v: "nodes s p = Some v" "vtype v = FS_TYPE_DIR" and free: "child_of s (Some p) nm = None"
    and mn: "make_node t nm (Some p) s = (Some n, s1)" and ad: "add_child p n s1 = (r, s')"
  note mk = make_node_Some [OF ok v mn]
  have len: "length nm < 64" using vfs_resolve_parent_valid(2) [OF ok rp] .
  obtain s0 where h: "heap_step s s0" and s1: "s1 = set_node n (blank_vnode t nm (Some p)) s0"
    using mk(3) len by auto
  have np: "p \<noteq> n" using mk(2) v(1) by auto
  have eqs: "nodes s0 = nodes s" "vfs_root s0 = vfs_root s" using h by (rule heap_step_frame)+
  have v1: "nodes s1 p = Some v" using v np by (simp add: s1 eqs)
  have nr: "n \<noteq> vfs_root s1" using fs_okD(2) [OF ok] mk(2) by (auto simp: s1 eqs)
  have uniq: "name (node s1 b) \<noteq> nm" if b: "b \<in> set (children v)" for b
  proof -
    have "nodes s b \<noteq> None" using fs_okD(6) [OF ok v(1)] b by (auto simp: node_ok_def)
    then have "b \<noteq> n" using mk(2) by auto
    then have "node s1 b = node s b" by (simp add: s1 node_def eqs)
    then show ?thesis using free b v by (simp add: child_of_None)
  qed
  show ?thesis
  proof (rule fs_ok_add_child [OF mk(1) v1 v(2) _ _ nr _ ad])
    show "nodes s1 n = Some (blank_vnode t nm (Some p))" by (simp add: s1)
    show "parent (blank_vnode t nm (Some p)) = Some p" by (simp add: blank_vnode_def)
    show "\<forall>b \<in> set (children v). name (node s1 b) \<noteq> name (blank_vnode t nm (Some p))"
      using uniq by (simp add: blank_vnode_def)
  qed
qed (use ok in auto)

section \<open>File data\<close>

lemma length_content: "data_ok v \<Longrightarrow> length (content v) = fsize v"
  by (auto simp: data_ok_def content_def split: option.splits)

lemma write_cap_bounds:
  "len < write_cap c len \<and> c \<le> write_cap c len \<and> write_cap c len \<le> max (max c 64) (2 * len)"
  unfolding write_cap_def
  by (rule while_rule [where P = "\<lambda>nc. 0 < nc \<and> c \<le> nc \<and> nc \<le> max (max c 64) (2 * len)"
        and r = "measure (\<lambda>nc. Suc len - nc)"]) auto

lemma append_cap_bounds:
  "need \<le> append_cap c need \<and> c \<le> append_cap c need \<and> append_cap c need \<le> max (max c 64) (2 * need)"
  unfolding append_cap_def
  by (rule while_rule [where P = "\<lambda>nc. 0 < nc \<and> c \<le> nc \<and> nc \<le> max (max c 64) (2 * need)"
        and r = "measure (\<lambda>nc. need - nc)"]) auto

text \<open>The effect of a data operation that succeeds: the vnode keeps all but its data, the heap
  may have grown, and the content is \<open>txt\<close>.\<close>

definition file_step :: "('z) fs_scheme \<Rightarrow> u64 \<Rightarrow> string \<Rightarrow> ('z) fs_scheme \<Rightarrow> bool" where
  "file_step s n txt s' \<longleftrightarrow>
     (\<exists>s1 v'. heap_step s s1 \<and> s' = set_node n v' s1 \<and>
        v' = (node s n)\<lparr>data := data v', fsize := fsize v', fcap := fcap v'\<rparr> \<and>
        content v' = txt \<and> data_ok v' \<and> fcap v' \<le> unat (used s1))"

lemma fs_ok_file_step:
  assumes ok: "fs_ok s" and n: "nodes s n \<noteq> None" and st: "file_step s n txt s'"
  shows "fs_ok s'"
proof -
  obtain v where v: "nodes s n = Some v" using n by blast
  obtain s1 v' where h: "heap_step s s1" and s': "s' = set_node n v' s1"
    and v': "v' = v\<lparr>data := data v', fsize := fsize v', fcap := fcap v'\<rparr>"
    and d: "data_ok v'" "fcap v' \<le> unat (used s1)"
    using st v unfolding file_step_def by auto
  have "nodes s1 n = Some v" using v h by (simp add: heap_step_frame)
  then show ?thesis
    unfolding s' using fs_ok_heap_step [OF h ok] d v' by (intro fs_ok_update_data)
qed

lemma file_step_frame:
  assumes "file_step s n txt s'"
  shows "content (node s' n) = txt" "m \<noteq> n \<Longrightarrow> node s' m = node s m"
    "name (node s' m) = name (node s m)" "parent (node s' m) = parent (node s m)"
    "vtype (node s' m) = vtype (node s m)" "children (node s' m) = children (node s m)"
    "vfs_root s' = vfs_root s" "vfs_cwd s' = vfs_cwd s" "vfs_pwd s' = vfs_pwd s"
    "fs.more s' = fs.more s" "nodes s n \<noteq> None \<Longrightarrow> nodes s' m = None \<longleftrightarrow> nodes s m = None"
proof -
  obtain s1 v' where h: "heap_step s s1" and s': "s' = set_node n v' s1"
    and v': "v' = (node s n)\<lparr>data := data v', fsize := fsize v', fcap := fcap v'\<rparr>"
    and c: "content v' = txt"
    using assms unfolding file_step_def by blast
  have eqs: "nodes s1 = nodes s" "vfs_root s1 = vfs_root s" "vfs_cwd s1 = vfs_cwd s"
    "vfs_pwd s1 = vfs_pwd s" "fs.more s1 = fs.more s"
    using h by (rule heap_step_frame)+
  have nd: "node s1 a = node s a" for a by (simp add: node_def eqs)
  have same: "name v' = name (node s n)" "parent v' = parent (node s n)"
    "vtype v' = vtype (node s n)" "children v' = children (node s n)"
    by (subst v', simp)+
  show "content (node s' n) = txt" "m \<noteq> n \<Longrightarrow> node s' m = node s m"
    "name (node s' m) = name (node s m)" "parent (node s' m) = parent (node s m)"
    "vtype (node s' m) = vtype (node s m)" "children (node s' m) = children (node s m)"
    "vfs_root s' = vfs_root s" "vfs_cwd s' = vfs_cwd s" "vfs_pwd s' = vfs_pwd s"
    "fs.more s' = fs.more s" "nodes s n \<noteq> None \<Longrightarrow> nodes s' m = None \<longleftrightarrow> nodes s m = None"
    by (simp_all add: s' eqs nd c same)
qed

lemma file_stepI:
  assumes "heap_step s s1" and "s' = set_node n (node s n\<lparr>data := d, fsize := z, fcap := k\<rparr>) s1"
    and "content (node s n\<lparr>data := d, fsize := z, fcap := k\<rparr>) = txt"
    and "data_ok (node s n\<lparr>data := d, fsize := z, fcap := k\<rparr>)" and "k \<le> unat (used s1)"
  shows "file_step s n txt s'"
  unfolding file_step_def
  by (intro exI [of _ s1] exI [of _ "node s n\<lparr>data := d, fsize := z, fcap := k\<rparr>"])
     (use assms in auto)

text \<open>The allocation shared by the two growing branches.\<close>

lemma grown_block:
  assumes ok: "fs_ok s" and nc: "nc < 2 ^ 63" and k: "kmalloc (of_nat nc) s = (Some p, s1)"
  shows "heap_step s s1" and "nc \<le> unat (used s1)"
proof -
  have u: "unat (of_nat nc :: u64) = nc" using nc by (simp add: unat_of_nat)
  then have small: "unat (of_nat nc :: u64) < 2 ^ 63" using nc by simp
  note ks = kmalloc_heap_step [OF fs_okD(1) [OF ok] small k]
  show "heap_step s s1" by (rule ks(1))
  show "nc \<le> unat (used s1)" using ks(2) [of p] u up16_ge [of nc] by simp
qed

lemma used_bound: "fs_ok s \<Longrightarrow> unat (used s) \<le> 16777216"
  using fs_okD(1) [of s] by (simp add: heap_ok_def)

lemma file_node:
  assumes "fs_ok s" and "nodes s n = Some v"
  shows "data_ok v" "fcap v \<le> unat (used s)" "fcap v \<le> 16777216" "fsize v \<le> fcap v"
proof -
  show d: "data_ok v" "fcap v \<le> unat (used s)"
    using fs_okD(6) [OF assms] by (auto simp: node_ok_def)
  show "fcap v \<le> 16777216" using d(2) used_bound [OF assms(1)] by simp
  show "fsize v \<le> fcap v" using d(1) by (auto simp: data_ok_def split: option.splits)
qed

lemma vfs_write_file_cases:
  assumes ok: "fs_ok s" and n: "nodes s n = Some v" "vtype v = FS_TYPE_FILE"
    and len: "length dat < 2 ^ 61" and wr: "vfs_write_file (Some n) dat s = (r, s')"
  shows "r \<and> file_step s n dat s' \<or> \<not> r \<and> s' = s"
proof (cases "length dat + 1 > fcap v")
  case False
  note d = file_node [OF ok n(1)]
  obtain b where b: "data v = Some b" "length b \<le> fcap v"
    using False d(1) by (auto simp: data_ok_def split: option.splits)
  have eq: "r" "s' = set_node n (v\<lparr>data := Some (dat @ NUL # drop (Suc (length dat)) b), fsize := length dat\<rparr>) s"
    using wr n b False by (simp_all add: vfs_write_file_def Let_def)
  have "file_step s n dat s'"
    by (rule file_stepI [OF heap_step_refl [OF fs_okD(1) [OF ok]], where k = "fcap v"
          and z = "length dat" and d = "Some (dat @ NUL # drop (Suc (length dat)) b)"])
       (use eq n b d False in \<open>auto simp: content_def data_ok_def\<close>)
  with eq show ?thesis by simp
next
  case True
  note d = file_node [OF ok n(1)]
  define nc where "nc = write_cap (fcap v) (length dat)"
  have nc: "length dat < nc" "fcap v \<le> nc" and small: "nc < 2 ^ 63"
    using write_cap_bounds [of "length dat" "fcap v"] d(3) len by (auto simp: nc_def)
  obtain q s1 where q: "kmalloc (of_nat nc) s = (q, s1)" by (cases "kmalloc (of_nat nc) s")
  show ?thesis
  proof (cases q)
    case None
    then have "s1 = s" using kmalloc_None q by blast
    then show ?thesis using wr n True None q
      by (simp add: vfs_write_file_def Let_def flip: nc_def)
  next
    case (Some p)
    note g = grown_block [OF ok small q [unfolded Some]]
    have cv: "length (content v) \<le> nc" using length_content [OF d(1)] d(4) nc(2) by simp
    have eq: "r" "s' = set_node n (v\<lparr>data := Some (dat @ NUL # drop (Suc (length dat)) (content v)),
        fsize := length dat, fcap := nc\<rparr>) s1"
      using wr n True Some q by (simp_all add: vfs_write_file_def Let_def flip: nc_def)
    have "file_step s n dat s'"
      by (rule file_stepI [OF g(1), where k = nc and z = "length dat"
            and d = "Some (dat @ NUL # drop (Suc (length dat)) (content v))"])
         (use eq n g cv nc in \<open>auto simp: content_def data_ok_def\<close>)
    with eq show ?thesis by simp
  qed
qed

lemma vfs_append_file_cases:
  assumes ok: "fs_ok s" and n: "nodes s n = Some v" "vtype v = FS_TYPE_FILE"
    and len: "length dat < 2 ^ 61" and wr: "vfs_append_file (Some n) dat s = (r, s')"
  shows "r \<and> file_step s n (content v @ dat) s' \<or> \<not> r \<and> s' = s"
proof (cases "fsize v + length dat + 1 > fcap v")
  case False
  note d = file_node [OF ok n(1)]
  obtain b where b: "data v = Some b" "length b \<le> fcap v" "fsize v < length b"
    using False d(1) by (auto simp: data_ok_def split: option.splits)
  have eq: "r" "s' = set_node n (v\<lparr>data := Some (take (fsize v) b @ dat @ NUL # drop (Suc (fsize v + length dat)) b),
      fsize := fsize v + length dat\<rparr>) s"
    using wr n b False by (simp_all add: vfs_append_file_def Let_def)
  have "file_step s n (content v @ dat) s'"
    by (rule file_stepI [OF heap_step_refl [OF fs_okD(1) [OF ok]], where k = "fcap v"
          and z = "fsize v + length dat"
          and d = "Some (take (fsize v) b @ dat @ NUL # drop (Suc (fsize v + length dat)) b)"])
       (use eq n b d False in \<open>auto simp: content_def data_ok_def\<close>)
  with eq show ?thesis by simp
next
  case True
  note d = file_node [OF ok n(1)]
  define nc where "nc = append_cap (fcap v) (Suc (fsize v + length dat))"
  have nc: "fsize v + length dat < nc" "fcap v \<le> nc" and small: "nc < 2 ^ 63"
    using append_cap_bounds [of "Suc (fsize v + length dat)" "fcap v"] d(3,4) len
    by (auto simp: nc_def)
  obtain q s1 where q: "kmalloc (of_nat nc) s = (q, s1)" by (cases "kmalloc (of_nat nc) s")
  show ?thesis
  proof (cases q)
    case None
    then have "s1 = s" using kmalloc_None q by blast
    then show ?thesis using wr n True None q
      by (simp add: vfs_append_file_def Let_def flip: nc_def)
  next
    case (Some p)
    note g = grown_block [OF ok small q [unfolded Some]]
    have cv: "length (content v) = fsize v" using length_content [OF d(1)] .
    have eq: "r" "s' = set_node n (v\<lparr>data := Some (content v @ dat @ [NUL]),
        fsize := fsize v + length dat, fcap := nc\<rparr>) s1"
      using wr n True Some q by (simp_all add: vfs_append_file_def Let_def flip: nc_def)
    have "file_step s n (content v @ dat) s'"
      by (rule file_stepI [OF g(1), where k = nc and z = "fsize v + length dat"
            and d = "Some (content v @ dat @ [NUL])"])
         (use eq n g cv nc in \<open>auto simp: content_def data_ok_def\<close>)
    with eq show ?thesis by simp
  qed
qed

lemma vfs_truncate_step:
  assumes ok: "fs_ok s" and n: "nodes s n = Some v" "vtype v = FS_TYPE_FILE"
  shows "file_step s n [] (vfs_truncate (Some n) s)"
proof -
  have d: "data_ok v" "fcap v \<le> unat (used s)" using fs_okD(6) [OF ok n(1)] by (auto simp: node_ok_def)
  show ?thesis
    by (rule file_stepI [OF heap_step_refl [OF fs_okD(1) [OF ok]], where k = "fcap v"
          and z = 0 and d = "map_option (\<lambda>b. NUL # drop 1 b) (data v)"])
       (use n d in \<open>auto simp: vfs_truncate_def content_def data_ok_def split: option.splits\<close>)
qed

section \<open>Removing\<close>

lemma distinct_map_remove1: "distinct (map f xs) \<Longrightarrow> distinct (map f (remove1 x xs))"
  by (induction xs) (auto dest: subsetD [OF set_remove1_subset])

text \<open>What the removing operations change: children lists lose elements, nothing else.\<close>

definition shrunk :: "('z) fs_scheme \<Rightarrow> ('z) fs_scheme \<Rightarrow> bool" where
  "shrunk s s' \<longleftrightarrow>
     (\<exists>f. s' = s\<lparr>nodes := f\<rparr>) \<and>
     (\<forall>a. \<exists>cs. nodes s' a = map_option (\<lambda>v. v\<lparr>children := cs\<rparr>) (nodes s a) \<and>
             set cs \<subseteq> set (children (node s a)))"

lemma content_children [simp]: "content (v\<lparr>children := cs\<rparr>) = content v"
  by (simp add: content_def split: option.split)

lemma shrunk_refl: "shrunk s s"
proof -
  have "s = s\<lparr>nodes := nodes s\<rparr>" by simp
  moreover have "\<exists>cs. nodes s a = map_option (\<lambda>v. v\<lparr>children := cs\<rparr>) (nodes s a) \<and>
      set cs \<subseteq> set (children (node s a))" for a
    by (intro exI [of _ "children (node s a)"]) (cases "nodes s a"; simp)
  ultimately show ?thesis unfolding shrunk_def by blast
qed

lemma shrunk_trans:
  assumes st: "shrunk s t" and tu: "shrunk t u"
  shows "shrunk s u"
proof -
  have "\<exists>f. u = s\<lparr>nodes := f\<rparr>" using st tu by (auto simp: shrunk_def)
  moreover have "\<exists>cs. nodes u a = map_option (\<lambda>v. v\<lparr>children := cs\<rparr>) (nodes s a) \<and>
      set cs \<subseteq> set (children (node s a))" for a
  proof -
    obtain cs where cs: "nodes t a = map_option (\<lambda>v. v\<lparr>children := cs\<rparr>) (nodes s a)"
      "set cs \<subseteq> set (children (node s a))" using st unfolding shrunk_def by blast
    obtain ds where ds: "nodes u a = map_option (\<lambda>v. v\<lparr>children := ds\<rparr>) (nodes t a)"
      "set ds \<subseteq> set (children (node t a))" using tu unfolding shrunk_def by blast
    have "nodes u a = map_option (\<lambda>v. v\<lparr>children := ds\<rparr>) (nodes s a)"
      using cs ds by (cases "nodes s a") auto
    moreover have "set ds \<subseteq> set (children (node s a)) \<or> nodes s a = None"
      using cs ds by (cases "nodes s a") auto
    ultimately show ?thesis by (cases "nodes s a = None") auto
  qed
  ultimately show ?thesis unfolding shrunk_def by blast
qed

lemma shrunk_frame:
  assumes "shrunk s s'"
  shows "vfs_root s' = vfs_root s" "vfs_cwd s' = vfs_cwd s" "vfs_pwd s' = vfs_pwd s"
    "used s' = used s" "fs.more s' = fs.more s" "nodes s' a = None \<longleftrightarrow> nodes s a = None"
    "name (node s' a) = name (node s a)" "parent (node s' a) = parent (node s a)"
    "vtype (node s' a) = vtype (node s a)" "content (node s' a) = content (node s a)"
    "set (children (node s' a)) \<subseteq> set (children (node s a))"
proof -
  obtain f where "s' = s\<lparr>nodes := f\<rparr>" using assms unfolding shrunk_def by blast
  then show "vfs_root s' = vfs_root s" "vfs_cwd s' = vfs_cwd s" "vfs_pwd s' = vfs_pwd s"
    "used s' = used s" "fs.more s' = fs.more s" by simp_all
  obtain cs where cs: "nodes s' a = map_option (\<lambda>v. v\<lparr>children := cs\<rparr>) (nodes s a)"
    "set cs \<subseteq> set (children (node s a))" using assms unfolding shrunk_def by blast
  show "nodes s' a = None \<longleftrightarrow> nodes s a = None" using cs(1) by simp
  have "\<exists>ds. node s' a = node s a\<lparr>children := ds\<rparr> \<and> set ds \<subseteq> set (children (node s a))"
  proof (cases "nodes s a")
    case None
    then show ?thesis using cs(1)
      by (intro exI [of _ "[]"]) (simp add: node_def blank_vnode_def)
  next
    case (Some v)
    then show ?thesis using cs by (intro exI [of _ cs]) simp
  qed
  then obtain ds where "node s' a = node s a\<lparr>children := ds\<rparr>" "set ds \<subseteq> set (children (node s a))"
    by blast
  then show "name (node s' a) = name (node s a)" "parent (node s' a) = parent (node s a)"
    "vtype (node s' a) = vtype (node s a)" "content (node s' a) = content (node s a)"
    "set (children (node s' a)) \<subseteq> set (children (node s a))"
    by simp_all
qed

lemma vfs_unlink_node_eq:
  assumes ok: "fs_ok s" and n: "nodes s n = Some v" "n \<noteq> vfs_root s" and p: "parent v = Some p"
  shows "vfs_unlink_node (Some n) s =
    (if n \<in> set (children (node s p))
     then (True, set_node p (node s p\<lparr>children := remove1 n (children (node s p))\<rparr>) s)
     else (False, s))"
  using assms by (simp add: vfs_unlink_node_def Let_def)

lemma fs_ok_unlink_set:
  assumes ok: "fs_ok s" and p: "nodes s p = Some w"
  shows "fs_ok (set_node p (w\<lparr>children := remove1 n (children w)\<rparr>) s)"
    and "shrunk s (set_node p (w\<lparr>children := remove1 n (children w)\<rparr>) s)"
proof -
  have nw: "node_ok s p w" using ok p by (rule fs_okD(6))
  have sub: "set (remove1 n (children w)) \<subseteq> set (children w)" by (rule set_remove1_subset)
  show "fs_ok (set_node p (w\<lparr>children := remove1 n (children w)\<rparr>) s)"
  proof (rule fs_ok_update [OF ok p])
    let ?w = "w\<lparr>children := remove1 n (children w)\<rparr>"
    have "data_ok ?w = data_ok w" by (simp add: data_ok_def split: option.split)
    moreover have "length (remove1 n (children w)) \<le> length (children w)"
      by (simp add: length_remove1)
    ultimately show "node_ok s p ?w"
      using nw sub distinct_map_remove1 [of "\<lambda>c. name (node s c)" "children w" n]
      by (auto simp: node_ok_def)
  qed simp_all
  have "\<exists>cs. nodes (set_node p (w\<lparr>children := remove1 n (children w)\<rparr>) s) a =
      map_option (\<lambda>v. v\<lparr>children := cs\<rparr>) (nodes s a) \<and> set cs \<subseteq> set (children (node s a))" for a
  proof (cases "a = p")
    case True
    then show ?thesis using p sub by auto
  next
    case False
    then show ?thesis by (intro exI [of _ "children (node s a)"]) (cases "nodes s a"; simp)
  qed
  then show "shrunk s (set_node p (w\<lparr>children := remove1 n (children w)\<rparr>) s)"
    unfolding shrunk_def set_node_def by auto
qed

text \<open>The number of links from directories to children; a removal takes one away.\<close>

definition links :: "('z) fs_scheme \<Rightarrow> nat" where
  "links s = (\<Sum>a \<in> UNIV. length (children (node s a)))"

lemma links_unlink:
  assumes "n \<in> set (children (node s p))"
  shows "links (set_node p (node s p\<lparr>children := remove1 n (children (node s p))\<rparr>) s) < links s"
proof -
  let ?t = "set_node p (node s p\<lparr>children := remove1 n (children (node s p))\<rparr>) s"
  have rest: "(\<Sum>a \<in> UNIV - {p}. length (children (node ?t a))) = (\<Sum>a \<in> UNIV - {p}. length (children (node s a)))"
    by (rule sum.cong) auto
  have "length (children (node ?t p)) < length (children (node s p))"
    using assms length_pos_if_in_set [OF assms] by (simp add: length_remove1)
  then show ?thesis
    using rest unfolding links_def
    by (simp only: sum.remove [OF finite_class.finite_UNIV UNIV_I, of _ p])
qed

lemma lex_measure: "(l1 :: nat) < l \<Longrightarrow> a < M \<Longrightarrow> l1 * M + a < l * M + b"
proof -
  assume l: "l1 < l" and a: "a < M"
  have "l1 * M + a < Suc l1 * M" using a by simp
  also have "\<dots> \<le> l * M" using l by (intro mult_le_mono1) simp
  finally show ?thesis by simp
qed

text \<open>The recursive removal returns.  It succeeds exactly on a node that is linked from its
  parent, and then takes it out of the parent's list; nothing below its address but the parent
  is touched.\<close>

definition removed :: "u64 \<Rightarrow> u64 \<Rightarrow> ('z) fs_scheme \<Rightarrow> ('z) fs_scheme \<Rightarrow> bool" where
  "removed n p s s' \<longleftrightarrow> fs_ok s' \<and> shrunk s s' \<and>
     children (node s' p) = remove1 n (children (node s p)) \<and>
     children (node s' n) = [] \<and>
     (\<forall>a. unat a < unat n \<longrightarrow> a \<noteq> p \<longrightarrow> node s' a = node s a)"

lemma linked_child:
  assumes ok: "fs_ok s" and n: "nodes s n = Some v" and c: "c \<in> set (children v)"
  obtains w where "nodes s c = Some w" "parent w = Some n" "c \<noteq> vfs_root s" "unat n < unat c"
proof -
  obtain w where w: "nodes s c = Some w" "parent w = Some n" and r: "c \<noteq> vfs_root s"
    using fs_okD(6) [OF ok n] c by (auto simp: node_ok_def)
  have "unat n < unat c" using parent_valid [OF ok w(1)] w(2) r by (metis option.inject)
  then show ?thesis using that w r by blast
qed

lemma rm_recursive_node_total:
  assumes "fs_ok s" and "nodes s n = Some v" and "n \<noteq> vfs_root s" and "parent v = Some p"
  shows "\<exists>s'. vfs_rm_recursive_node n s = Some (n \<in> set (children (node s p)), s') \<and>
           removed n p s s' \<and> (n \<in> set (children (node s p)) \<longrightarrow> links s' < links s)"
  using assms
proof (induction k \<equiv> "links s * 2 ^ 64 + (2 ^ 64 - 1 - unat n)" arbitrary: s n v p rule: less_induct)
  case less
  note ok = less.prems(1) and n = less.prems(2) and nr = less.prems(3) and p = less.prems(4)
  have nlt: "unat n < 2 ^ 64" using unsigned_less [of n] by simp
  obtain w where w: "nodes s p = Some w" "unat p < unat n"
    using parent_valid [OF ok n] nr p by (metis option.inject)
  show ?case
  proof (cases "children v = []")
    case True
    have un: "vfs_rm_recursive_node n s = Some (vfs_unlink_node (Some n) s)"
      using n nr True by (simp add: vfs_rm_recursive_node.simps)
    show ?thesis
    proof (cases "n \<in> set (children (node s p))")
      case linked: True
      let ?t = "set_node p (w\<lparr>children := remove1 n (children w)\<rparr>) s"
      have "removed n p s ?t"
        using fs_ok_unlink_set [OF ok w(1)] n w True by (auto simp: removed_def)
      moreover have "links ?t < links s" using links_unlink [OF linked] w by simp
      ultimately show ?thesis using un vfs_unlink_node_eq [OF ok n nr p] linked w by auto
    next
      case unlinked: False
      then have "removed n p s s"
        using ok n True shrunk_refl by (auto simp: removed_def remove1_idem)
      then show ?thesis using un vfs_unlink_node_eq [OF ok n nr p] unlinked by auto
    qed
  next
    case False
    define c where "c = last (children v)"
    have cin: "c \<in> set (children v)" using False by (simp add: c_def)
    obtain x where x: "nodes s c = Some x" "parent x = Some n" "c \<noteq> vfs_root s" "unat n < unat c"
      using linked_child [OF ok n cin] .
    have clt: "unat c < 2 ^ 64" using unsigned_less [of c] by simp
    have "links s * 2 ^ 64 + (2 ^ 64 - 1 - unat c) < links s * 2 ^ 64 + (2 ^ 64 - 1 - unat n)"
      using x(4) clt by linarith
    from less.hyps [OF this ok x(1) x(3) x(2)] obtain s1 where
      s1: "vfs_rm_recursive_node c s = Some (True, s1)" "removed c n s s1" "links s1 < links s"
      using n cin by auto
    have ok1: "fs_ok s1" and sh: "shrunk s s1" and low: "\<And>a. unat a < unat c \<Longrightarrow> a \<noteq> n \<Longrightarrow> node s1 a = node s a"
      using s1(2) by (auto simp: removed_def)
    note fr = shrunk_frame [OF sh]
    obtain v1 where v1: "nodes s1 n = Some v1" using fr(6) [of n] n by auto
    have p1: "parent v1 = Some p" using fr(8) [of n] v1 n p by simp
    have np: "node s1 p = node s p" using low [of p] w(2) x(4) by auto
    have "links s1 * 2 ^ 64 + (2 ^ 64 - 1 - unat n) < links s * 2 ^ 64 + (2 ^ 64 - 1 - unat n)"
      by (rule lex_measure [OF s1(3)]) simp
    from less.hyps [OF this ok1 v1 _ p1] obtain s2 where
      s2: "vfs_rm_recursive_node n s1 = Some (n \<in> set (children (node s p)), s2)"
        "removed n p s1 s2" "n \<in> set (children (node s p)) \<longrightarrow> links s2 < links s1"
      using nr fr(1) np by auto
    have "vfs_rm_recursive_node n s = Some (n \<in> set (children (node s p)), s2)"
      using n nr False s1(1) s2(1)
      by (subst vfs_rm_recursive_node.simps) (simp add: c_def [symmetric])
    moreover have "removed n p s s2"
    proof -
      have r2: "fs_ok s2" "shrunk s1 s2" "children (node s2 p) = remove1 n (children (node s1 p))"
        "children (node s2 n) = []" "\<And>a. unat a < unat n \<Longrightarrow> a \<noteq> p \<Longrightarrow> node s2 a = node s1 a"
        using s2(2) by (auto simp: removed_def)
      have "node s2 a = node s a" if "unat a < unat n" "a \<noteq> p" for a
        using r2(5) [OF that] low [of a] that(1) x(4) by auto
      then show ?thesis
        using r2(1,3,4) shrunk_trans [OF sh r2(2)] np by (simp add: removed_def)
    qed
    ultimately show ?thesis using s1(3) s2(3) by auto
  qed
qed

end
