(* ===== verification/Vfs_Path.thy ===== *)
theory Vfs_Path
  imports Vfs_Inv
begin

text \<open>
  Paths.  A path that is spelled from plain components (\<open>/c1/c2/...\<close>) resolves by walking the
  children lists; the lemmas relate \<open>vfs_resolve\<close> and \<open>vfs_resolve_parent\<close> to that walk, and say
  which resolutions each kind of change to the store keeps.
\<close>

section \<open>Plain components and the walk\<close>

definition plain :: "string \<Rightarrow> bool" where
  "plain nm \<longleftrightarrow> nm \<noteq> [] \<and> CHR ''/'' \<notin> set nm \<and> length nm < 64 \<and> NUL \<notin> set nm \<and>
     nm \<noteq> ''.'' \<and> nm \<noteq> ''..'' \<and> nm \<noteq> ''~''"

definition path_of :: "string list \<Rightarrow> string" where
  "path_of nms = concat (map (\<lambda>nm. CHR ''/'' # nm) nms)"

fun walk :: "('z) fs_scheme \<Rightarrow> u64 \<Rightarrow> string list \<Rightarrow> u64 option" where
  "walk s cur [] = Some cur"
| "walk s cur (nm # nms) =
     (case child_of s (Some cur) nm of None \<Rightarrow> None | Some c \<Rightarrow> walk s c nms)"

lemma path_of_simps [simp]:
  "path_of [] = []" "path_of (nm # nms) = CHR ''/'' # nm @ path_of nms"
  "path_of (xs @ ys) = path_of xs @ path_of ys"
  by (simp_all add: path_of_def)

lemma path_of_head: "path_of nms = [] \<or> (\<exists>r. path_of nms = CHR ''/'' # r)"
  by (cases nms) auto

lemma path_of_eq_Nil [simp]: "path_of nms = [] \<longleftrightarrow> nms = []"
  by (cases nms) auto

lemma plain_scan:
  assumes "CHR ''/'' \<notin> set nm" and "t = [] \<or> (\<exists>r. t = CHR ''/'' # r)"
  shows "takeWhile (\<lambda>c. c \<noteq> CHR ''/'') (nm @ t) = nm" "dropWhile (\<lambda>c. c \<noteq> CHR ''/'') (nm @ t) = t"
  using assms by (induction nm) auto

lemma plain_step:
  assumes "plain nm"
  shows "skip_slashes (CHR ''/'' # nm @ path_of nms) = nm @ path_of nms"
    and "path_name (nm @ path_of nms) = nm" and "path_rest (nm @ path_of nms) = path_of nms"
proof -
  have s: "CHR ''/'' \<notin> set nm" and ne: "nm \<noteq> []" and l: "length nm \<le> 63"
    using assms by (auto simp: plain_def)
  then obtain c r where c: "nm = c # r" "c \<noteq> CHR ''/''" by (cases nm) auto
  show "skip_slashes (CHR ''/'' # nm @ path_of nms) = nm @ path_of nms"
    using c by (simp add: skip_slashes_def)
  show "path_name (nm @ path_of nms) = nm" "path_rest (nm @ path_of nms) = path_of nms"
    using plain_scan [OF s path_of_head] l by (simp_all add: path_name_def path_rest_def VFS_NAME_MAX_def)
qed

lemma resolve_loop_Nil [simp]: "resolve_loop s cur [] = Some cur"
  by (simp add: resolve_loop.simps [of s cur "[]"] skip_slashes_def)

lemma resolve_loop_path_of:
  "\<forall>nm \<in> set nms. plain nm \<Longrightarrow> resolve_loop s cur (path_of nms) = walk s cur nms"
proof (induction nms arbitrary: cur)
  case Nil
  then show ?case by simp
next
  case (Cons nm nms)
  then have p: "plain nm" by simp
  note st = plain_step [OF p, of nms]
  have ne: "nm \<noteq> []" "nm \<noteq> ''.''" "nm \<noteq> ''..''" "nm \<noteq> ''~''"
    using p by (auto simp: plain_def)
  show ?case
    using ne Cons by (subst resolve_loop.simps) (simp add: st split: option.split)
qed

lemma vfs_resolve_path_of:
  "\<forall>nm \<in> set nms. plain nm \<Longrightarrow> nms \<noteq> [] \<Longrightarrow>
   vfs_resolve s (Some (path_of nms)) = walk s (vfs_root s) nms"
  using resolve_loop_path_of [of nms s "vfs_root s"] by (cases nms) (auto simp: vfs_resolve_def)

lemma walk_append: "walk s cur (xs @ ys) = (case walk s cur xs of None \<Rightarrow> None | Some c \<Rightarrow> walk s c ys)"
  by (induction xs arbitrary: cur) (auto split: option.split)

section \<open>The parent of a path\<close>

lemma strrchr_loop_last:
  assumes "NUL \<notin> set xs" and "CHR ''/'' \<notin> set ys" and "NUL \<notin> set ys"
  shows "strrchr_loop (xs @ CHR ''/'' # ys @ [NUL]) (uc CHR ''/'') i l = Some (Some (i + length xs))"
proof -
  have tail: "strrchr_loop (ys @ [NUL]) (uc CHR ''/'') i l = Some l" for i l
    using assms(2,3) by (induction ys arbitrary: i) auto
  show ?thesis
    using assms(1) by (induction xs arbitrary: i l) (auto simp: tail)
qed

lemma strrchr_no_slash:
  "CHR ''/'' \<notin> set ys \<Longrightarrow> NUL \<notin> set ys \<Longrightarrow> strrchr (ys @ [NUL]) (uc CHR ''/'') = Some None"
proof -
  assume a: "CHR ''/'' \<notin> set ys" "NUL \<notin> set ys"
  have "strrchr_loop (ys @ [NUL]) (uc CHR ''/'') i l = Some l" for i l
    using a by (induction ys arbitrary: i) auto
  then show ?thesis by (simp add: strrchr_def)
qed

lemma strrchr_last_slash:
  "NUL \<notin> set xs \<Longrightarrow> CHR ''/'' \<notin> set ys \<Longrightarrow> NUL \<notin> set ys \<Longrightarrow>
   strrchr (xs @ CHR ''/'' # ys @ [NUL]) (uc CHR ''/'') = Some (Some (length xs))"
  by (simp add: strrchr_def strrchr_loop_last)

lemma path_of_no_NUL: "\<forall>nm \<in> set nms. plain nm \<Longrightarrow> NUL \<notin> set (path_of nms)"
  by (induction nms) (auto simp: plain_def)

lemma vfs_resolve_parent_split:
  assumes "NUL \<notin> set d" and "CHR ''/'' \<notin> set nm" and "NUL \<notin> set nm"
    and "length d + length nm < 1023"
  shows "vfs_resolve_parent s (d @ CHR ''/'' # nm) =
    (let out = (if nm \<noteq> [] then nm else ''/'')
     in if length out < 64
        then Some (if d = [] then Some (vfs_root s) else vfs_resolve s (Some d), out) else None)"
proof -
  define p where "p = d @ CHR ''/'' # nm"
  have r: "strrchr (p @ [NUL]) (uc CHR ''/'') = Some (Some (length d))"
    using strrchr_last_slash [OF assms(1-3)] by (simp add: p_def)
  have p: "take 1023 p = p" "drop (Suc (length d)) p = nm" "take (length d) p = d"
    using assms(4) by (simp_all add: p_def)
  show ?thesis
    unfolding p_def [symmetric] by (simp add: vfs_resolve_parent_def p r VFS_NAME_MAX_def Let_def del: drop_eq_Nil)
qed

lemma vfs_resolve_parent_path_of:
  assumes pl: "\<forall>nm \<in> set nms. plain nm" "plain nm" and len: "length (path_of (nms @ [nm])) \<le> 1023"
  shows "vfs_resolve_parent s (path_of (nms @ [nm])) = Some (walk s (vfs_root s) nms, nm)"
proof -
  have n: "CHR ''/'' \<notin> set nm" "NUL \<notin> set nm" "nm \<noteq> []" "length nm < 64"
    using pl(2) by (auto simp: plain_def)
  have l: "length (path_of nms) + length nm < 1023" using len by simp
  show ?thesis
    using vfs_resolve_parent_split [OF path_of_no_NUL [OF pl(1)] n(1,2) l, of s] n
      vfs_resolve_path_of [OF pl(1)] by (cases "nms = []") (auto simp: Let_def)
qed

text \<open>A last component of 64 or more characters overruns the caller's name buffer.\<close>

lemma vfs_resolve_parent_overflow:
  assumes "NUL \<notin> set d" and "CHR ''/'' \<notin> set nm" and "NUL \<notin> set nm"
    and "64 \<le> length nm" and "length d + length nm < 1023"
  shows "vfs_resolve_parent s (d @ CHR ''/'' # nm) = None"
  using assms(4) by (subst vfs_resolve_parent_split [OF assms(1-3,5)]) (auto simp: Let_def)

section \<open>Resolution under changes of the store\<close>

text \<open>Changes of file data leave every resolution as it is.\<close>

definition same_tree :: "('z) fs_scheme \<Rightarrow> ('z) fs_scheme \<Rightarrow> bool" where
  "same_tree s s' \<longleftrightarrow> vfs_root s' = vfs_root s \<and> vfs_cwd s' = vfs_cwd s \<and>
     (\<forall>a. name (node s' a) = name (node s a) \<and> parent (node s' a) = parent (node s a) \<and>
          vtype (node s' a) = vtype (node s a) \<and> children (node s' a) = children (node s a))"

lemma child_of_same_tree: "same_tree s s' \<Longrightarrow> child_of s' d nm = child_of s d nm"
  by (simp add: same_tree_def child_of_def split: option.split)

lemma resolve_loop_same_tree: "same_tree s s' \<Longrightarrow> resolve_loop s' cur p = resolve_loop s cur p"
proof (induction s cur p rule: resolve_loop.induct)
  case (1 s cur p)
  have st: "vfs_root s' = vfs_root s" "parent (node s' cur) = parent (node s cur)"
    using "1.prems" by (simp_all add: same_tree_def)
  note eq = resolve_loop.simps [of s' cur p] resolve_loop.simps [of s cur p]
  show ?case
    unfolding eq
    using "1.IH" "1.prems" by (simp add: st child_of_same_tree [OF "1.prems"] split: option.split)
qed

lemma vfs_resolve_same_tree: "same_tree s s' \<Longrightarrow> vfs_resolve s' p = vfs_resolve s p"
  by (cases p)
     (auto simp: vfs_resolve_def same_tree_def resolve_loop_same_tree split: list.splits)

lemma file_step_same_tree: "file_step s n txt s' \<Longrightarrow> same_tree s s'"
  by (simp add: same_tree_def file_step_frame)

text \<open>New entries at the end of a directory keep every path that resolves.\<close>

definition extends :: "('z) fs_scheme \<Rightarrow> ('z) fs_scheme \<Rightarrow> bool" where
  "extends s s' \<longleftrightarrow> vfs_root s' = vfs_root s \<and> vfs_cwd s' = vfs_cwd s \<and>
     (\<forall>a v. nodes s a = Some v \<longrightarrow>
        (\<exists>v'. nodes s' a = Some v' \<and> vtype v' = vtype v \<and> name v' = name v \<and> parent v' = parent v \<and>
              prefix (children v) (children v') \<and> content v' = content v))"

lemma child_of_extends:
  assumes ok: "fs_ok s" and ex: "extends s s'" and d: "nodes s d = Some v"
    and c: "child_of s (Some d) nm = Some c"
  shows "child_of s' (Some d) nm = Some c"
proof -
  obtain v' where v': "nodes s' d = Some v'" "vtype v' = vtype v" "prefix (children v) (children v')"
    using ex d unfolding extends_def by blast
  have ty: "vtype v = FS_TYPE_DIR" and f: "find (\<lambda>c. name (node s c) = nm) (children v) = Some c"
    using c d by (auto simp: child_of_def split: if_splits)
  have "find (\<lambda>c. name (node s' c) = nm) (children v) = Some c"
  proof -
    have "name (node s' x) = name (node s x)" if "x \<in> set (children v)" for x
    proof -
      obtain w where "nodes s x = Some w" using linked_child [OF ok d \<open>x \<in> set (children v)\<close>] by metis
      then show ?thesis using ex unfolding extends_def by fastforce
    qed
    then show ?thesis using f by (metis (mono_tags, lifting) find_cong_set)
  qed
  then show ?thesis using v' ty by (simp add: child_of_def find_prefix)
qed

lemma resolve_loop_extends:
  "fs_ok s \<Longrightarrow> extends s s' \<Longrightarrow> nodes s cur \<noteq> None \<Longrightarrow> resolve_loop s cur p = Some n \<Longrightarrow>
   resolve_loop s' cur p = Some n"
proof (induction s cur p rule: resolve_loop.induct)
  case (1 s cur p)
  note ok = "1.prems"(1) and ex = "1.prems"(2)
  obtain v where v: "nodes s cur = Some v" using "1.prems"(3) by blast
  have root: "vfs_root s' = vfs_root s" using ex by (simp add: extends_def)
  have par: "parent (node s' cur) = parent (node s cur)"
    using ex v unfolding extends_def by fastforce
  obtain u m where u: "parent v = Some u" "nodes s u = Some m" using parent_valid [OF ok v] by metis
  have ch: "child_of s (Some d) nm = Some c \<Longrightarrow> nodes s d \<noteq> None \<Longrightarrow>
      child_of s' (Some d) nm = Some c \<and> nodes s c \<noteq> None" for d nm c
    using child_of_extends [OF ok ex] child_of_Some(5) [OF ok] by blast
  note eq = resolve_loop.simps [of s' cur p] resolve_loop.simps [of s cur p]
  show ?case
    using "1.prems"(4) "1.IH" ok ex v u ch fs_okD(2) [OF ok]
    unfolding eq by (auto simp: root par split: if_splits option.splits)
qed

lemma vfs_resolve_extends:
  assumes ok: "fs_ok s" and ex: "extends s s'" and r: "vfs_resolve s p = Some n"
  shows "vfs_resolve s' p = Some n"
proof -
  have rc: "vfs_root s' = vfs_root s" "vfs_cwd s' = vfs_cwd s" using ex by (auto simp: extends_def)
  show ?thesis
    using r resolve_loop_extends [OF ok ex] fs_okD(2,4) [OF ok]
    by (auto simp: vfs_resolve_def rc split: option.splits list.splits)
qed

text \<open>Addresses grow along a walk.\<close>

lemma child_of_greater:
  assumes "fs_ok s" and "nodes s d = Some v" and "child_of s (Some d) nm = Some c"
  shows "unat d < unat c" and "nodes s c \<noteq> None"
  using linked_child [OF assms(1,2) child_of_Some(1) [OF assms]] by auto

lemma walk_valid: "fs_ok s \<Longrightarrow> nodes s cur \<noteq> None \<Longrightarrow> walk s cur nms = Some p \<Longrightarrow>
   nodes s p \<noteq> None \<and> unat cur \<le> unat p"
proof (induction nms arbitrary: cur)
  case (Cons nm nms)
  obtain v where v: "nodes s cur = Some v" using Cons.prems by blast
  obtain c where c: "child_of s (Some cur) nm = Some c" "walk s c nms = Some p"
    using Cons.prems(3) by (auto split: option.splits)
  show ?case
    using Cons.IH [OF Cons.prems(1) _ c(2)] child_of_greater [OF Cons.prems(1) v c(1)] by auto
qed simp

text \<open>A walk to \<open>p\<close> only looks at directories below the address of \<open>p\<close>.\<close>

lemma walk_unchanged:
  assumes ok: "fs_ok s" and nm: "\<And>a. name (node s' a) = name (node s a)"
    and low: "\<And>a. unat a < unat p \<Longrightarrow> node s' a = node s a"
  shows "nodes s cur \<noteq> None \<Longrightarrow> walk s cur nms = Some p \<Longrightarrow> walk s' cur nms = Some p"
proof (induction nms arbitrary: cur)
  case (Cons x nms)
  obtain v where v: "nodes s cur = Some v" using Cons.prems by blast
  obtain c where c: "child_of s (Some cur) x = Some c" "walk s c nms = Some p"
    using Cons.prems(2) by (auto split: option.splits)
  note g = child_of_greater [OF ok v c(1)]
  have "unat c \<le> unat p" using walk_valid [OF ok g(2) c(2)] by simp
  then have "node s' cur = node s cur" using g(1) by (intro low) simp
  then have "child_of s' (Some cur) x = child_of s (Some cur) x" by (simp add: child_of_def nm)
  then show ?case using c Cons.IH [OF g(2) c(2)] by simp
qed simp

end
