(* ===== verification/Vfs_Laws.thy ===== *)
theory Vfs_Laws
  imports Vfs_Path
begin

text \<open>
  What the file system promises to its users: the invariant holds in every state that can be
  reached from the boot state, a created entry is found under its path, files behave like a map
  from paths to contents, removed entries are gone, and the name of the working directory leads
  back to it.
\<close>

section \<open>Creating\<close>

lemma extends_refl: "extends s s"
  by (auto simp: extends_def)

lemma extends_trans:
  assumes st: "extends s t" and tu: "extends t u"
  shows "extends s u"
proof -
  have "\<exists>w. nodes u a = Some w \<and> vtype w = vtype v \<and> name w = name v \<and> parent w = parent v \<and>
      prefix (children v) (children w) \<and> content w = content v" if v: "nodes s a = Some v" for a v
  proof -
    obtain v' where v': "nodes t a = Some v'" "vtype v' = vtype v" "name v' = name v"
      "parent v' = parent v" "prefix (children v) (children v')" "content v' = content v"
      using st v unfolding extends_def by blast
    obtain w where "nodes u a = Some w" "vtype w = vtype v'" "name w = name v'"
      "parent w = parent v'" "prefix (children v') (children w)" "content w = content v'"
      using tu v'(1) unfolding extends_def by blast
    then show ?thesis using v' prefix_order.trans by (intro exI [of _ w]) auto
  qed
  then show ?thesis using st tu by (simp add: extends_def)
qed

text \<open>The whole effect of a successful create call.\<close>

lemma add_entry_effect:
  assumes ok: "fs_ok s" and v: "nodes s p = Some v" "vtype v = FS_TYPE_DIR"
    and mn: "make_node t nm (Some p) s = (Some n, s1)" and ad: "add_child p n s1 = (True, s')"
  shows "nodes s n = None" and "extends s s'"
    and "children (node s' p) = children v @ [n]" and "n \<noteq> p"
    and "\<exists>w. nodes s' n = Some w \<and> vtype w = t \<and> name w = take 63 nm \<and> parent w = Some p \<and>
           children w = [] \<and> content w = []"
    and "\<And>a. a \<noteq> p \<Longrightarrow> a \<noteq> n \<Longrightarrow> node s' a = node s a"
    and "vtype (node s' p) = FS_TYPE_DIR"
proof -
  note mk = make_node_Some [OF ok v mn]
  obtain s0 where h: "heap_step s s0" and s1: "s1 = set_node n (blank_vnode t (take 63 nm) (Some p)) s0"
    using mk(3) by blast
  show fresh: "nodes s n = None" by (rule mk(2))
  then show np: "n \<noteq> p" using v by auto
  have e0: "nodes s0 = nodes s" "vfs_root s0 = vfs_root s" "vfs_cwd s0 = vfs_cwd s"
    using h by (rule heap_step_frame)+
  have v1: "nodes s1 p = Some v" using v np by (simp add: s1 e0)
  obtain s2 k where h2: "heap_step s1 s2"
    and s': "s' = set_node p (v\<lparr>children := children v @ [n], child_cap := k\<rparr>) s2"
    using add_child_cases [OF mk(1) v1 v(2) ad] by auto
  have e2: "nodes s2 = nodes s1" "vfs_root s2 = vfs_root s1" "vfs_cwd s2 = vfs_cwd s1"
    using h2 by (rule heap_step_frame)+
  have nodes': "nodes s' = (nodes s)(n \<mapsto> blank_vnode t (take 63 nm) (Some p),
      p \<mapsto> v\<lparr>children := children v @ [n], child_cap := k\<rparr>)"
    by (simp add: s' e2 s1 e0)
  show "children (node s' p) = children v @ [n]" "vtype (node s' p) = FS_TYPE_DIR"
    using v by (simp_all add: node_def nodes')
  show "\<exists>w. nodes s' n = Some w \<and> vtype w = t \<and> name w = take 63 nm \<and> parent w = Some p \<and>
      children w = [] \<and> content w = []"
    using np by (simp add: nodes' blank_vnode_def content_def)
  show "\<And>a. a \<noteq> p \<Longrightarrow> a \<noteq> n \<Longrightarrow> node s' a = node s a" by (simp add: node_def nodes')
  have "content (v\<lparr>children := children v @ [n], child_cap := k\<rparr>) = content v"
    by (simp add: content_def split: option.split)
  moreover have "vfs_root s' = vfs_root s" "vfs_cwd s' = vfs_cwd s" by (simp_all add: s' e2 s1 e0)
  ultimately show "extends s s'"
    using v fresh by (auto simp: extends_def nodes')
qed

lemma fs_ok_vfs_mkfile: "fs_ok s \<Longrightarrow> vfs_mkfile p s = Some (r, s') \<Longrightarrow> fs_ok s'"
  and fs_ok_vfs_mkdir: "fs_ok s \<Longrightarrow> vfs_mkdir p s = Some (r, s') \<Longrightarrow> fs_ok s'"
  by (auto simp: vfs_mkfile_def vfs_mkdir_def intro: fs_ok_mk_entry)

lemma mk_entry_effect:
  assumes ok: "fs_ok s" and mk: "mk_entry t path s = Some (True, s')"
  obtains p v nm n where "vfs_resolve_parent s path = Some (Some p, nm)" "nodes s p = Some v"
    "vtype v = FS_TYPE_DIR" "nm \<noteq> []" "child_of s (Some p) nm = None" "length nm < 64"
    "nodes s n = None" "extends s s'" "children (node s' p) = children v @ [n]"
    "\<exists>w. nodes s' n = Some w \<and> vtype w = t \<and> name w = nm \<and> parent w = Some p \<and>
       children w = [] \<and> content w = []"
    "vtype (node s' p) = FS_TYPE_DIR" "\<And>a. a \<noteq> p \<Longrightarrow> a \<noteq> n \<Longrightarrow> node s' a = node s a"
proof -
  obtain p v nm n s1 where *: "vfs_resolve_parent s path = Some (Some p, nm)" "nodes s p = Some v"
    "vtype v = FS_TYPE_DIR" "nm \<noteq> []" "child_of s (Some p) nm = None"
    "make_node t nm (Some p) s = (Some n, s1)" "add_child p n s1 = (True, s')"
    using mk_entry_cases [OF ok mk] by blast
  have l: "length nm < 64" using vfs_resolve_parent_valid(2) [OF ok *(1)] .
  note ae = add_entry_effect [OF ok *(2,3,6,7)]
  show ?thesis
    by (rule that [OF *(1-5) l ae(1-3) _ ae(7) ae(6)]) (use ae(5) l in auto)
qed

text \<open>A created entry is found under its name in its directory.\<close>

lemma child_of_created:
  assumes ok: "fs_ok s" and v: "nodes s p = Some v" "vtype v = FS_TYPE_DIR"
    and free: "child_of s (Some p) nm = None" and ex: "extends s s'"
    and ch: "children (node s' p) = children v @ [n]" and n: "name (node s' n) = nm"
    and ty: "vtype (node s' p) = FS_TYPE_DIR"
  shows "child_of s' (Some p) nm = Some n"
proof -
  have "name (node s' c) \<noteq> nm" if c: "c \<in> set (children v)" for c
  proof -
    obtain w where w: "nodes s c = Some w" using linked_child [OF ok v(1) c] by metis
    then have "name (node s' c) = name (node s c)" using ex unfolding extends_def by fastforce
    then show ?thesis using free v c by (simp add: child_of_None)
  qed
  then have "find (\<lambda>c. name (node s' c) = nm) (children v) = None" by (auto simp: find_None_iff)
  then have "find (\<lambda>c. name (node s' c) = nm) (children v @ [n]) = Some n"
    using n by (simp add: find_append)
  then show ?thesis by (simp add: child_of_def ch ty)
qed

section \<open>Files as a map from paths to contents\<close>

definition file_at :: "('z) fs_scheme \<Rightarrow> string \<Rightarrow> string option" where
  "file_at s path =
     (case vfs_resolve s (Some path) of None \<Rightarrow> None
      | Some n \<Rightarrow> if vtype (node s n) = FS_TYPE_FILE then Some (content (node s n)) else None)"

lemma file_at_file_step:
  assumes st: "file_step s n txt s'" and n: "vtype (node s n) = FS_TYPE_FILE"
  shows "file_at s' q = (if vfs_resolve s (Some q) = Some n then Some txt else file_at s q)"
proof -
  have "vfs_resolve s' (Some q) = vfs_resolve s (Some q)"
    using vfs_resolve_same_tree [OF file_step_same_tree [OF st]] .
  then show ?thesis
    using file_step_frame(1,2,5) [OF st] n by (auto simp: file_at_def split: option.split)
qed

section \<open>Removing\<close>

lemma fs_ok_unlink:
  assumes ok: "fs_ok s" and n: "nodes s n = Some v"
  shows "fs_ok (snd (vfs_unlink_node (Some n) s))" "shrunk s (snd (vfs_unlink_node (Some n) s))"
proof -
  obtain p m where p: "parent v = Some p" "nodes s p = Some m"
    using parent_valid [OF ok n] by metis
  have "fs_ok (snd (vfs_unlink_node (Some n) s)) \<and> shrunk s (snd (vfs_unlink_node (Some n) s))"
  proof (cases "n = vfs_root s")
    case True
    then show ?thesis using ok shrunk_refl by (simp add: vfs_unlink_node_def)
  next
    case False
    then show ?thesis
      using vfs_unlink_node_eq [OF ok n False p(1)] fs_ok_unlink_set [OF ok p(2)] ok p(2) shrunk_refl
      by auto
  qed
  then show "fs_ok (snd (vfs_unlink_node (Some n) s))" "shrunk s (snd (vfs_unlink_node (Some n) s))"
    by auto
qed

lemma fs_ok_vfs_rm:
  assumes "fs_ok s"
  shows "fs_ok (snd (vfs_rm path s))" "shrunk s (snd (vfs_rm path s))"
proof -
  note shrunk_refl = shrunk_refl [of s]
  have "fs_ok (snd (vfs_rm path s)) \<and> shrunk s (snd (vfs_rm path s))"
  proof (cases "vfs_resolve s (Some path)")
    case None
    then show ?thesis using assms shrunk_refl by (simp add: vfs_rm_def)
  next
    case (Some n)
    then obtain v where "nodes s n = Some v" using vfs_resolve_valid [OF assms] by blast
    then show ?thesis
      using Some assms shrunk_refl fs_ok_unlink [OF assms] by (simp add: vfs_rm_def)
  qed
  then show "fs_ok (snd (vfs_rm path s))" "shrunk s (snd (vfs_rm path s))" by auto
qed

lemma rm_recursive_cases:
  assumes ok: "fs_ok s"
  shows "(vfs_rm_recursive path s = Some (False, s) \<and>
            (vfs_resolve s (Some path) = None \<or> vfs_resolve s (Some path) = Some (vfs_root s)))
    \<or> (\<exists>n v p s'. vfs_resolve s (Some path) = Some n \<and> nodes s n = Some v \<and> n \<noteq> vfs_root s \<and>
         parent v = Some p \<and>
         vfs_rm_recursive path s = Some (n \<in> set (children (node s p)), s') \<and> removed n p s s')"
proof (cases "vfs_resolve s (Some path)")
  case None
  then show ?thesis by (simp add: vfs_rm_recursive_def)
next
  case (Some n)
  then obtain v where v: "nodes s n = Some v" using vfs_resolve_valid [OF ok] by blast
  show ?thesis
  proof (cases "n = vfs_root s")
    case True
    then show ?thesis using Some by (simp add: vfs_rm_recursive_def)
  next
    case False
    obtain p m where p: "parent v = Some p" "nodes s p = Some m" using parent_valid [OF ok v] by metis
    then show ?thesis
      using rm_recursive_node_total [OF ok v False p(1)] Some v False
      by (auto simp: vfs_rm_recursive_def)
  qed
qed

text \<open>Unlinking a found entry leaves nothing under its name.\<close>

lemma child_of_removed:
  assumes ok: "fs_ok s" and v: "nodes s p = Some v" and c: "child_of s (Some p) nm = Some n"
    and nm: "\<And>a. name (node s' a) = name (node s a)"
    and ch: "children (node s' p) = remove1 n (children v)"
  shows "child_of s' (Some p) nm = None"
proof -
  note co = child_of_Some [OF ok v c]
  have d: "distinct (map (\<lambda>c. name (node s c)) (children v))"
    using fs_okD(6) [OF ok v] by (simp add: node_ok_def)
  then have dc: "distinct (children v)" by (simp add: distinct_map)
  have "name (node s x) \<noteq> nm" if "x \<in> set (remove1 n (children v))" for x
  proof -
    have "x \<in> set (children v)" "x \<noteq> n" using that dc by auto
    then show ?thesis using d co(1,3) by (auto simp: distinct_map dest: inj_onD)
  qed
  then show ?thesis by (auto simp: child_of_def ch nm find_None_iff)
qed

lemma walk_snoc:
  "walk s r (nms @ [nm]) = Some n \<longleftrightarrow> (\<exists>p. walk s r nms = Some p \<and> child_of s (Some p) nm = Some n)"
  by (auto simp: walk_append split: option.splits)

lemma removed_path_gone:
  assumes ok: "fs_ok s" and pl: "\<forall>x \<in> set nms. plain x" "plain nm"
    and r: "vfs_resolve s (Some (path_of (nms @ [nm]))) = Some n"
    and par: "parent (node s n) = Some p"
    and sh: "shrunk s s'" and ch: "children (node s' p) = remove1 n (children (node s p))"
    and low: "\<And>a. unat a < unat n \<Longrightarrow> a \<noteq> p \<Longrightarrow> node s' a = node s a"
  shows "vfs_resolve s' (Some (path_of (nms @ [nm]))) = None"
proof -
  note fr = shrunk_frame [OF sh]
  have pls: "\<forall>x \<in> set (nms @ [nm]). plain x" using pl by auto
  have "walk s (vfs_root s) (nms @ [nm]) = Some n"
    using r vfs_resolve_path_of [OF pls, of s] by simp
  then obtain q where q: "walk s (vfs_root s) nms = Some q" "child_of s (Some q) nm = Some n"
    by (auto simp: walk_snoc)
  have vq: "nodes s q \<noteq> None" using walk_valid [OF ok fs_okD(2) [OF ok] q(1)] by simp
  then obtain v where v: "nodes s q = Some v" by blast
  have "parent (node s n) = Some q" using child_of_Some(5) [OF ok v q(2)] by auto
  then have pq: "p = q" using par by simp
  have lt: "unat q < unat n" using child_of_greater [OF ok v q(2)] by simp
  have "walk s' (vfs_root s) nms = Some q"
  proof (rule walk_unchanged [OF ok fr(7) _ fs_okD(2) [OF ok] q(1)])
    fix a :: u64
    assume "unat a < unat q"
    then show "node s' a = node s a" by (intro low) (use lt pq in auto)
  qed
  moreover have "child_of s' (Some q) nm = None"
    by (rule child_of_removed [OF ok v q(2) fr(7)]) (use ch pq v in simp)
  ultimately have "walk s' (vfs_root s') (nms @ [nm]) = None"
    by (simp add: walk_append fr(1))
  then show ?thesis using vfs_resolve_path_of [OF pls, of s'] by simp
qed

section \<open>The working directory\<close>

lemma fs_ok_chdir:
  assumes "fs_ok s" and "nodes s n = Some v" and "vtype v = FS_TYPE_DIR"
    and "vfs_update_pwd (s\<lparr>vfs_cwd := n\<rparr>) = Some s'"
  shows "fs_ok s'"
proof -
  have "\<exists>t. s' = s\<lparr>vfs_cwd := n, vfs_pwd := t\<rparr>"
    using assms(4) by (auto simp: vfs_update_pwd_def Let_def split: if_splits)
  then obtain t where s': "s' = s\<lparr>vfs_cwd := n, vfs_pwd := t\<rparr>" by blast
  have "node_ok s' a m = node_ok s a m" for a m
    by (simp add: s' node_ok_def node_def frontier_def)
  then show ?thesis
    using assms(1-3) by (simp add: s' fs_ok_def heap_ok_def)
qed

text \<open>A node is attached when it can be reached from the root along children lists by plain
  names.\<close>

inductive attached :: "('z) fs_scheme \<Rightarrow> u64 \<Rightarrow> string list \<Rightarrow> bool" for s where
  root: "attached s (vfs_root s) []"
| child: "attached s p nms \<Longrightarrow> c \<in> set (children (node s p)) \<Longrightarrow> plain (name (node s c)) \<Longrightarrow>
    attached s c (nms @ [name (node s c)])"

lemma attached_valid:
  assumes ok: "fs_ok s" and at: "attached s n nms"
  shows "nodes s n \<noteq> None"
  using at
proof (induction rule: attached.induct)
  case root
  show ?case using ok by (rule fs_okD(2))
next
  case (child p nms c)
  then obtain v where v: "nodes s p = Some v" by blast
  then have "c \<in> set (children v)" using child by simp
  then show ?case using linked_child [OF ok v] by auto
qed

lemma attached_walk:
  assumes ok: "fs_ok s" and at: "attached s n nms"
  shows "walk s (vfs_root s) nms = Some n \<and> (\<forall>x \<in> set nms. plain x)"
  using at
proof (induction rule: attached.induct)
  case (child p nms c)
  obtain v where v: "nodes s p = Some v" using attached_valid [OF ok child.hyps(1)] by blast
  have c: "c \<in> set (children v)" using child.hyps v by simp
  have nv: "node_ok s p v" using ok v by (rule fs_okD(6))
  then have d: "distinct (map (\<lambda>c. name (node s c)) (children v))" and "vtype v = FS_TYPE_DIR"
    using c by (auto simp: node_ok_def) (metis empty_iff empty_set ftype.exhaust)
  moreover have "find (\<lambda>x. name (node s x) = name (node s c)) (children v) = Some c"
    using d c by (rule find_distinct)
  ultimately have "child_of s (Some p) (name (node s c)) = Some c"
    using v by (simp add: child_of_def)
  then show ?case using child by (auto simp: walk_append)
qed simp

lemma attached_pwd_names:
  assumes ok: "fs_ok s" and at: "attached s n nms"
  shows "length nms < k \<Longrightarrow> pwd_names s k (Some n) = rev nms"
  using at
proof (induction arbitrary: k rule: attached.induct)
  case root
  then show ?case by (cases k) auto
next
  case (child p nms c)
  obtain k' where k: "k = Suc k'" using child.prems by (cases k) auto
  obtain v where v: "nodes s p = Some v" using attached_valid [OF ok child.hyps(1)] by blast
  then have c: "c \<in> set (children v)" using child.hyps by simp
  obtain w where w: "nodes s c = Some w" "parent w = Some p" "c \<noteq> vfs_root s"
    using linked_child [OF ok v c] by metis
  have "pwd_names s k' (Some p) = rev nms" using child by (simp add: k)
  then show ?case using w by (simp add: k)
qed

end
