(* ===== verification/Vfs_Boot.thy ===== *)
theory Vfs_Boot
  imports Vfs_Laws
begin

text \<open>
  The initial tree built by \<open>vfs_init\<close> satisfies the invariant of theory \<open>Vfs_Inv\<close>, on every heap that
  \<open>kheap_init\<close> can leave, also where the heap runs out while the tree is built.
\<close>

section \<open>Entries of the initial tree\<close>

text \<open>\<open>init_ok s r A B\<close>: the invariant holds, \<open>r\<close> is the root, the names used in the root are in
  \<open>A\<close> and those used in other directories in \<open>B\<close>.\<close>

definition names_in :: "('z) fs_scheme \<Rightarrow> u64 \<Rightarrow> string set" where
  "names_in s d = (\<lambda>c. name (node s c)) ` set (children (node s d))"

definition init_ok :: "('z) fs_scheme \<Rightarrow> u64 \<Rightarrow> string set \<Rightarrow> string set \<Rightarrow> bool" where
  "init_ok s r A B \<longleftrightarrow> fs_ok s \<and> vfs_root s = r \<and>
     (\<forall>a. nodes s a \<noteq> None \<longrightarrow> names_in s a \<subseteq> (if a = r then A else B))"

definition dir_or_null :: "('z) fs_scheme \<Rightarrow> u64 option \<Rightarrow> bool" where
  "dir_or_null s d \<longleftrightarrow> (case d of None \<Rightarrow> True | Some a \<Rightarrow> \<exists>v. nodes s a = Some v \<and> vtype v = FS_TYPE_DIR)"

lemma names_in_free: "nm \<notin> names_in s d \<longleftrightarrow> (\<forall>c \<in> set (children (node s d)). name (node s c) \<noteq> nm)"
  by (auto simp: names_in_def)

lemma simple_entry:
  assumes ok: "fs_ok s" and v: "nodes s p = Some v" "vtype v = FS_TYPE_DIR"
    and nm: "nm \<notin> names_in s p" "length nm < 64"
    and mn: "make_node t nm (Some p) s = (Some n, s1)" and ad: "add_child p n s1 = (b, s')"
  shows "fs_ok s'" "nodes s n = None" "extends s s'"
    "\<exists>w. nodes s' n = Some w \<and> vtype w = t \<and> parent w = Some p \<and> names_in s' n = {}"
    "nodes s a \<noteq> None \<Longrightarrow> names_in s' a \<subseteq> names_in s a \<union> (if a = p then {nm} else {})"
    "nodes s' a \<noteq> None \<Longrightarrow> nodes s a \<noteq> None \<or> a = n"
proof -
  note mk = make_node_Some [OF ok v mn]
  obtain s0 where h: "heap_step s s0" and s1: "s1 = set_node n (blank_vnode t nm (Some p)) s0"
    using mk(3) nm(2) by auto
  have e0: "nodes s0 = nodes s" "vfs_root s0 = vfs_root s" "vfs_cwd s0 = vfs_cwd s"
    using h by (rule heap_step_frame)+
  have fresh: "nodes s n = None" by (rule mk(2))
  then have np: "n \<noteq> p" using v by auto
  have nd1: "node s1 c = node s c" if "c \<noteq> n" for c using that by (simp add: s1 node_def e0)
  have kids: "c \<noteq> n \<and> nodes s c \<noteq> None" if k: "c \<in> set (children (node s d))" "nodes s d \<noteq> None" for c d
  proof -
    obtain u where u: "nodes s d = Some u" using k(2) by blast
    then have "c \<in> set (children u)" using k(1) by simp
    then obtain w where "nodes s c = Some w" using linked_child [OF ok u] by metis
    then show ?thesis using fresh by auto
  qed
  have v1: "nodes s1 p = Some v" using v np by (simp add: s1 e0)
  have nr: "n \<noteq> vfs_root s1" using fs_okD(2) [OF ok] fresh by (auto simp: s1 e0)
  have free: "\<forall>c \<in> set (children v). name (node s1 c) \<noteq> name (blank_vnode t nm (Some p))"
    using nm(1) v kids [of _ p] by (auto simp: names_in_free blank_vnode_def nd1)
  show "fs_ok s'"
    by (rule fs_ok_add_child [OF mk(1) v1 v(2) _ _ nr free ad]) (simp_all add: s1 blank_vnode_def)
  show "nodes s n = None" by (rule fresh)
  have ex: "extends s s1"
    using v fresh by (auto simp: extends_def s1 e0)
  obtain k s2 where st: "heap_step s1 s2" "s' = s2 \<and> s2 = s1 \<or>
      s' = set_node p (v\<lparr>children := children v @ [n], child_cap := k\<rparr>) s2"
    using add_child_cases [OF mk(1) v1 v(2) ad] heap_step_refl [OF fs_okD(1) [OF mk(1)]] by metis
  have e2: "nodes s2 = nodes s1" "vfs_root s2 = vfs_root s1" "vfs_cwd s2 = vfs_cwd s1"
    using st(1) by (rule heap_step_frame)+
  have n': "nodes s' = nodes s1 \<or> nodes s' = (nodes s1)(p \<mapsto> v\<lparr>children := children v @ [n], child_cap := k\<rparr>)"
    using st(2) e2 by auto
  have rc: "vfs_root s' = vfs_root s" "vfs_cwd s' = vfs_cwd s" using st(2) e2 by (auto simp: s1 e0)
  have cv: "content (v\<lparr>children := children v @ [n], child_cap := k\<rparr>) = content v"
    by (simp add: content_def split: option.split)
  show "extends s s'"
    using ex n' rc v1 v cv unfolding extends_def by (auto simp: s1 e0 fresh)
  have nm': "name (node s' c) = name (node s1 c)" for c using n' v1 by (auto simp: node_def)
  show "\<exists>w. nodes s' n = Some w \<and> vtype w = t \<and> parent w = Some p \<and> names_in s' n = {}"
    using n' np by (auto simp: s1 blank_vnode_def names_in_def)
  show "nodes s' a \<noteq> None \<Longrightarrow> nodes s a \<noteq> None \<or> a = n"
    using n' v by (auto simp: s1 e0 split: if_splits)
  show "names_in s' a \<subseteq> names_in s a \<union> (if a = p then {nm} else {})" if a: "nodes s a \<noteq> None"
  proof -
    have an: "a \<noteq> n" using a fresh by auto
    have "set (children (node s' a)) \<subseteq> set (children (node s a)) \<union> (if a = p then {n} else {})"
      using n' an v by (auto simp: node_def s1 e0)
    moreover have "name (node s' n) = nm" by (simp add: nm' s1 blank_vnode_def)
    moreover have "name (node s' c) = name (node s c)" if "c \<in> set (children (node s a))" for c
      using kids [OF that a] by (simp add: nm' nd1)
    ultimately show ?thesis by (auto simp: names_in_def split: if_splits)
  qed
qed

lemma init_ok_entry:
  assumes i: "init_ok s r A B" and v: "nodes s p = Some v" "vtype v = FS_TYPE_DIR"
    and nm: "if p = r then nm \<notin> A else nm \<notin> B" "length nm < 64"
    and mn: "make_node t nm (Some p) s = (Some n, s1)" and ad: "add_child p n s1 = (b, s')"
  shows "init_ok s' r (if p = r then insert nm A else A) (if p = r then B else insert nm B)"
    "extends s s'" "nodes s n = None" "n \<noteq> r" "\<exists>w. nodes s' n = Some w \<and> vtype w = t"
proof -
  have ok: "fs_ok s" and root: "vfs_root s = r"
    and sub: "\<And>a. nodes s a \<noteq> None \<Longrightarrow> names_in s a \<subseteq> (if a = r then A else B)"
    using i by (auto simp: init_ok_def)
  have "nm \<notin> names_in s p" using sub [of p] v nm(1) by (auto split: if_splits)
  note se = simple_entry [OF ok v this nm(2) mn ad]
  show "extends s s'" "nodes s n = None" "\<exists>w. nodes s' n = Some w \<and> vtype w = t"
    using se(2-4) by auto
  show "n \<noteq> r" using se(2) fs_okD(2) [OF ok] root by auto
  have "names_in s' a \<subseteq> (if a = r then (if p = r then insert nm A else A) else (if p = r then B else insert nm B))"
    if a: "nodes s' a \<noteq> None" for a
  proof (cases "a = n")
    case True
    then show ?thesis using se(4) by auto
  next
    case False
    then have "nodes s a \<noteq> None" using se(6) a by blast
    then show ?thesis using se(5) [of a] sub [of a] by (auto split: if_splits)
  qed
  moreover have "vfs_root s' = r" using se(3) root by (simp add: extends_def)
  ultimately show "init_ok s' r (if p = r then insert nm A else A) (if p = r then B else insert nm B)"
    using se(1) by (simp add: init_ok_def)
qed

lemma dir_or_null_extends: "extends s s' \<Longrightarrow> dir_or_null s d \<Longrightarrow> dir_or_null s' d"
proof (cases d)
  case (Some a)
  assume ex: "extends s s'" and dn: "dir_or_null s d"
  obtain v where v: "nodes s a = Some v" "vtype v = FS_TYPE_DIR"
    using dn Some by (auto simp: dir_or_null_def)
  obtain v' where "nodes s' a = Some v'" "vtype v' = vtype v" using ex v(1) unfolding extends_def by blast
  then show "dir_or_null s' d" using v Some by (simp add: dir_or_null_def)
qed (simp add: dir_or_null_def)

lemma init_ok_mono:
  assumes "init_ok s r A B" and "A \<subseteq> A'" and "B \<subseteq> B'"
  shows "init_ok s r A' B'"
proof -
  have "(if a = r then A else B) \<subseteq> (if a = r then A' else B')" for a using assms by simp
  then show ?thesis using assms(1) unfolding init_ok_def by (meson order_trans)
qed

lemma init_ok_mkdir_simple:
  assumes i: "init_ok s r A B" and d: "dir_or_null s d"
    and nm: "if d = Some r then nm \<notin> A else nm \<notin> B" "length nm < 64"
    and mk: "mkdir_simple d nm s = Some (x, s')"
  shows "init_ok s' r (if d = Some r then insert nm A else A) (if d = Some r then B else insert nm B) \<and>
    extends s s' \<and> dir_or_null s' x \<and> x \<noteq> Some r"
proof (cases "make_node FS_TYPE_DIR nm d s")
  case (Pair q s1)
  have ok: "fs_ok s" using i by (simp add: init_ok_def)
  show ?thesis
  proof (cases q)
    case None
    have "s1 = s" using make_node_None [OF ok] Pair None by blast
    then have "x = None" "s' = s" using mk Pair None by (auto simp: mkdir_simple_def)
    then show ?thesis
      using init_ok_mono [OF i, of "insert nm A" B] init_ok_mono [OF i, of A "insert nm B"] extends_refl [of s]
      by (auto simp: dir_or_null_def)
  next
    case (Some n)
    then obtain p where p: "d = Some p" using mk Pair by (cases d) (auto simp: mkdir_simple_def)
    then obtain v where v: "nodes s p = Some v" "vtype v = FS_TYPE_DIR" using d by (auto simp: dir_or_null_def)
    have xs: "x = Some n" "s' = snd (add_child p n s1)" using mk Pair Some p by (auto simp: mkdir_simple_def)
    obtain b where "add_child p n s1 = (b, s')" using xs by (cases "add_child p n s1") auto
    from init_ok_entry [OF i v _ nm(2) _ this] show ?thesis
      using Pair Some p nm(1) xs by (auto simp: dir_or_null_def)
  qed
qed

lemma init_ok_mkfile_simple:
  assumes i: "init_ok s r A B" and d: "dir_or_null s d" "d \<noteq> Some r"
    and nm: "nm \<notin> B" "length nm < 64" "length txt < 2 ^ 61"
    and mk: "mkfile_simple d nm txt s = Some (x, s')"
  shows "init_ok s' r A (insert nm B) \<and> (\<forall>e. dir_or_null s e \<longrightarrow> dir_or_null s' e)"
proof (cases "make_node FS_TYPE_FILE nm d s")
  case (Pair q s1)
  have ok: "fs_ok s" using i by (simp add: init_ok_def)
  show ?thesis
  proof (cases q)
    case None
    have "s1 = s" using make_node_None [OF ok] Pair None by blast
    then have "s' = s" using mk Pair None by (auto simp: mkfile_simple_def)
    then show ?thesis using init_ok_mono [OF i, of A "insert nm B"] by auto
  next
    case (Some n)
    then obtain p where p: "d = Some p" using mk Pair by (cases d) (auto simp: mkfile_simple_def)
    then obtain v where v: "nodes s p = Some v" "vtype v = FS_TYPE_DIR" using d by (auto simp: dir_or_null_def)
    obtain b s2 where ad: "add_child p n s1 = (b, s2)" by (cases "add_child p n s1")
    obtain c where wr: "vfs_write_file (Some n) txt s2 = (c, s')"
      using mk Pair Some p ad by (cases "vfs_write_file (Some n) txt s2") (auto simp: mkfile_simple_def)
    have mn: "make_node FS_TYPE_FILE nm (Some p) s = (Some n, s1)" using Pair Some p by simp
    have pr: "p \<noteq> r" using d p by simp
    have nB: "if p = r then nm \<notin> A else nm \<notin> B" using pr nm by simp
    from init_ok_entry [OF i v nB nm(2) mn ad]
    have i2: "init_ok s2 r A (insert nm B)" and ex: "extends s s2"
      and n: "\<exists>w. nodes s2 n = Some w \<and> vtype w = FS_TYPE_FILE" using pr by auto
    have ok2: "fs_ok s2" using i2 by (simp add: init_ok_def)
    obtain w where w: "nodes s2 n = Some w" "vtype w = FS_TYPE_FILE" using n by blast
    from vfs_write_file_cases [OF ok2 w nm(3) wr] show ?thesis
    proof (elim disjE conjE)
      assume st: "file_step s2 n txt s'"
      note fr = file_step_frame [OF st]
      have dom: "nodes s' a = None \<longleftrightarrow> nodes s2 a = None" for a using fr(11) [of a] w by simp
      have "init_ok s' r A (insert nm B)"
        using i2 fs_ok_file_step [OF ok2 _ st] w dom
        by (auto simp: init_ok_def fr(3,6,7) names_in_def)
      moreover have "dir_or_null s' e" if dn: "dir_or_null s2 e" for e
      proof (cases e)
        case (Some a)
        then obtain u where u: "nodes s2 a = Some u" "vtype u = FS_TYPE_DIR" using dn by (auto simp: dir_or_null_def)
        then obtain u' where u': "nodes s' a = Some u'" using dom [of a] by auto
        then have "vtype u' = FS_TYPE_DIR" using fr(5) [of a] u by simp
        then show ?thesis using u' Some by (simp add: dir_or_null_def)
      qed (simp add: dir_or_null_def)
      ultimately show ?thesis using dir_or_null_extends [OF ex] by blast
    qed (use i2 dir_or_null_extends [OF ex] in auto)
  qed
qed

section \<open>The boot state\<close>

lemma fs_ok_root_only:
  assumes h: "heap_ok s" and mk: "make_node FS_TYPE_DIR [] None s = (Some r, s1)"
    and none: "nodes s = Map.empty"
  shows "init_ok ((set_node r ((node s1 r)\<lparr>parent := Some r\<rparr>) s1)\<lparr>vfs_root := r, vfs_cwd := r\<rparr>) r {} {}"
proof -
  obtain s0 where z: "kzalloc (of_nat sizeof_vnode) s = (Some r, s0)"
    and s1: "s1 = set_node r (blank_vnode FS_TYPE_DIR [] None) s0"
    using mk by (auto simp: make_node_def split: prod.splits option.splits)
  have small: "unat (of_nat sizeof_vnode :: u64) < 2 ^ 63" by simp
  note k = kzalloc_heap_step [OF h small z]
  have r: "unat r + 128 = frontier s0" using k(2) [of r] by (simp add: frontier_used)
  have n0: "nodes s0 = Map.empty" using heap_step_frame(1) [OF k(1)] none by simp
  have h0: "heap_ok s0" using k(1) by (simp add: heap_step_def)
  define t where "t = (set_node r ((node s1 r)\<lparr>parent := Some r\<rparr>) s1)\<lparr>vfs_root := r, vfs_cwd := r\<rparr>"
  have nd: "nodes t = [r \<mapsto> blank_vnode FS_TYPE_DIR [] (Some r)]"
    by (simp add: t_def s1 n0 blank_vnode_def)
  have g: "vfs_root t = r" "vfs_cwd t = r" by (simp_all add: t_def)
  have u: "used t = used s0" "heap.total t = heap.total s0" by (simp_all add: t_def s1)
  have "heap_ok t" using h0 heap_ok_used_cong [OF u] by simp
  moreover have "node_ok t r (blank_vnode FS_TYPE_DIR [] (Some r))"
    using r by (simp add: node_ok_def nd g frontier_used u blank_vnode_def data_ok_def)
  ultimately have "fs_ok t" by (auto simp: fs_ok_def nd g blank_vnode_def split: if_splits)
  then have "init_ok t r {} {}"
    by (auto simp: init_ok_def g names_in_def node_def nd blank_vnode_def split: if_splits)
  then show ?thesis by (simp only: t_def)
qed

text \<open>One step of the initialisation, as a rule for the sequence of calls.\<close>

lemma run_mkdir:
  assumes "init_ok s r A B" and "(do { (x, t) \<leftarrow> mkdir_simple d nm s; f x t }) = Some u"
    and "dir_or_null s d" and "if d = Some r then nm \<notin> A else nm \<notin> B" and "length nm < 64"
  obtains x t where
    "init_ok t r (if d = Some r then insert nm A else A) (if d = Some r then B else insert nm B)"
    "f x t = Some u" "extends s t" "dir_or_null t x" "x \<noteq> Some r"
proof -
  obtain x t where mk: "mkdir_simple d nm s = Some (x, t)" and f: "f x t = Some u"
    using assms(2) by (auto split: bind_splits)
  then show ?thesis using init_ok_mkdir_simple [OF assms(1,3,4,5) mk] that by blast
qed

lemma run_mkfile:
  assumes "init_ok s r A B" and "(do { (x, t) \<leftarrow> mkfile_simple d nm txt s; f x t }) = Some u"
    and "dir_or_null s d" and "d \<noteq> Some r" and "nm \<notin> B" "length nm < 64" "length txt < 2 ^ 61"
  obtains x t where "init_ok t r A (insert nm B)" "f x t = Some u"
    "\<And>e. dir_or_null s e \<Longrightarrow> dir_or_null t e"
proof -
  obtain x t where mk: "mkfile_simple d nm txt s = Some (x, t)" and f: "f x t = Some u"
    using assms(2) by (auto split: bind_splits)
  then show ?thesis using init_ok_mkfile_simple [OF assms(1,3-7) mk] that by blast
qed

lemma text_lengths:
  "length motd_text < 2 ^ 61" "length os_release_text < 2 ^ 61" "length readme_text < 2 ^ 61"
  by (simp_all add: motd_text_def os_release_text_def readme_text_def)

lemma fs_ok_init_files:
  assumes i: "init_ok s r A {''user'', ''bin''}" and d: "dir_or_null s etc" "dir_or_null s root"
    and ne: "etc \<noteq> Some r" "root \<noteq> Some r"
    and run: "(do {
      (_, s) \<leftarrow> mkfile_simple etc ''motd'' motd_text s;
      (_, s) \<leftarrow> mkfile_simple etc ''hostname'' (''bojanos'' @ [LF]) s;
      (_, s) \<leftarrow> mkfile_simple etc ''os-release'' os_release_text s;
      (_, s) \<leftarrow> mkfile_simple root ''readme.txt'' readme_text s;
      home_dir \<leftarrow> root;
      vfs_update_pwd (s\<lparr>vfs_cwd := home_dir\<rparr>)
    }) = Some t"
  shows "fs_ok t"
  using run
proof (rule run_mkfile [OF i _ d(1) ne(1)], goal_cases)
  case c1: (4 x1 s1)
  note d1 = c1(3) [OF d(1)] c1(3) [OF d(2)]
  from c1(2) show ?case
  proof (rule run_mkfile [OF c1(1) _ d1(1) ne(1)], goal_cases)
    case c2: (4 x2 s2)
    note d2 = c2(3) [OF d1(1)] c2(3) [OF d1(2)]
    from c2(2) show ?case
    proof (rule run_mkfile [OF c2(1) _ d2(1) ne(1)], goal_cases)
      case c3: (4 x3 s3)
      note d3 = c3(3) [OF d2(2)]
      from c3(2) show ?case
      proof (rule run_mkfile [OF c3(1) _ d3 ne(2)], goal_cases)
        case c4: (4 x4 s4)
        obtain hd where hd: "root = Some hd" "vfs_update_pwd (s4\<lparr>vfs_cwd := hd\<rparr>) = Some t"
          using c4(2) by (auto split: bind_splits)
        have "dir_or_null s4 root" by (rule c4(3) [OF d3])
        then obtain v where "nodes s4 hd = Some v" "vtype v = FS_TYPE_DIR" using hd by (auto simp: dir_or_null_def)
        then show ?case using c4(1) hd(2) by (auto simp: init_ok_def intro: fs_ok_chdir)
      qed (use text_lengths in simp_all)
    qed (use text_lengths in simp_all)
  qed (use text_lengths in simp_all)
qed (use text_lengths in simp_all)

lemma fs_ok_init_subdirs:
  assumes i: "init_ok s r A {}" and d: "dir_or_null s etc" "dir_or_null s home" "dir_or_null s root"
      "dir_or_null s usr" and ne: "etc \<noteq> Some r" "home \<noteq> Some r" "root \<noteq> Some r" "usr \<noteq> Some r"
    and run: "(do {
      (_, s) \<leftarrow> mkdir_simple usr ''bin'' s;
      (_, s) \<leftarrow> mkdir_simple home ''user'' s;
      (_, s) \<leftarrow> mkfile_simple etc ''motd'' motd_text s;
      (_, s) \<leftarrow> mkfile_simple etc ''hostname'' (''bojanos'' @ [LF]) s;
      (_, s) \<leftarrow> mkfile_simple etc ''os-release'' os_release_text s;
      (_, s) \<leftarrow> mkfile_simple root ''readme.txt'' readme_text s;
      home_dir \<leftarrow> root;
      vfs_update_pwd (s\<lparr>vfs_cwd := home_dir\<rparr>)
    }) = Some t"
  shows "fs_ok t"
  using run
proof (rule run_mkdir [OF i _ d(4)], goal_cases)
  case (3 x1 s1)
  note e1 = dir_or_null_extends [OF 3(3)]
  have i1: "init_ok s1 r A {''bin''}" using 3(1) ne(4) by simp
  show ?case using 3(2)
  proof (rule run_mkdir [OF i1 _ e1 [OF d(2)]], goal_cases)
    case (3 x2 s2)
    note e2 = dir_or_null_extends [OF 3(3)]
    have i2: "init_ok s2 r A {''user'', ''bin''}" using 3(1) ne(2) by simp
    show ?case by (rule fs_ok_init_files [OF i2 e2 [OF e1 [OF d(1)]] e2 [OF e1 [OF d(3)]] ne(1,3) 3(2)])
  qed (use ne in simp_all)
qed (use ne in simp_all)

lemma fs_ok_vfs_init:
  assumes h: "heap_ok s" "nodes s = Map.empty" and i: "vfs_init s = Some t"
  shows "fs_ok t"
proof -
  obtain r s1 where mk: "make_node FS_TYPE_DIR [] None s = (Some r, s1)"
    using i by (auto simp: vfs_init_def split: prod.splits option.splits)
  define s2 where "s2 = (set_node r ((node s1 r)\<lparr>parent := Some r\<rparr>) s1)\<lparr>vfs_root := r, vfs_cwd := r\<rparr>"
  have i2: "init_ok s2 r {} {}" unfolding s2_def by (rule fs_ok_root_only [OF h(1) mk h(2)])
  have dr: "dir_or_null x (Some r)" if "init_ok x r A B" for x :: "('a) fs_scheme" and A B
    using that by (auto simp: init_ok_def fs_ok_def dir_or_null_def)
  note dx = dir_or_null_extends
  show ?thesis
    using i [unfolded vfs_init_def mk prod.case option.case Let_def s2_def [symmetric]]
  proof (rule run_mkdir [OF i2 _ dr [OF i2]], goal_cases)
    case bin: (3 _ s3)
    from bin(2) show ?case
    proof (rule run_mkdir [OF bin(1) _ dr [OF bin(1)]], goal_cases)
      case etc: (3 etc s4)
      from etc(2) show ?case
      proof (rule run_mkdir [OF etc(1) _ dr [OF etc(1)]], goal_cases)
        case home: (3 home s5)
        from home(2) show ?case
        proof (rule run_mkdir [OF home(1) _ dr [OF home(1)]], goal_cases)
          case root: (3 root s6)
          from root(2) show ?case
          proof (rule run_mkdir [OF root(1) _ dr [OF root(1)]], goal_cases)
            case tmp: (3 _ s7)
            from tmp(2) show ?case
            proof (rule run_mkdir [OF tmp(1) _ dr [OF tmp(1)]], goal_cases)
              case usr: (3 usr s8)
              have e: "dir_or_null s8 etc" "dir_or_null s8 home" "dir_or_null s8 root"
                by (rule dx [OF usr(3) dx [OF tmp(3) dx [OF root(3) dx [OF home(3) etc(4)]]]]
                      dx [OF usr(3) dx [OF tmp(3) dx [OF root(3) home(4)]]]
                      dx [OF usr(3) dx [OF tmp(3) root(4)]])+
              show ?case
                by (rule fs_ok_init_subdirs [OF usr(1) [simplified] e usr(4)
                      etc(5) home(5) root(5) usr(5) usr(2)])
            qed simp_all
          qed simp_all
        qed simp_all
      qed simp_all
    qed simp_all
  qed simp_all
qed

end
