(* ===== verification/Vfs_Steps.thy ===== *)
theory Vfs_Steps
  imports Vfs_Boot
begin

text \<open>
  The file system as a state machine: a step is one call of a state-changing operation of
  \<open>src/vfs.c\<close>, a \<open>chdir\<close> as the \<open>cd\<close> command performs it, or an allocation by another part of the
  kernel.  Every state that boot and any sequence of steps can reach satisfies the invariant, and
  what a step may do to the globals and to the type, name and parent of a vnode is stated once
  for all operations.
\<close>

section \<open>Steps\<close>

inductive fs_step :: "('z) fs_scheme \<Rightarrow> ('z) fs_scheme \<Rightarrow> bool" where
  mkfile: "vfs_mkfile p s = Some (r, s') \<Longrightarrow> fs_step s s'"
| mkdir: "vfs_mkdir p s = Some (r, s') \<Longrightarrow> fs_step s s'"
| rm: "vfs_rm p s = (r, s') \<Longrightarrow> fs_step s s'"
| rm_recursive: "vfs_rm_recursive p s = Some (r, s') \<Longrightarrow> fs_step s s'"
| write_file: "length d < 2 ^ 61 \<Longrightarrow> vfs_write_file (vfs_resolve s p) d s = (r, s') \<Longrightarrow> fs_step s s'"
| append_file: "length d < 2 ^ 61 \<Longrightarrow> vfs_append_file (vfs_resolve s p) d s = (r, s') \<Longrightarrow> fs_step s s'"
| truncate_file: "vfs_truncate (vfs_resolve s p) s = s' \<Longrightarrow> fs_step s s'"
| chdir: "vfs_resolve s p = Some n \<Longrightarrow> vtype (node s n) = FS_TYPE_DIR \<Longrightarrow>
    vfs_update_pwd (s\<lparr>vfs_cwd := n\<rparr>) = Some s' \<Longrightarrow> fs_step s s'"
| alloc: "request_ok n \<Longrightarrow> kmalloc n s = (p, s') \<Longrightarrow> fs_step s s'"

inductive_cases fs_stepE: "fs_step s s'"

text \<open>Boot: the heap is initialised for the detected memory, then the tree is built.\<close>

inductive fs_reachable :: "('z) fs_scheme \<Rightarrow> bool" where
  boot: "nodes s = Map.empty \<Longrightarrow> vfs_init (kheap_init mem s) = Some t \<Longrightarrow> fs_reachable t"
| step: "fs_reachable s \<Longrightarrow> fs_step s s' \<Longrightarrow> fs_reachable s'"

lemma heap_ok_kheap_init: "heap_ok (kheap_init mem h)"
proof -
  have b: "unat mem < 2 ^ 32" using unsigned_less [of mem] by simp
  then have c: "unat (ucast mem :: u64) = unat mem"
    by (simp add: unsigned_ucast_eq take_bit_nat_eq_self)
  have m: "unat ((ucast mem :: u64) * 1024) = unat mem * 1024"
    using b by (simp add: unat_word_ariths c)
  show ?thesis
    by (auto simp: heap_ok_def kheap_init_def Let_def HEAP_START_def HEAP_MAX_def word_less_nat_alt
        unat_sub_if' m)
qed

lemma nodes_kheap_init [simp]: "nodes (kheap_init mem s) = nodes s"
  by (simp add: kheap_init_def Let_def)

section \<open>The invariant\<close>

lemma fs_ok_write:
  assumes ok: "fs_ok s" and len: "length d < 2 ^ 61"
    and wr: "vfs_write_file (vfs_resolve s p) d s = (r, s')"
  shows "fs_ok s'"
proof (cases "vfs_resolve s p")
  case None
  then show ?thesis using ok wr by (simp add: vfs_write_file_def)
next
  case (Some n)
  then obtain v where v: "nodes s n = Some v" using vfs_resolve_valid [OF ok] by blast
  show ?thesis
  proof (cases "vtype v = FS_TYPE_FILE")
    case True
    from vfs_write_file_cases [OF ok v True len wr [unfolded Some]] show ?thesis
      using fs_ok_file_step [OF ok] v ok by auto
  qed (use ok wr Some v in \<open>simp add: vfs_write_file_def Let_def\<close>)
qed

lemma fs_ok_append:
  assumes ok: "fs_ok s" and len: "length d < 2 ^ 61"
    and wr: "vfs_append_file (vfs_resolve s p) d s = (r, s')"
  shows "fs_ok s'"
proof (cases "vfs_resolve s p")
  case None
  then show ?thesis using ok wr by (simp add: vfs_append_file_def)
next
  case (Some n)
  then obtain v where v: "nodes s n = Some v" using vfs_resolve_valid [OF ok] by blast
  show ?thesis
  proof (cases "vtype v = FS_TYPE_FILE")
    case True
    from vfs_append_file_cases [OF ok v True len wr [unfolded Some]] show ?thesis
      using fs_ok_file_step [OF ok] v ok by auto
  qed (use ok wr Some v in \<open>simp add: vfs_append_file_def Let_def\<close>)
qed

lemma fs_ok_truncate: "fs_ok s \<Longrightarrow> fs_ok (vfs_truncate (vfs_resolve s p) s)"
proof (cases "vfs_resolve s p")
  case (Some n)
  assume ok: "fs_ok s"
  obtain v where v: "nodes s n = Some v" using vfs_resolve_valid [OF ok Some] by blast
  show ?thesis
  proof (cases "vtype v = FS_TYPE_FILE")
    case True
    have "nodes s n \<noteq> None" using v by simp
    then show ?thesis using fs_ok_file_step [OF ok _ vfs_truncate_step [OF ok v True]] Some by simp
  qed (use ok Some v in \<open>simp add: vfs_truncate_def\<close>)
qed (simp add: vfs_truncate_def)

lemma fs_ok_rm_recursive:
  assumes ok: "fs_ok s" and rm: "vfs_rm_recursive p s = Some (r, s')"
  shows "fs_ok s'"
  using rm_recursive_cases [OF ok, of p] rm ok by (auto simp: removed_def)

lemma fs_ok_alloc: "fs_ok s \<Longrightarrow> request_ok n \<Longrightarrow> kmalloc n s = (p, s') \<Longrightarrow> fs_ok s'"
proof (cases p)
  case (Some q)
  assume ok: "fs_ok s" and n: "request_ok n" and k: "kmalloc n s = (p, s')"
  have "unat n < 2 ^ 63" using n by (simp add: request_ok_def)
  then have "heap_step s s'" using kmalloc_heap_step(1) [OF fs_okD(1) [OF ok]] k Some by metis
  then show ?thesis using fs_ok_heap_step ok by blast
qed (metis kmalloc_None)

lemmas fs_ok_operations = fs_ok_vfs_mkfile fs_ok_vfs_mkdir fs_ok_write fs_ok_append fs_ok_truncate
  fs_ok_rm_recursive fs_ok_alloc

lemma fs_ok_step:
  assumes "fs_step s s'" and ok: "fs_ok s"
  shows "fs_ok s'"
  using assms(1)
proof (cases rule: fs_step.cases)
  case (rm p r)
  then show ?thesis using fs_ok_vfs_rm(1) [OF ok, of p] by simp
next
  case (chdir p n)
  then obtain v where v: "nodes s n = Some v" using vfs_resolve_valid [OF ok] by blast
  then show ?thesis using fs_ok_chdir [OF ok v _ chdir(3)] chdir(2) by simp
qed (use ok in \<open>auto intro: fs_ok_operations\<close>)

lemma fs_ok_boot:
  assumes "nodes s = Map.empty" and "vfs_init (kheap_init mem s) = Some t"
  shows "fs_ok t"
  by (rule fs_ok_vfs_init [OF heap_ok_kheap_init _ assms(2)]) (use assms(1) in simp)

lemma fs_ok_reachable: "fs_reachable s \<Longrightarrow> fs_ok s"
  by (induction rule: fs_reachable.induct) (auto intro: fs_ok_boot fs_ok_step)

end
