(* ===== verification/Digits.thy ===== *)
theory Digits
  imports Cstring
begin

text \<open>
  Number rendering.  Every printer of the kernel fills a buffer with the digits from the least
  significant one (\<open>buf[i++] = '0' + v % 10; v /= 10\<close>) and then writes the buffer backwards.
  The digit loops are shared here; \<open>dec_digits\<close> and \<open>hex_digits\<close> are the buffers they leave.
\<close>

fun dec_loop :: "nat \<Rightarrow> string" where
  "dec_loop v = (if v = 0 then [] else to_char (uc CHR ''0'' + int (v mod 10)) # dec_loop (v div 10))"

declare dec_loop.simps [simp del]

definition dec_digits :: "nat \<Rightarrow> string" where
  "dec_digits v = (if v = 0 then [CHR ''0''] else dec_loop v)"

definition hex_table :: string where
  "hex_table = ''0123456789abcdef''"

fun hex_loop :: "nat \<Rightarrow> string" where
  "hex_loop v = (if v = 0 then [] else hex_table ! (v mod 16) # hex_loop (v div 16))"

declare hex_loop.simps [simp del]

definition hex_digits :: "nat \<Rightarrow> string" where
  "hex_digits v = (if v = 0 then [CHR ''0''] else hex_loop v)"

section \<open>Digits and values\<close>

definition digit_val :: "char \<Rightarrow> nat" where
  "digit_val c = nat (uc c - uc CHR ''0'')"

lemma uc_digit0 [simp]: "uc CHR ''0'' = 48"
  by (simp add: uc_def)

lemma uc_digit9 [simp]: "uc CHR ''9'' = 57"
  by (simp add: uc_def)

lemma uc_dec_char: "d < 10 \<Longrightarrow> uc (to_char (48 + int d)) = 48 + int d"
  by (rule uc_to_char) auto

lemma isdigit_dec_char: "d < 10 \<Longrightarrow> isdigit (uc (to_char (48 + int d)))"
  by (simp add: isdigit_def uc_dec_char)

lemma digit_val_dec_char: "d < 10 \<Longrightarrow> digit_val (to_char (48 + int d)) = d"
  by (simp add: digit_val_def uc_dec_char)

lemma dec_loop_isdigit: "c \<in> set (dec_loop v) \<Longrightarrow> isdigit (uc c)"
proof (induction v rule: dec_loop.induct)
  case (1 v)
  then show ?case
    by (auto simp: dec_loop.simps [of v] isdigit_dec_char split: if_splits)
qed

lemma dec_digits_isdigit: "c \<in> set (dec_digits v) \<Longrightarrow> isdigit (uc c)"
  by (auto simp: dec_digits_def isdigit_def dest: dec_loop_isdigit split: if_splits)

lemma dec_digits_nonempty [simp]: "dec_digits v \<noteq> []"
  by (simp add: dec_digits_def dec_loop.simps [of v])

lemma isdigit_NUL [simp]: "\<not> isdigit 0"
  by (simp add: isdigit_def)

lemma dec_digits_no_NUL [simp]: "NUL \<notin> set (dec_digits v)"
  using dec_digits_isdigit [of NUL v] by auto

lemma dec_loop_length_bound: "v < 10 ^ k \<Longrightarrow> length (dec_loop v) \<le> k"
proof (induction k arbitrary: v)
  case 0
  then show ?case by (simp add: dec_loop.simps)
next
  case (Suc k)
  then have "v div 10 < 10 ^ k" by (simp add: less_mult_imp_div_less mult.commute)
  with Suc.IH show ?case by (simp add: dec_loop.simps [of v])
qed

text \<open>A 64-bit value has at most twenty digits, so the 24-byte buffers of the printers hold them.\<close>

lemma dec_digits_length: "v < 2 ^ 64 \<Longrightarrow> length (dec_digits v) \<le> 20"
  using dec_loop_length_bound [of v 20] by (simp add: dec_digits_def)

section \<open>Reading a rendered number back\<close>

lemma atoi_digits_dec:
  assumes "v \<le> 2147483647" and "\<not> isdigit (uc c)"
  shows "atoi_digits (rev (dec_loop v) @ c # r) 0 = Some (int v)"
proof -
  have gen: "atoi_digits (rev (dec_loop v) @ t) 0 = atoi_digits t (int v)"
    if "v \<le> 2147483647" for v t
    using that
  proof (induction v arbitrary: t rule: dec_loop.induct)
    case (1 v)
    show ?case
    proof (cases "v = 0")
      case True
      then show ?thesis by (simp add: dec_loop.simps)
    next
      case False
      let ?c = "to_char (48 + int (v mod 10))"
      have "atoi_digits (rev (dec_loop v) @ t) 0 = atoi_digits (rev (dec_loop (v div 10)) @ ?c # t) 0"
        using False by (subst dec_loop.simps) simp
      also have "\<dots> = atoi_digits (?c # t) (int (v div 10))"
        using 1 False by simp
      also have "\<dots> = atoi_digits t (int v)"
      proof -
        have "uc ?c = 48 + int (v mod 10)" by (rule uc_dec_char) simp
        moreover have "v div 10 * 10 + v mod 10 = v" by simp
        ultimately have "int (v div 10) * 10 + (uc ?c - uc CHR ''0'') = int v"
          by (metis add_diff_cancel_left' of_nat_add of_nat_mult of_nat_numeral uc_digit0)
        moreover have "isdigit (uc ?c)" by (simp add: isdigit_dec_char)
        moreover have "as_int (int v) = Some (int v)"
          using "1.prems" by (simp add: as_int_def int_ok_def)
        ultimately show ?thesis by simp
      qed
      finally show ?thesis .
    qed
  qed
  have "atoi_digits (c # r) (int v) = Some (int v)" using assms(2) by simp
  then show ?thesis using gen [OF assms(1)] by simp
qed

lemma atoi_digits_dec_digits:
  assumes "v \<le> 2147483647" and "\<not> isdigit (uc c)"
  shows "atoi_digits (rev (dec_digits v) @ c # r) 0 = Some (int v)"
proof (cases "v = 0")
  case True
  have "atoi_digits (CHR ''0'' # c # r) 0 = Some 0"
  proof -
    have "isdigit 48" by (simp add: isdigit_def)
    then show ?thesis using assms(2) by (simp add: as_int_def int_ok_def)
  qed
  then show ?thesis using True by (simp add: dec_digits_def)
next
  case False
  then show ?thesis using atoi_digits_dec [OF assms] by (simp add: dec_digits_def)
qed

lemma atoi_rendered:
  assumes "v \<le> 2147483647"
  shows "atoi (rev (dec_digits v) @ NUL # r) = Some (int v)"
    and "atoi (CHR ''-'' # rev (dec_digits v) @ NUL # r) = Some (- int v)"
proof -
  obtain d ds where d: "rev (dec_digits v) = d # ds"
    by (cases "rev (dec_digits v)") auto
  then have "d \<in> set (dec_digits v)" by (metis list.set_intros(1) set_rev)
  then have dig: "isdigit (uc d)" by (rule dec_digits_isdigit)
  then have ns: "\<not> isspace (uc d)" "d \<noteq> CHR ''-''" "d \<noteq> CHR ''+''"
    by (auto simp: isdigit_def isspace_def uc_def)
  have run: "atoi_digits (d # ds @ NUL # r) 0 = Some (int v)"
    using atoi_digits_dec_digits [OF assms, of NUL r] d by simp
  show "atoi (rev (dec_digits v) @ NUL # r) = Some (int v)"
    using ns run by (simp add: atoi_def d read_sign_def)
  have "\<not> isspace (uc CHR ''-'')" by (simp add: isspace_def uc_def)
  then show "atoi (CHR ''-'' # rev (dec_digits v) @ NUL # r) = Some (- int v)"
    using run by (simp add: atoi_def d read_sign_def)
qed

end
