(* ===== verification/Format.thy ===== *)
theory Format
  imports Digits
begin

text \<open>
  The three formatted printers of the kernel: \<open>vga_printf\<close> (\<open>src/vga.c\<close>), \<open>serial_printf\<close>
  (\<open>src/serial.c\<close>) and \<open>sh_printf\<close> (\<open>src/shell.c\<close>).  A printer interprets its format string and
  sends one character after the other to its device; nothing the device does is read back, so a
  printer is the function from the format and its arguments to the characters it sends.  The
  result is \<open>None\<close> where the C code reads behind the format string, runs out of arguments, takes
  a number for a string or the other way round, or overruns its digit buffer.  A 64-bit argument
  fetched as a 32-bit one gives its low half, as the System V calling convention has it; the upper
  half of a 32-bit argument fetched at 64 bits is unspecified, and that fetch is \<open>None\<close>.
\<close>

section \<open>Arguments\<close>

text \<open>A variadic argument as it was passed: a pointer to characters (\<open>None\<close> is NULL), a 32-bit
  integer, or a 64-bit integer.\<close>

datatype fmt_arg = A_str "string option" | A_int u32 | A_long u64

text \<open>\<open>va_arg\<close> of a signed or unsigned integer; \<open>wide\<close> is set by the \<open>l\<close> flags.\<close>

definition arg_signed :: "bool \<Rightarrow> fmt_arg \<Rightarrow> int option" where
  "arg_signed wide a =
     (case a of A_int w \<Rightarrow> if wide then None else Some (sint w)
      | A_long w \<Rightarrow> Some (if wide then sint w else sint (ucast w :: u32))
      | A_str _ \<Rightarrow> None)"

definition arg_unsigned :: "bool \<Rightarrow> fmt_arg \<Rightarrow> nat option" where
  "arg_unsigned wide a =
     (case a of A_int w \<Rightarrow> if wide then None else Some (unat w)
      | A_long w \<Rightarrow> Some (if wide then unat w else unat (ucast w :: u32))
      | A_str _ \<Rightarrow> None)"

definition arg_string :: "fmt_arg \<Rightarrow> string option" where
  "arg_string a =
     (case a of A_str s \<Rightarrow> Some (case s of Some t \<Rightarrow> t | None \<Rightarrow> ''(null)'') | _ \<Rightarrow> None)"

definition arg_char :: "fmt_arg \<Rightarrow> char option" where
  "arg_char a = (case a of A_int w \<Rightarrow> Some (to_char (sint w)) | _ \<Rightarrow> None)"

definition next_arg :: "fmt_arg list \<Rightarrow> (fmt_arg \<times> fmt_arg list) option" where
  "next_arg as = (case as of [] \<Rightarrow> None | a # as \<Rightarrow> Some (a, as))"

section \<open>The printers of the screen and of the serial line\<close>

text \<open>The digits of a buffer filled from the least significant digit, written backwards; a
  negative value has its sign written first.  \<open>-v\<close> overflows for the least 64-bit value.\<close>

definition print_dec :: "nat \<Rightarrow> string" where
  "print_dec v = rev (dec_digits v)"

definition print_signed :: "int \<Rightarrow> string option" where
  "print_signed v =
     (if v < 0
      then if v = - (2 ^ 63) then None else Some (CHR ''-'' # print_dec (nat (- v)))
      else Some (print_dec (nat v)))"

definition print_hex :: "nat \<Rightarrow> nat \<Rightarrow> string" where
  "print_hex v width =
     (let b = hex_digits v in ''0x'' @ rev (b @ replicate (width - length b) (CHR ''0'')))"

text \<open>One conversion of \<open>vga_printf\<close>: the characters it sends and the remaining arguments.\<close>

definition vga_conv :: "bool \<Rightarrow> char \<Rightarrow> fmt_arg list \<Rightarrow> (string \<times> fmt_arg list) option" where
  "vga_conv wide c as =
     (if c = CHR ''s'' then do {
        (a, as) \<leftarrow> next_arg as; t \<leftarrow> arg_string a; Some (t, as) }
      else if c = CHR ''c'' then do {
        (a, as) \<leftarrow> next_arg as; ch \<leftarrow> arg_char a; Some ([ch], as) }
      else if c = CHR ''d'' \<or> c = CHR ''i'' then do {
        (a, as) \<leftarrow> next_arg as; v \<leftarrow> arg_signed wide a; t \<leftarrow> print_signed v; Some (t, as) }
      else if c = CHR ''u'' \<or> c = CHR ''x'' then do {
        (a, as) \<leftarrow> next_arg as; v \<leftarrow> arg_unsigned wide a;
        Some (if c = CHR ''x'' then print_hex v 0 else print_dec v, as) }
      else if c = CHR ''%'' then Some (''%'', as)
      else Some ([CHR ''%'', c], as))"

text \<open>The \<open>l\<close> flags, at most two: \<open>vga_printf\<close> and \<open>serial_printf\<close> read them alike.\<close>

definition skip_two_l :: "string \<Rightarrow> bool \<times> string" where
  "skip_two_l f =
     (case f of
        c # r \<Rightarrow> if c = CHR ''l'' then (True, case r of d # r' \<Rightarrow> if d = CHR ''l'' then r' else r | [] \<Rightarrow> r)
               else (False, f)
      | [] \<Rightarrow> (False, f))"

lemma skip_two_l_length: "length (snd (skip_two_l f)) \<le> length f"
  by (auto simp: skip_two_l_def split: list.splits if_splits)

lemma skip_two_l_shorter: "snd (skip_two_l f) = c # r \<Longrightarrow> length r < length f"
  using skip_two_l_length [of f] by simp

text \<open>The loop of a printer over its format, with the conversion as a parameter.\<close>

function printf_loop ::
  "(bool \<Rightarrow> char \<Rightarrow> fmt_arg list \<Rightarrow> (string \<times> fmt_arg list) option) \<Rightarrow>
   string \<Rightarrow> fmt_arg list \<Rightarrow> string option" where
  "printf_loop conv [] as = Some []"
| "printf_loop conv (c # f) as =
     (if c \<noteq> CHR ''%'' then map_option (Cons c) (printf_loop conv f as)
      else
        (case snd (skip_two_l f) of
           [] \<Rightarrow> None
         | d # r \<Rightarrow>
             (case conv (fst (skip_two_l f)) d as of
                None \<Rightarrow> None
              | Some (t, as') \<Rightarrow> map_option ((@) t) (printf_loop conv r as'))))"
  by pat_completeness auto

termination printf_loop
  by (relation "measure (\<lambda>(conv, f, as). length f)") (auto dest: skip_two_l_shorter)

definition vga_printf_text :: "string \<Rightarrow> fmt_arg list \<Rightarrow> string option" where
  "vga_printf_text fmt as = printf_loop vga_conv fmt as"

text \<open>\<open>serial_printf\<close> has a branch of its own for \<open>x\<close>.\<close>

definition sdec :: "nat \<Rightarrow> string" where
  "sdec v = rev (dec_digits v)"

definition serial_conv :: "bool \<Rightarrow> char \<Rightarrow> fmt_arg list \<Rightarrow> (string \<times> fmt_arg list) option" where
  "serial_conv wide c as =
     (if c = CHR ''s'' then do {
        (a, as) \<leftarrow> next_arg as; t \<leftarrow> arg_string a; Some (t, as) }
      else if c = CHR ''c'' then do {
        (a, as) \<leftarrow> next_arg as; ch \<leftarrow> arg_char a; Some ([ch], as) }
      else if c = CHR ''d'' \<or> c = CHR ''i'' then do {
        (a, as) \<leftarrow> next_arg as; v \<leftarrow> arg_signed wide a;
        if v = - (2 ^ 63) then None
        else Some ((if v < 0 then ''-'' else []) @ sdec (nat \<bar>v\<bar>), as) }
      else if c = CHR ''u'' then do {
        (a, as) \<leftarrow> next_arg as; v \<leftarrow> arg_unsigned wide a; Some (sdec v, as) }
      else if c = CHR ''x'' then do {
        (a, as) \<leftarrow> next_arg as; v \<leftarrow> arg_unsigned wide a; Some (''0x'' @ rev (hex_digits v), as) }
      else if c = CHR ''%'' then Some (''%'', as)
      else Some ([CHR ''%'', c], as))"

definition serial_printf_text :: "string \<Rightarrow> fmt_arg list \<Rightarrow> string option" where
  "serial_printf_text fmt as = printf_loop serial_conv fmt as"

section \<open>The printer of the shell\<close>

text \<open>\<open>sh_printf\<close> reads an optional \<open>-\<close>, a width and any number of \<open>l\<close>.\<close>

record fmt_spec =
  left :: bool
  width :: nat
  wide :: bool

fun read_width :: "nat \<Rightarrow> string \<Rightarrow> nat \<times> string" where
  "read_width w [] = (w, [])"
| "read_width w (c # f) =
     (if CHR ''0'' \<le> c \<and> c \<le> CHR ''9'' then read_width (w * 10 + nat (uc c - uc CHR ''0'')) f
      else (w, c # f))"

definition read_spec :: "string \<Rightarrow> fmt_spec \<times> string" where
  "read_spec f =
     (let l = (case f of c # _ \<Rightarrow> c = CHR ''-'' | [] \<Rightarrow> False);
          f1 = (if l then tl f else f);
          (w, f2) = read_width 0 f1;
          f3 = dropWhile (\<lambda>c. c = CHR ''l'') f2
      in (\<lparr>left = l, width = w, wide = (length f3 < length f2)\<rparr>, f3))"

text \<open>A string argument is padded to the width.  For a number the digits stand in a buffer of 24
  characters, least significant first: right alignment adds its blanks to the buffer; left
  alignment writes the buffer first and then, its count having run down, \<open>width\<close> blanks.\<close>

definition pad_string :: "fmt_spec \<Rightarrow> string \<Rightarrow> string" where
  "pad_string sp s =
     (let pad = replicate (width sp - length s) (CHR '' '')
      in if left sp then s @ pad else pad @ s)"

definition pad_number :: "fmt_spec \<Rightarrow> string \<Rightarrow> string option" where
  "pad_number sp buf =
     (if left sp then Some (rev buf @ replicate (width sp) (CHR '' ''))
      else if max (length buf) (width sp) > 24 then None
      else Some (rev (buf @ replicate (width sp - length buf) (CHR '' ''))))"

definition sh_print_hex :: "nat \<Rightarrow> string" where
  "sh_print_hex v = ''0x'' @ rev (hex_digits v)"

definition sh_conv :: "fmt_spec \<Rightarrow> char \<Rightarrow> fmt_arg list \<Rightarrow> (string \<times> fmt_arg list) option" where
  "sh_conv sp c as =
     (if c = CHR ''s'' then do {
        (a, as) \<leftarrow> next_arg as; t \<leftarrow> arg_string a; Some (pad_string sp t, as) }
      else if c = CHR ''c'' then do {
        (a, as) \<leftarrow> next_arg as; ch \<leftarrow> arg_char a; Some ([ch], as) }
      else if c = CHR ''d'' \<or> c = CHR ''i'' then do {
        (a, as) \<leftarrow> next_arg as; v \<leftarrow> arg_signed (wide sp) a;
        if v = - (2 ^ 63) then None
        else do {
          t \<leftarrow> pad_number sp (dec_digits (nat \<bar>v\<bar>) @ (if v < 0 then ''-'' else []));
          Some (t, as) } }
      else if c = CHR ''u'' then do {
        (a, as) \<leftarrow> next_arg as; v \<leftarrow> arg_unsigned (wide sp) a;
        t \<leftarrow> pad_number sp (dec_digits v); Some (t, as) }
      else if c = CHR ''x'' then do {
        (a, as) \<leftarrow> next_arg as; v \<leftarrow> arg_unsigned (wide sp) a; Some (sh_print_hex v, as) }
      else if c = CHR ''%'' then Some (''%'', as)
      else Some ([CHR ''%'', c], as))"

lemma read_width_length: "length (snd (read_width w f)) \<le> length f"
  by (induction w f rule: read_width.induct) auto

lemma read_spec_shorter: "snd (read_spec f) = c # r \<Longrightarrow> length r < length f"
proof -
  assume a: "snd (read_spec f) = c # r"
  define l where "l = (case f of c # _ \<Rightarrow> c = CHR ''-'' | [] \<Rightarrow> False)"
  have "snd (read_spec f) = dropWhile (\<lambda>c. c = CHR ''l'') (snd (read_width 0 (if l then tl f else f)))"
    by (simp add: read_spec_def Let_def l_def split: prod.split)
  then have "length (c # r) \<le> length (snd (read_width 0 (if l then tl f else f)))"
    using a length_dropWhile_le by metis
  moreover have "length (snd (read_width 0 (if l then tl f else f))) \<le> length f"
    using read_width_length [of 0 "if l then tl f else f"] by (cases f) auto
  ultimately show ?thesis by simp
qed

function sh_printf_text :: "string \<Rightarrow> fmt_arg list \<Rightarrow> string option" where
  "sh_printf_text [] as = Some []"
| "sh_printf_text (c # f) as =
     (if c \<noteq> CHR ''%'' then map_option (Cons c) (sh_printf_text f as)
      else
        (case snd (read_spec f) of
           [] \<Rightarrow> None
         | d # r \<Rightarrow>
             (case sh_conv (fst (read_spec f)) d as of
                None \<Rightarrow> None
              | Some (t, as') \<Rightarrow> map_option ((@) t) (sh_printf_text r as'))))"
  by pat_completeness auto

termination sh_printf_text
  by (relation "measure (\<lambda>(f, as). length f)") (auto dest: read_spec_shorter)

section \<open>The printers agree\<close>

lemma serial_conv_eq: "serial_conv = vga_conv"
proof (intro ext)
  fix w c as
  have "(if v = - (2 ^ 63) then None else Some ((if v < 0 then ''-'' else []) @ sdec (nat \<bar>v\<bar>), r)) =
      print_signed v \<bind> (\<lambda>t. Some (t, r))" for v and r :: "fmt_arg list"
    by (simp add: print_signed_def sdec_def print_dec_def)
  then show "serial_conv w c as = vga_conv w c as"
    by (simp add: serial_conv_def vga_conv_def print_dec_def sdec_def print_hex_def
        cong: Option.bind_cong)
qed

text \<open>\<open>serial_printf\<close> sends to the serial line, for every format and all arguments, the very
  characters that \<open>vga_printf\<close> sends to the screen, and is undefined exactly when that is.\<close>

theorem serial_printf_eq_vga: "serial_printf_text fmt as = vga_printf_text fmt as"
  by (simp add: serial_printf_text_def vga_printf_text_def serial_conv_eq)

section \<open>Numbers through the shell printer\<close>

lemma read_spec_plain:
  "read_spec (CHR ''d'' # f) = (\<lparr>left = False, width = 0, wide = False\<rparr>, CHR ''d'' # f)"
  "read_spec (CHR ''u'' # f) = (\<lparr>left = False, width = 0, wide = False\<rparr>, CHR ''u'' # f)"
  by (simp_all add: read_spec_def)

lemma sint32_bounds: "- 2147483648 \<le> sint (w :: u32)" "sint (w :: u32) \<le> 2147483647"
  using sint_greater_eq [of w] sint_less [of w] by simp_all

lemma pad_number_0: "length b \<le> 24 \<Longrightarrow> pad_number \<lparr>left = False, width = 0, wide = x\<rparr> b = Some (rev b)"
  by (simp add: pad_number_def)

lemma sh_printf_d:
  "sh_printf_text ''%d'' [A_int w] =
     Some (rev (dec_digits (nat \<bar>sint w\<bar>) @ (if sint w < 0 then ''-'' else [])))"
proof -
  have "nat \<bar>sint w\<bar> < 2 ^ 64" using sint32_bounds [of w] by (simp add: nat_less_iff)
  then have "length (dec_digits (nat \<bar>sint w\<bar>)) \<le> 20" by (rule dec_digits_length)
  then have "length (dec_digits (nat \<bar>sint w\<bar>) @ (if sint w < 0 then ''-'' else [])) \<le> 24"
    by (cases "sint w < 0") simp_all
  moreover have "sint w \<noteq> - (2 ^ 63)" using sint32_bounds [of w] by simp
  ultimately show ?thesis
    by (simp add: read_spec_plain sh_conv_def next_arg_def arg_signed_def pad_number_0)
qed

text \<open>C32: What \<open>%d\<close> of the shell printer writes for an \<open>int\<close> reads back with \<open>atoi\<close> to the same
  value; the one exception is the least \<open>int\<close>, on which \<open>atoi\<close> overflows.\<close>

theorem printf_atoi_roundtrip:
  assumes "sint w \<noteq> - 2147483648"
  shows "\<exists>t. sh_printf_text ''%d'' [A_int w] = Some t \<and> atoi (t @ [NUL]) = Some (sint w)"
proof (cases "sint w < 0")
  case True
  then have "nat \<bar>sint w\<bar> \<le> 2147483647" using sint32_bounds(1) [of w] assms by simp
  from atoi_rendered(2) [OF this, of "[]"] show ?thesis
    using True unfolding sh_printf_d by simp
next
  case False
  then have "nat \<bar>sint w\<bar> \<le> 2147483647" using sint32_bounds(2) [of w] by simp
  from atoi_rendered(1) [OF this, of "[]"] show ?thesis
    using False unfolding sh_printf_d by simp
qed

theorem printf_atoi_roundtrip_witness:
  "\<exists>t. sh_printf_text ''%d'' [A_int (- 42)] = Some t \<and> atoi (t @ [NUL]) = Some (- 42)"
  using printf_atoi_roundtrip [of "- 42"] by simp

text \<open>The alignment flags of \<open>sh_printf\<close> do not do what the format strings of the commands ask
  for: \<open>%-10u\<close> puts ten blanks behind a number of any length, and \<open>%02u\<close> pads with blanks instead
  of zeros.\<close>

theorem sh_printf_alignment:
  "sh_printf_text ''%-10u'' [A_int w] = Some (rev (dec_digits (unat w)) @ replicate 10 CHR '' '') \<and>
   (unat w < 10 \<longrightarrow> sh_printf_text ''%02u'' [A_int w] = Some ('' '' @ dec_digits (unat w)))"
proof
  have "read_spec ''-10u'' = (\<lparr>left = True, width = 10, wide = False\<rparr>, ''u'')"
    by (simp add: read_spec_def uc_def)
  then show "sh_printf_text ''%-10u'' [A_int w] = Some (rev (dec_digits (unat w)) @ replicate 10 CHR '' '')"
    by (simp add: sh_conv_def next_arg_def arg_unsigned_def pad_number_def)
  have "read_spec ''02u'' = (\<lparr>left = False, width = 2, wide = False\<rparr>, ''u'')"
    by (simp add: read_spec_def uc_def)
  moreover have "length (dec_digits v) = 1" if "v < 10" for v
    using that by (simp add: dec_digits_def dec_loop.simps [of v] dec_loop.simps [of 0])
  moreover obtain c where "dec_digits (unat w) = [c]" if "unat w < 10"
    using calculation(2) [of "unat w"] by (auto simp: length_Suc_conv)
  ultimately show "unat w < 10 \<longrightarrow> sh_printf_text ''%02u'' [A_int w] = Some ('' '' @ dec_digits (unat w))"
    by (auto simp: sh_conv_def next_arg_def arg_unsigned_def pad_number_def)
qed

lemma dec_digits_7: "dec_digits 7 = ''7''"
  by code_simp

theorem sh_printf_alignment_witness: "sh_printf_text ''%02u'' [A_int 7] = Some '' 7''"
proof -
  have "unat (7 :: u32) = 7" by simp
  then show ?thesis using sh_printf_alignment [of 7] by (simp only: dec_digits_7) simp
qed

end
