(* ===== verification/Vga.thy ===== *)
theory Vga
  imports Format
begin

text \<open>
  The text screen of \<open>src/vga.c\<close>: 25 rows of 80 cells, the cursor and the colour attribute, and
  the two cursor registers of the CRT controller that \<open>move_cursor\<close> programs through its index
  and data ports.  The lemmas show that the cursor never leaves the screen, that the registers
  follow it, what the copying loops of \<open>scroll\<close> amount to, and where printed characters end up.
\<close>

definition VGA_WIDTH :: nat where "VGA_WIDTH = 80"
definition VGA_HEIGHT :: nat where "VGA_HEIGHT = 25"

section \<open>State\<close>

record vga =
  vmem :: "u16 list"
  vrow :: nat
  vcol :: nat
  vattr :: u8
  crtc_index :: u8
  crtc_hi :: u8
  crtc_lo :: u8

section \<open>Operations\<close>

definition cell :: "vga \<Rightarrow> char \<Rightarrow> u16" where
  "cell v c = word_of_int (uc c) OR push_bit 8 (ucast (vattr v))"

text \<open>A byte written to a port of the CRT controller: \<open>0x3D4\<close> selects a register, \<open>0x3D5\<close> writes the
  selected one; registers 14 and 15 hold the cursor position.\<close>

definition crtc_outb :: "u16 \<Rightarrow> u8 \<Rightarrow> vga \<Rightarrow> vga" where
  "crtc_outb port b v =
     (if port = 0x3D4 then v\<lparr>crtc_index := b\<rparr>
      else if port = 0x3D5 then
        (if crtc_index v = 14 then v\<lparr>crtc_hi := b\<rparr>
         else if crtc_index v = 15 then v\<lparr>crtc_lo := b\<rparr> else v)
      else v)"

definition move_cursor :: "vga \<Rightarrow> vga" where
  "move_cursor v =
     (let pos = (of_nat (vrow v * VGA_WIDTH + vcol v) :: u16) in
      crtc_outb 0x3D5 (ucast (pos AND 0xFF))
        (crtc_outb 0x3D4 15
          (crtc_outb 0x3D5 (ucast (drop_bit 8 pos AND 0xFF)) (crtc_outb 0x3D4 14 v))))"

definition put_cell :: "nat \<Rightarrow> u16 \<Rightarrow> vga \<Rightarrow> vga" where
  "put_cell i x v = v\<lparr>vmem := (vmem v)[i := x]\<rparr>"

definition vga_clear :: "vga \<Rightarrow> vga" where
  "vga_clear v =
     (let v1 = fold (\<lambda>y. fold (\<lambda>x v. put_cell (y * VGA_WIDTH + x) (cell v CHR '' '') v) [0..<VGA_WIDTH])
                [0..<VGA_HEIGHT] v
      in move_cursor (v1\<lparr>vrow := 0, vcol := 0\<rparr>))"

definition vga_setcolor :: "u8 \<Rightarrow> u8 \<Rightarrow> vga \<Rightarrow> vga" where
  "vga_setcolor fg bg v = v\<lparr>vattr := push_bit 4 bg OR (fg AND 0x0F)\<rparr>"

definition scroll :: "vga \<Rightarrow> vga" where
  "scroll v =
     (let v1 = fold (\<lambda>y. fold (\<lambda>x v. put_cell ((y - 1) * VGA_WIDTH + x) (vmem v ! (y * VGA_WIDTH + x)) v)
                      [0..<VGA_WIDTH]) [1..<VGA_HEIGHT] v;
          v2 = fold (\<lambda>x v. put_cell ((VGA_HEIGHT - 1) * VGA_WIDTH + x) (cell v CHR '' '') v)
                 [0..<VGA_WIDTH] v1
      in v2\<lparr>vrow := VGA_HEIGHT - 1\<rparr>)"

text \<open>\<open>if (++row >= VGA_HEIGHT) scroll();\<close>\<close>

definition next_row :: "vga \<Rightarrow> vga" where
  "next_row v =
     (let v1 = v\<lparr>vrow := vrow v + 1\<rparr> in if vrow v1 \<ge> VGA_HEIGHT then scroll v1 else v1)"

fun tab_fill :: "nat \<Rightarrow> vga \<Rightarrow> vga" where
  "tab_fill 0 v = v"
| "tab_fill (Suc n) v =
     (if vcol v < VGA_WIDTH
      then tab_fill n ((put_cell (vrow v * VGA_WIDTH + vcol v) (cell v CHR '' '') v)\<lparr>vcol := vcol v + 1\<rparr>)
      else v)"

definition vga_putchar :: "char \<Rightarrow> vga \<Rightarrow> vga" where
  "vga_putchar c v =
     move_cursor
      (if c = LF then next_row (v\<lparr>vcol := 0\<rparr>)
       else if c = TAB then
         (let v1 = tab_fill (4 - vcol v mod 4) v
          in if vcol v1 \<ge> VGA_WIDTH then next_row (v1\<lparr>vcol := 0\<rparr>) else v1)
       else if c = CR then v\<lparr>vcol := 0\<rparr>
       else if c = BS then
         (if vcol v > 0
          then put_cell (vrow v * VGA_WIDTH + (vcol v - 1)) (cell v CHR '' '') (v\<lparr>vcol := vcol v - 1\<rparr>)
          else v)
       else
         (let v1 = put_cell (vrow v * VGA_WIDTH + vcol v) (cell v c) v;
              v2 = v1\<lparr>vcol := vcol v1 + 1\<rparr>
          in if vcol v2 \<ge> VGA_WIDTH then next_row (v2\<lparr>vcol := 0\<rparr>) else v2))"

definition vga_write :: "string \<Rightarrow> vga \<Rightarrow> vga" where
  "vga_write s v = fold vga_putchar s v"

definition vga_print :: "string \<Rightarrow> vga \<Rightarrow> vga" where
  "vga_print s v = fold vga_putchar s v"

definition vga_printf :: "string \<Rightarrow> fmt_arg list \<Rightarrow> vga \<Rightarrow> vga option" where
  "vga_printf fmt as v = map_option (\<lambda>t. vga_print t v) (vga_printf_text fmt as)"

definition vga_init :: "vga \<Rightarrow> vga" where
  "vga_init v = vga_clear (vga_setcolor 0x0A 0x00 v)"

section \<open>What the loops amount to\<close>

lemma put_cell_frame [frame_simps, simp]:
  "vrow (put_cell i x v) = vrow v" "vcol (put_cell i x v) = vcol v" "vattr (put_cell i x v) = vattr v"
  "vmem (put_cell i x v) = (vmem v)[i := x]" "length (vmem (put_cell i x v)) = length (vmem v)"
  by (simp_all add: put_cell_def)

lemma cell_cong [simp]: "cell (v\<lparr>vmem := m\<rparr>) c = cell v c" "cell (put_cell i x v) c = cell v c"
  "cell (v\<lparr>vrow := r\<rparr>) c = cell v c" "cell (v\<lparr>vcol := k\<rparr>) c = cell v c"
  by (simp_all add: cell_def)

text \<open>A loop over the rows and columns is a loop over the cells.\<close>

lemma concat_rows:
  "concat (map (\<lambda>y. map (\<lambda>x. y * w + x) [0..<w]) [a..<a + n]) = [a * w..<(a + n) * w]"
proof (induction n)
  case (Suc n)
  have "map (\<lambda>x. (a + n) * w + x) [0..<w] = [(a + n) * w..<(a + n) * w + w]"
    by (simp add: map_add_upt add.commute)
  moreover have "[a * w..<(a + Suc n) * w] = [a * w..<(a + n) * w] @ [(a + n) * w..<(a + n) * w + w]"
    using upt_add_eq_append [of "a * w" "(a + n) * w" w] by (simp add: algebra_simps)
  ultimately show ?case using Suc.IH by simp
qed simp

lemma fold_rows:
  "fold (\<lambda>y. fold (\<lambda>x. f (y * w + x)) [0..<w]) [a..<a + n] v = fold f [a * w..<(a + n) * w] v"
proof -
  have "fold (\<lambda>y. fold (\<lambda>x. f (y * w + x)) [0..<w]) ys v =
      fold f (concat (map (\<lambda>y. map (\<lambda>x. y * w + x) [0..<w]) ys)) v" for ys
    by (induction ys arbitrary: v) (simp_all add: fold_map comp_def)
  then show ?thesis by (simp only: concat_rows)
qed

lemma fold_put_const:
  "a + n \<le> length (vmem v) \<Longrightarrow>
   fold (\<lambda>i v. put_cell i (cell v c) v) [a..<a + n] v =
     v\<lparr>vmem := take a (vmem v) @ replicate n (cell v c) @ drop (a + n) (vmem v)\<rparr>"
proof (induction n)
  case (Suc n)
  let ?m = "vmem v" and ?x = "cell v c"
  have "(take a ?m @ replicate n ?x @ drop (a + n) ?m)[a + n := ?x] =
      take a ?m @ replicate (Suc n) ?x @ drop (a + Suc n) ?m"
    using Suc.prems
    by (simp add: list_update_append Cons_nth_drop_Suc [symmetric] replicate_append_same [symmetric] flip: append_assoc)
  then show ?case using Suc by (simp add: put_cell_def)
qed simp

lemma fold_copy_up:
  "w + n \<le> length (vmem v) \<Longrightarrow>
   fold (\<lambda>i v. put_cell (i - w) (vmem v ! i) v) [w..<w + n] v =
     v\<lparr>vmem := take n (drop w (vmem v)) @ drop n (vmem v)\<rparr>"
proof (induction n)
  case (Suc n)
  let ?m = "vmem v"
  have l: "length (take n (drop w ?m)) = n" using Suc.prems by simp
  have "(take n (drop w ?m) @ drop n ?m) ! (w + n) = ?m ! (w + n)"
    using Suc.prems l by (simp add: nth_append add.commute)
  moreover have "(take n (drop w ?m) @ drop n ?m)[n := ?m ! (w + n)] =
      take (Suc n) (drop w ?m) @ drop (Suc n) ?m"
  proof -
    have "drop n ?m = ?m ! n # drop (Suc n) ?m"
      using Suc.prems by (simp add: Cons_nth_drop_Suc)
    moreover have "take (Suc n) (drop w ?m) = take n (drop w ?m) @ [?m ! (w + n)]"
      using Suc.prems by (subst take_Suc_conv_app_nth) simp_all
    ultimately show ?thesis using l by (simp add: list_update_append)
  qed
  ultimately show ?case using Suc by (simp add: put_cell_def)
qed simp

lemma scroll_eq:
  assumes "length (vmem v) = 2000"
  shows "scroll v = v\<lparr>vmem := drop 80 (vmem v) @ replicate 80 (cell v CHR '' ''), vrow := 24\<rparr>"
proof -
  have idx: "(y - Suc 0) * 80 + x = y * 80 + x - 80" if "Suc 0 \<le> y" for x y :: nat
    using that by (simp add: diff_mult_distrib)
  have "fold (\<lambda>y. fold (\<lambda>x v. put_cell ((y - 1) * 80 + x) (vmem v ! (y * 80 + x)) v) [0..<80]) [1..<25] v
      = fold (\<lambda>y. fold (\<lambda>x v. put_cell (y * 80 + x - 80) (vmem v ! (y * 80 + x)) v) [0..<80]) [1..<25] v"
    by (intro fold_cong refl) (simp add: idx del: upt_rec_numeral)
  also have "\<dots> = fold (\<lambda>i v. put_cell (i - 80) (vmem v ! i) v) [80..<80 + 1920] v"
    using fold_rows [of "\<lambda>i v. put_cell (i - 80) (vmem v ! i) v" 80 1 24 v]
    by (simp del: upt_rec_numeral)
  also have "\<dots> = v\<lparr>vmem := drop 80 (vmem v) @ drop 1920 (vmem v)\<rparr>"
    using fold_copy_up [of 80 1920 v] assms by (simp del: upt_rec_numeral)
  finally have 1: "fold (\<lambda>y. fold (\<lambda>x v. put_cell ((y - 1) * 80 + x) (vmem v ! (y * 80 + x)) v) [0..<80])
      [1..<25] v = v\<lparr>vmem := drop 80 (vmem v) @ drop 1920 (vmem v)\<rparr>" .
  have 2: "fold (\<lambda>x v. put_cell (1920 + x) (cell v c) v) [0..<80] u =
      u\<lparr>vmem := take 1920 (vmem u) @ replicate 80 (cell u c)\<rparr>" if "length (vmem u) = 2000" for u c
  proof -
    have "fold (\<lambda>x v. put_cell (1920 + x) (cell v c) v) [0..<80] u =
        fold (\<lambda>i v. put_cell i (cell v c) v) (map (\<lambda>x. 1920 + x) [0..<80]) u"
      by (simp add: fold_map comp_def del: upt_rec_numeral)
    also have "map (\<lambda>x. 1920 + x) [0..<80] = [1920..<1920 + 80 :: nat]"
      by (simp only: map_add_upt add.commute)
    finally show ?thesis
      using fold_put_const [of 1920 80 u c] that by (simp del: upt_rec_numeral)
  qed
  show ?thesis
    using 1 assms
    by (simp add: scroll_def VGA_WIDTH_def VGA_HEIGHT_def Let_def 2 del: upt_rec_numeral)
qed

lemma vga_clear_eq:
  assumes "length (vmem v) = 2000"
  shows "vga_clear v = move_cursor (v\<lparr>vmem := replicate 2000 (cell v CHR '' ''), vrow := 0, vcol := 0\<rparr>)"
proof -
  have "fold (\<lambda>y. fold (\<lambda>x v. put_cell (y * 80 + x) (cell v CHR '' '') v) [0..<80]) [0..<25] v =
      fold (\<lambda>i v. put_cell i (cell v CHR '' '') v) [0..<0 + 2000] v"
    using fold_rows [of "\<lambda>i v. put_cell i (cell v CHR '' '') v" 80 0 25 v]
    by (simp del: upt_rec_numeral)
  also have "\<dots> = v\<lparr>vmem := replicate 2000 (cell v CHR '' '')\<rparr>"
    using fold_put_const [of 0 2000 v "CHR '' ''"] assms by (simp del: upt_rec_numeral)
  finally show ?thesis
    by (simp add: vga_clear_def VGA_WIDTH_def VGA_HEIGHT_def del: upt_rec_numeral)
qed


section \<open>The cursor stays on the screen\<close>

text \<open>The screen has its 2000 cells and the cursor is on one of them; the cursor registers hold its
  position.\<close>

definition on_screen :: "vga \<Rightarrow> bool" where
  "on_screen v \<longleftrightarrow> length (vmem v) = 2000 \<and> vrow v < 25 \<and> vcol v < 80"

definition cursor_synced :: "vga \<Rightarrow> bool" where
  "cursor_synced v \<longleftrightarrow> unat (crtc_hi v) * 256 + unat (crtc_lo v) = vrow v * 80 + vcol v"

lemma cell_index: "on_screen v \<Longrightarrow> vrow v * 80 + vcol v < 2000"
  by (auto simp: on_screen_def)

lemma move_cursor_frame [simp]:
  "vmem (move_cursor v) = vmem v" "vrow (move_cursor v) = vrow v" "vcol (move_cursor v) = vcol v"
  "vattr (move_cursor v) = vattr v" "on_screen (move_cursor v) = on_screen v"
  "cell (move_cursor v) c = cell v c"
  by (simp_all add: move_cursor_def crtc_outb_def on_screen_def cell_def Let_def)

lemma byte_split: "unat (ucast (drop_bit 8 (p :: u16) AND 0xFF) :: u8) * 256 +
    unat (ucast (p AND 0xFF) :: u8) = unat p"
proof -
  have lt: "unat p < 65536" using unsigned_less [of p] by simp
  have m: "q AND 0xFF = take_bit 8 q" for q :: u16
    by (simp add: take_bit_eq_mask mask_eq_exp_minus_1)
  have "unat (ucast (p AND 0xFF) :: u8) = unat p mod 256"
    "unat (ucast (drop_bit 8 p AND 0xFF) :: u8) = unat p div 256 mod 256"
    unfolding m using lt
    by (simp_all add: unsigned_ucast_eq unsigned_take_bit_eq unsigned_drop_bit_eq)
       (simp_all add: take_bit_eq_mod drop_bit_eq_div less_mult_imp_div_less)
  moreover have "unat p div 256 < 256" using lt by (simp add: less_mult_imp_div_less)
  ultimately show ?thesis by simp
qed

lemma move_cursor_synced:
  assumes "on_screen v"
  shows "cursor_synced (move_cursor v)"
proof -
  have "unat (of_nat (vrow v * 80 + vcol v) :: u16) = vrow v * 80 + vcol v"
    using cell_index [OF assms] by (simp add: unat_of_nat del: of_nat_add of_nat_mult)
  then show ?thesis
    using byte_split [of "of_nat (vrow v * 80 + vcol v)"]
    by (simp add: cursor_synced_def)
       (simp add: move_cursor_def crtc_outb_def Let_def VGA_WIDTH_def)
qed

lemma on_screen_scroll: "length (vmem v) = 2000 \<Longrightarrow> vcol v < 80 \<Longrightarrow> on_screen (scroll v)"
  by (simp add: scroll_eq on_screen_def)

lemma on_screen_next_row:
  "length (vmem v) = 2000 \<Longrightarrow> vrow v < 25 \<Longrightarrow> vcol v < 80 \<Longrightarrow> on_screen (next_row v)"
  using on_screen_scroll [of "v\<lparr>vrow := Suc (vrow v)\<rparr>"]
  by (auto simp: next_row_def Let_def VGA_HEIGHT_def on_screen_def)

lemma tab_fill_frame [simp]:
  "length (vmem (tab_fill n v)) = length (vmem v)" "vrow (tab_fill n v) = vrow v"
  "vcol v \<le> 80 \<Longrightarrow> vcol (tab_fill n v) = min 80 (vcol v + n)"
proof -
  have "length (vmem (tab_fill n v)) = length (vmem v) \<and> vrow (tab_fill n v) = vrow v \<and>
      (vcol v \<le> 80 \<longrightarrow> vcol (tab_fill n v) = min 80 (vcol v + n))"
    by (induction n v rule: tab_fill.induct) (auto simp: VGA_WIDTH_def)
  then show "length (vmem (tab_fill n v)) = length (vmem v)" "vrow (tab_fill n v) = vrow v"
    "vcol v \<le> 80 \<Longrightarrow> vcol (tab_fill n v) = min 80 (vcol v + n)" by auto
qed

lemma on_screen_putchar:
  assumes "on_screen v"
  shows "on_screen (vga_putchar c v)"
proof -
  note a = assms [unfolded on_screen_def]
  have 1: "on_screen (next_row (u\<lparr>vcol := 0\<rparr>))" if "length (vmem u) = 2000" "vrow u < 25" for u
    using that by (intro on_screen_next_row) simp_all
  show ?thesis
    using a 1 [of v] 1 [of "tab_fill (4 - vcol v mod 4) v"]
      1 [of "put_cell (vrow v * 80 + vcol v) (cell v c) v\<lparr>vcol := Suc (vcol v)\<rparr>"]
    by (auto simp: vga_putchar_def Let_def VGA_WIDTH_def on_screen_def)
qed

lemma cursor_synced_putchar: "on_screen v \<Longrightarrow> cursor_synced (vga_putchar c v)"
proof -
  assume "on_screen v"
  then have "on_screen (vga_putchar c v)" by (rule on_screen_putchar)
  then show ?thesis unfolding vga_putchar_def by (simp add: move_cursor_synced)
qed

lemma vattr_putchar [simp]: "vattr (vga_putchar c v) = vattr v"
proof -
  have "vattr (fold f xs u) = vattr u" if "\<And>x u. vattr (f x u) = vattr u" for f and xs :: "nat list" and u :: vga
    using that by (induction xs arbitrary: u) simp_all
  then have sc: "vattr (scroll u) = vattr u" for u by (simp add: scroll_def Let_def)
  then have nr: "vattr (next_row u) = vattr u" for u by (simp add: next_row_def Let_def)
  have "vattr (tab_fill n u) = vattr u" for n u by (induction n u rule: tab_fill.induct) auto
  then show ?thesis by (simp add: vga_putchar_def Let_def nr)
qed

section \<open>Printing\<close>

text \<open>The characters that \<open>vga_putchar\<close> puts on the screen as they are.\<close>

definition visible :: "char \<Rightarrow> bool" where
  "visible c \<longleftrightarrow> c \<noteq> LF \<and> c \<noteq> TAB \<and> c \<noteq> CR \<and> c \<noteq> BS"

lemma put_visible:
  assumes "visible c" and "vcol v < 79"
  shows "vga_putchar c v =
    move_cursor (v\<lparr>vmem := (vmem v)[vrow v * 80 + vcol v := cell v c], vcol := vcol v + 1\<rparr>)"
  using assms by (simp add: vga_putchar_def visible_def Let_def VGA_WIDTH_def put_cell_def)

text \<open>The cells from \<open>i\<close> on replaced by a list.\<close>

definition splice :: "nat \<Rightarrow> 'a list \<Rightarrow> 'a list \<Rightarrow> 'a list" where
  "splice i xs m = take i m @ xs @ drop (i + length xs) m"

lemma splice_Cons:
  "i + length xs < length m \<Longrightarrow> splice (Suc i) xs (m[i := x]) = splice i (x # xs) m"
  by (simp add: splice_def take_Suc_conv_app_nth)

lemma vga_write_line:
  "on_screen v \<Longrightarrow> \<forall>c \<in> set s. visible c \<Longrightarrow> vcol v + length s < 80 \<Longrightarrow>
   vmem (vga_write s v) = splice (vrow v * 80 + vcol v) (map (cell v) s) (vmem v) \<and>
   vrow (vga_write s v) = vrow v \<and> vcol (vga_write s v) = vcol v + length s"
proof (induction s arbitrary: v)
  case Nil
  then show ?case by (simp add: vga_write_def splice_def)
next
  case (Cons c s)
  define u where "u = vga_putchar c v"
  have u: "u = move_cursor (v\<lparr>vmem := (vmem v)[vrow v * 80 + vcol v := cell v c], vcol := vcol v + 1\<rparr>)"
    unfolding u_def by (rule put_visible) (use Cons.prems in auto)
  have os: "on_screen u" unfolding u_def by (rule on_screen_putchar) (rule Cons.prems(1))
  have uv: "vrow u = vrow v" "vcol u = vcol v + 1" "cell u = cell v"
    "vmem u = (vmem v)[vrow v * 80 + vcol v := cell v c]"
    by (simp_all add: u fun_eq_iff cell_def)
  have "vrow v * 80 + vcol v + length s < length (vmem v)"
    using Cons.prems by (auto simp: on_screen_def)
  then have "splice (Suc (vrow v * 80 + vcol v)) (map (cell v) s) (vmem u) =
      splice (vrow v * 80 + vcol v) (map (cell v) (c # s)) (vmem v)"
    using splice_Cons [of "vrow v * 80 + vcol v" "map (cell v) s" "vmem v"] uv by simp
  then show ?case
    using Cons.IH [OF os] Cons.prems uv by (simp add: vga_write_def flip: u_def)
qed

section \<open>Properties\<close>

definition blank_vga :: vga where
  "blank_vga = \<lparr>vmem = replicate 2000 0, vrow = 24, vcol = 5, vattr = 7,
     crtc_index = 0, crtc_hi = 0, crtc_lo = 0\<rparr>"

lemma on_screen_blank: "on_screen blank_vga"
  by (simp add: on_screen_def blank_vga_def)

text \<open>C21: Whatever is printed, the cursor stays inside the 80 by 25 screen, the screen memory keeps its
  2000 cells, and after the last character the CRT cursor registers hold the cursor position.\<close>

theorem vga_write_on_screen:
  assumes "on_screen v"
  shows "on_screen (vga_write s v) \<and> (s \<noteq> [] \<longrightarrow> cursor_synced (vga_write s v))"
proof (induction s rule: rev_induct)
  case Nil
  then show ?case using assms by (simp add: vga_write_def)
next
  case (snoc c s)
  then show ?case using on_screen_putchar cursor_synced_putchar by (simp add: vga_write_def)
qed

theorem vga_write_on_screen_witness: "on_screen (vga_write (''ok'' @ [LF]) blank_vga)"
  using vga_write_on_screen [OF on_screen_blank, of "''ok'' @ [LF]"] by simp

text \<open>A line of visible characters that fits the current row is stored in the cells from the cursor
  on, with the current attribute; every other cell keeps its content and the cursor moves behind the
  line.\<close>

theorem vga_write_cells:
  assumes "on_screen v" and "\<forall>c \<in> set s. visible c" and "vcol v + length s < 80" and "i < 2000"
  shows "vmem (vga_write s v) ! i =
           (if vrow v * 80 + vcol v \<le> i \<and> i < vrow v * 80 + vcol v + length s
            then cell v (s ! (i - (vrow v * 80 + vcol v))) else vmem v ! i) \<and>
         vrow (vga_write s v) = vrow v \<and> vcol (vga_write s v) = vcol v + length s"
proof -
  have "vrow v * 80 + vcol v + length s < length (vmem v)" "length (vmem v) = 2000"
    using assms by (auto simp: on_screen_def)
  then show ?thesis
    using vga_write_line [OF assms(1-3)] assms(4) by (auto simp: splice_def nth_append)
qed

theorem vga_write_cells_witness:
  "vmem (vga_write ''ok'' blank_vga) ! 1926 = cell blank_vga CHR ''k'' \<and>
   vcol (vga_write ''ok'' blank_vga) = 7"
  using vga_write_cells [OF on_screen_blank, of "''ok''" 1926] by (simp add: visible_def) (simp add: blank_vga_def)

text \<open>The nested copying loops of \<open>scroll\<close> drop the first row, move the others up one row and blank
  the last; a newline on the last row does exactly that and puts the cursor at its beginning.\<close>

theorem newline_scrolls:
  assumes "on_screen v" and "vrow v = 24"
  shows "vmem (vga_putchar LF v) = drop 80 (vmem v) @ replicate 80 (cell v CHR '' '') \<and>
         vrow (vga_putchar LF v) = 24 \<and> vcol (vga_putchar LF v) = 0"
  using assms
  by (simp add: vga_putchar_def next_row_def Let_def VGA_HEIGHT_def scroll_eq on_screen_def)

theorem newline_scrolls_witness: "vrow (vga_putchar LF blank_vga) = 24"
  using newline_scrolls [OF on_screen_blank] by (simp add: blank_vga_def)

end
