(* ===== verification/Serial.thy ===== *)
theory Serial
  imports Format
begin

text \<open>
  The polled serial line of \<open>src/serial.c\<close>.  The device is a parameter of the model: the list
  \<open>status\<close> holds the values that the successive reads of the line status register will give, and
  \<open>trace\<close> records every access of the driver to an I/O port.  A wait that the listed values do not
  end is \<open>None\<close>.  The theorems say that the driver never writes a byte unless it has just read
  that the transmitter is free, and which bytes go over the line.
\<close>

section \<open>State and ports\<close>

datatype io_event = Rd u16 u8 | Wr u16 u8

record uart =
  status :: "u8 list"
  trace :: "io_event list"

definition COM1 :: u16 where "COM1 = 0x3F8"

definition uart_outb :: "u16 \<Rightarrow> u8 \<Rightarrow> uart \<Rightarrow> uart" where
  "uart_outb p b u = u\<lparr>trace := trace u @ [Wr p b]\<rparr>"

section \<open>Operations\<close>

definition tx_ready :: "uart \<Rightarrow> (bool \<times> uart) option" where
  "tx_ready u =
     (case status u of [] \<Rightarrow> None
      | b # bs \<Rightarrow> Some (b AND 0x20 \<noteq> 0, u\<lparr>status := bs, trace := trace u @ [Rd (COM1 + 5) b]\<rparr>))"

text \<open>\<open>while (!tx_ready());\<close>\<close>

partial_function (option) wait_tx :: "uart \<Rightarrow> uart option" where
  "wait_tx u = do { (r, u) \<leftarrow> tx_ready u; if r then Some u else wait_tx u }"

definition serial_putchar :: "char \<Rightarrow> uart \<Rightarrow> uart option" where
  "serial_putchar c u = do {
     u \<leftarrow> (if c = LF then do { u \<leftarrow> wait_tx u; Some (uart_outb COM1 (word_of_int (uc CR)) u) } else Some u);
     u \<leftarrow> wait_tx u;
     Some (uart_outb COM1 (word_of_int (uc c)) u)
   }"

fun serial_print :: "string \<Rightarrow> uart \<Rightarrow> uart option" where
  "serial_print [] u = Some u"
| "serial_print (c # s) u = do { u \<leftarrow> serial_putchar c u; serial_print s u }"

definition serial_printf :: "string \<Rightarrow> fmt_arg list \<Rightarrow> uart \<Rightarrow> uart option" where
  "serial_printf fmt as u = do { t \<leftarrow> serial_printf_text fmt as; serial_print t u }"

definition serial_init :: "uart \<Rightarrow> uart" where
  "serial_init u =
     uart_outb (COM1 + 4) 0x0B (uart_outb (COM1 + 2) 0xC7 (uart_outb (COM1 + 3) 0x03
      (uart_outb (COM1 + 1) 0x00 (uart_outb (COM1 + 0) 0x03 (uart_outb (COM1 + 3) 0x80
       (uart_outb (COM1 + 1) 0x00 u))))))"

section \<open>What the driver sends\<close>

text \<open>The bytes written to the data port, in order, and the bytes of a text.\<close>

fun sent :: "io_event list \<Rightarrow> u8 list" where
  "sent [] = []"
| "sent (Wr p b # es) = (if p = COM1 then b # sent es else sent es)"
| "sent (Rd p b # es) = sent es"

definition serial_bytes :: "char \<Rightarrow> u8 list" where
  "serial_bytes c = (if c = LF then [word_of_int (uc CR), word_of_int (uc LF)] else [word_of_int (uc c)])"

text \<open>In a polite trace every write of data directly follows a read of the status register that
  found the transmitter free.\<close>

fun polite :: "bool \<Rightarrow> io_event list \<Rightarrow> bool" where
  "polite ready [] \<longleftrightarrow> True"
| "polite ready (Rd p b # es) \<longleftrightarrow> polite (p = COM1 + 5 \<and> b AND 0x20 \<noteq> 0) es"
| "polite ready (Wr p b # es) \<longleftrightarrow> (p = COM1 \<longrightarrow> ready) \<and> polite False es"

lemma sent_append [simp]: "sent (xs @ ys) = sent xs @ sent ys"
  by (induction xs rule: sent.induct) auto

lemma polite_append:
  "polite r xs \<Longrightarrow> polite False ys \<Longrightarrow> polite r (xs @ ys)"
proof (induction r xs rule: polite.induct)
  case (1 r)
  then show ?case by (cases ys rule: sent.cases) auto
qed auto

text \<open>A wait reads the status until the transmitter is free; it ends when a later value says so.\<close>

definition is_ready :: "u8 \<Rightarrow> bool" where
  "is_ready b \<longleftrightarrow> b AND 0x20 \<noteq> 0"

definition ready_count :: "u8 list \<Rightarrow> nat" where
  "ready_count bs = length (filter is_ready bs)"

lemma wait_tx_unfold:
  "wait_tx u = (case status u of [] \<Rightarrow> None
     | b # bs \<Rightarrow>
       (let u' = u\<lparr>status := bs, trace := trace u @ [Rd (COM1 + 5) b]\<rparr>
        in if is_ready b then Some u' else wait_tx u'))"
  by (subst wait_tx.simps) (simp add: tx_ready_def is_ready_def Let_def split: list.split)

text \<open>The effect of a wait followed by a write.\<close>

lemma wait_write:
  "wait_tx u = Some v \<Longrightarrow>
   (\<exists>es. trace v = trace u @ es \<and> sent es = [] \<and> polite r (es @ [Wr COM1 x])) \<and>
   ready_count (status u) = Suc (ready_count (status v))"
proof (induction "status u" arbitrary: u r)
  case Nil
  then show ?case by (simp add: wait_tx_unfold [of u])
next
  case (Cons b bs)
  define u' where "u' = u\<lparr>status := bs, trace := trace u @ [Rd (COM1 + 5) b]\<rparr>"
  have w: "wait_tx u = (if is_ready b then Some u' else wait_tx u')"
    using Cons.hyps(2) by (simp add: wait_tx_unfold [of u] u'_def Let_def flip: Cons.hyps(2))
  have bs: "bs = status u'" by (simp add: u'_def)
  show ?case
  proof (cases "is_ready b")
    case True
    then have "v = u'" using w Cons.prems by simp
    then show ?thesis
      using True by (auto simp: u'_def ready_count_def is_ready_def simp flip: Cons.hyps(2))
  next
    case False
    then have "wait_tx u' = Some v" using w Cons.prems by simp
    from Cons.hyps(1) [OF bs this, of False] obtain es where
      es: "trace v = trace u' @ es" "sent es = []" "polite False (es @ [Wr COM1 x])"
      and rc: "ready_count bs = Suc (ready_count (status v))" using bs by auto
    have "polite r ((Rd (COM1 + 5) b # es) @ [Wr COM1 x])"
      using es(3) False by (simp add: is_ready_def)
    moreover have "ready_count (status u) = Suc (ready_count (status v))"
      using rc False by (simp add: ready_count_def flip: Cons.hyps(2))
    ultimately show ?thesis using es by (intro conjI exI [of _ "Rd (COM1 + 5) b # es"]) (simp_all add: u'_def)
  qed
qed

lemma wait_tx_ends: "0 < ready_count (status u) \<Longrightarrow> \<exists>v. wait_tx u = Some v"
proof (induction "status u" arbitrary: u)
  case Nil
  then have "status u = []" by simp
  then show ?case using Nil.prems by (simp add: ready_count_def)
next
  case (Cons b bs)
  let ?u = "u\<lparr>status := bs, trace := trace u @ [Rd (COM1 + 5) b]\<rparr>"
  have "wait_tx u = (if is_ready b then Some ?u else wait_tx ?u)"
    by (simp add: wait_tx_unfold [of u] Let_def flip: Cons.hyps(2))
  then show ?case
    using Cons.hyps(1) [of ?u] Cons.prems
    by (cases "is_ready b") (simp_all add: ready_count_def flip: Cons.hyps(2))
qed

text \<open>One character: how many ready answers it takes, what it sends, and that it is polite.\<close>

definition char_cost :: "char \<Rightarrow> nat" where
  "char_cost c = (if c = LF then 2 else 1)"

lemma send_byte:
  assumes "0 < ready_count (status u)"
  obtains v es where "wait_tx u = Some v" "trace (uart_outb COM1 x v) = trace u @ es" "sent es = [x]"
    "polite False es" "ready_count (status u) = Suc (ready_count (status (uart_outb COM1 x v)))"
proof -
  obtain v where v: "wait_tx u = Some v" using wait_tx_ends [OF assms] by blast
  from wait_write [OF v, of False x] obtain es where
    es: "trace v = trace u @ es" "sent es = []" "polite False (es @ [Wr COM1 x])"
    and rc: "ready_count (status u) = Suc (ready_count (status v))" by blast
  show ?thesis
    by (rule that [OF v, where es = "es @ [Wr COM1 x]"]) (use es rc in \<open>simp_all add: uart_outb_def\<close>)
qed

lemma serial_putchar_sends:
  assumes "char_cost c \<le> ready_count (status u)"
  obtains v es where "serial_putchar c u = Some v" "trace v = trace u @ es"
    "sent es = serial_bytes c" "polite False es"
    "ready_count (status u) = char_cost c + ready_count (status v)"
proof (cases "c = LF")
  case True
  then have "0 < ready_count (status u)" using assms by (simp add: char_cost_def)
  then obtain v1 e1 where 1: "wait_tx u = Some v1"
    "trace (uart_outb COM1 (word_of_int (uc CR)) v1) = trace u @ e1" "sent e1 = [word_of_int (uc CR)]"
    "polite False e1"
    "ready_count (status u) = Suc (ready_count (status (uart_outb COM1 (word_of_int (uc CR)) v1)))"
    by (rule send_byte)
  define w where "w = uart_outb COM1 (word_of_int (uc CR)) v1"
  have "0 < ready_count (status w)" using 1(5) assms True by (simp add: w_def char_cost_def)
  then obtain v2 e2 where 2: "wait_tx w = Some v2"
    "trace (uart_outb COM1 (word_of_int (uc c)) v2) = trace w @ e2" "sent e2 = [word_of_int (uc c)]"
    "polite False e2" "ready_count (status w) = Suc (ready_count (status (uart_outb COM1 (word_of_int (uc c)) v2)))"
    by (rule send_byte)
  show ?thesis
    by (rule that [of "uart_outb COM1 (word_of_int (uc c)) v2" "e1 @ e2"])
       (use 1 2 True in \<open>simp_all add: serial_putchar_def serial_bytes_def char_cost_def polite_append
          flip: w_def\<close>)
next
  case False
  then have "0 < ready_count (status u)" using assms by (simp add: char_cost_def)
  then obtain v es where "wait_tx u = Some v"
    "trace (uart_outb COM1 (word_of_int (uc c)) v) = trace u @ es" "sent es = [word_of_int (uc c)]"
    "polite False es" "ready_count (status u) = Suc (ready_count (status (uart_outb COM1 (word_of_int (uc c)) v)))"
    by (rule send_byte)
  then show ?thesis
    by (intro that [of "uart_outb COM1 (word_of_int (uc c)) v" es])
       (use False in \<open>simp_all add: serial_putchar_def serial_bytes_def char_cost_def\<close>)
qed

lemma serial_print_sends:
  "sum_list (map char_cost s) \<le> ready_count (status u) \<Longrightarrow>
   \<exists>v es. serial_print s u = Some v \<and> trace v = trace u @ es \<and>
     sent es = concat (map serial_bytes s) \<and> polite False es"
proof (induction s arbitrary: u)
  case (Cons c s)
  have "char_cost c \<le> ready_count (status u)" using Cons.prems by simp
  then obtain v es where v: "serial_putchar c u = Some v" "trace v = trace u @ es"
    "sent es = serial_bytes c" "polite False es"
    "ready_count (status u) = char_cost c + ready_count (status v)"
    by (rule serial_putchar_sends)
  then have "sum_list (map char_cost s) \<le> ready_count (status v)" using Cons.prems by simp
  from Cons.IH [OF this] v show ?case by (auto intro: polite_append)
qed simp

section \<open>Properties\<close>

text \<open>C17: If the line status register reports a free transmitter often enough, \<open>serial_print\<close> returns;
  the bytes written to the data port are those of the text with a carriage return before every
  newline, and each of them is written directly after a read that found the transmitter free.\<close>

theorem serial_print_polite:
  assumes "sum_list (map char_cost s) \<le> ready_count (status u)" and "trace u = []"
  shows "\<exists>v. serial_print s u = Some v \<and> sent (trace v) = concat (map serial_bytes s) \<and>
           polite False (trace v)"
  using serial_print_sends [OF assms(1)] assms(2) by auto

theorem serial_print_polite_witness:
  "\<exists>v. serial_print [CHR ''A'', LF] \<lparr>status = [0, 0x20, 0, 0, 0x60, 0x20], trace = []\<rparr> = Some v \<and>
     sent (trace v) = [0x41, 0x0D, 0x0A] \<and> polite False (trace v)"
proof -
  have "ready_count [0, 0x20, 0, 0, 0x60, 0x20] = 3" by (simp add: ready_count_def is_ready_def)
  then show ?thesis
    using serial_print_polite [of "[CHR ''A'', LF]" "\<lparr>status = [0, 0x20, 0, 0, 0x60, 0x20], trace = []\<rparr>"]
    by (simp add: char_cost_def serial_bytes_def uc_def del: serial_print.simps)
qed

end
