(* ===== verification/Keyboard.thy ===== *)
theory Keyboard
  imports Prelude
begin

text \<open>
  The keyboard driver of \<open>src/keyboard.c\<close>: the scancode decoder that runs in the interrupt handler
  and the ring buffer between it and the readers.  The interface of the buffer is the locale
  \<open>bounded_queue\<close>: every sequence of operations answers as a list would that is filled at one end,
  emptied at the other and drops what does not fit.  It is interpreted on the ring buffer, whose
  128 slots hold 127 entries.
\<close>

section \<open>State\<close>

definition BUFSZ :: nat where "BUFSZ = 128"

record kbd =
  kbuf :: "int list"
  buf_head :: nat
  buf_tail :: nat
  shift_down :: bool
  ctrl_down :: bool

definition KB_KEY_UP :: int where "KB_KEY_UP = 0x100"
definition KB_KEY_DOWN :: int where "KB_KEY_DOWN = 0x101"
definition KB_KEY_LEFT :: int where "KB_KEY_LEFT = 0x102"
definition KB_KEY_RIGHT :: int where "KB_KEY_RIGHT = 0x103"
definition KB_KEY_HOME :: int where "KB_KEY_HOME = 0x104"
definition KB_KEY_END :: int where "KB_KEY_END = 0x105"
definition KB_KEY_PGUP :: int where "KB_KEY_PGUP = 0x106"
definition KB_KEY_PGDN :: int where "KB_KEY_PGDN = 0x107"
definition KB_CTRL_D :: int where "KB_CTRL_D = 0x108"
definition KB_CTRL_C :: int where "KB_CTRL_C = 0x109"

lemmas key_codes = KB_KEY_UP_def KB_KEY_DOWN_def KB_KEY_LEFT_def KB_KEY_RIGHT_def KB_KEY_HOME_def
  KB_KEY_END_def KB_KEY_PGUP_def KB_KEY_PGDN_def KB_CTRL_D_def KB_CTRL_C_def

text \<open>The two tables of 128 characters; \<open>NUL\<close> where a key has none.\<close>

definition keymap :: "char list" where
  "keymap = [NUL, CHR 0x1B] @ ''1234567890-='' @ [BS, TAB] @ ''qwertyuiop[]'' @ [LF, NUL]
     @ ''asdfghjkl;'' @ [QUOTE] @ ''`'' @ [NUL, BSLASH] @ ''zxcvbnm,./'' @ [NUL] @ ''*''
     @ [NUL] @ '' '' @ replicate 70 NUL"

definition keymap_shift :: "char list" where
  "keymap_shift = [NUL, CHR 0x1B] @ ''!@#$%^&*()_+'' @ [BS, TAB] @ ''QWERTYUIOP{}'' @ [LF, NUL]
     @ ''ASDFGHJKL:'' @ [DQUOTE] @ ''~'' @ [NUL] @ ''|ZXCVBNM<>?'' @ [NUL] @ ''*''
     @ [NUL] @ '' '' @ replicate 70 NUL"

section \<open>Operations\<close>

definition buf_push :: "int \<Rightarrow> kbd \<Rightarrow> kbd" where
  "buf_push c k =
     (let nxt = (buf_head k + 1) mod BUFSZ
      in if nxt = buf_tail k then k
         else k\<lparr>kbuf := (kbuf k)[buf_head k := c], buf_head := nxt\<rparr>)"

definition special_key :: "u8 \<Rightarrow> int option" where
  "special_key code =
     (if code = 0x48 then Some KB_KEY_UP else if code = 0x50 then Some KB_KEY_DOWN
      else if code = 0x4B then Some KB_KEY_LEFT else if code = 0x4D then Some KB_KEY_RIGHT
      else if code = 0x47 then Some KB_KEY_HOME else if code = 0x4F then Some KB_KEY_END
      else if code = 0x49 then Some KB_KEY_PGUP else if code = 0x51 then Some KB_KEY_PGDN
      else None)"

text \<open>The interrupt handler, with the scancode that it reads from port \<open>0x60\<close>.\<close>

definition keyboard_irq :: "u8 \<Rightarrow> kbd \<Rightarrow> kbd" where
  "keyboard_irq sc k =
     (let code = sc AND 0x7F; released = (sc AND 0x80 \<noteq> 0) in
      if code = 0x2A \<or> code = 0x36 then k\<lparr>shift_down := \<not> released\<rparr>
      else if code = 0x1D then k\<lparr>ctrl_down := \<not> released\<rparr>
      else if released then k
      else if code = 0xE0 then k
      else if ctrl_down k \<and> code = 0x20 then buf_push KB_CTRL_D k
      else if ctrl_down k \<and> code = 0x2E then buf_push KB_CTRL_C k
      else
        (case special_key code of
           Some key \<Rightarrow> buf_push key k
         | None \<Rightarrow>
             let c = (if shift_down k then keymap_shift else keymap) ! unat code
             in if c \<noteq> NUL then buf_push (uc c) k else k))"

text \<open>\<open>None\<close> while the buffer is empty: the reader halts until the next interrupt.\<close>

definition keyboard_get :: "kbd \<Rightarrow> (int \<times> kbd) option" where
  "keyboard_get k =
     (if buf_head k = buf_tail k then None
      else Some (kbuf k ! buf_tail k, k\<lparr>buf_tail := (buf_tail k + 1) mod BUFSZ\<rparr>))"

definition keyboard_init :: "kbd \<Rightarrow> kbd" where
  "keyboard_init k = k\<lparr>buf_head := 0, buf_tail := 0, shift_down := False, ctrl_down := False\<rparr>"

section \<open>The queue interface\<close>

datatype 'a qop = Push 'a | Pop

text \<open>A run of operations: the answers to its \<open>Pop\<close>s and the last state.\<close>

fun run_ops :: "('a \<Rightarrow> 's \<Rightarrow> 's) \<Rightarrow> ('s \<Rightarrow> ('a \<times> 's) option) \<Rightarrow> 'a qop list \<Rightarrow> 's \<Rightarrow>
    'a option list \<times> 's" where
  "run_ops push pop [] s = ([], s)"
| "run_ops push pop (Push x # ops) s = run_ops push pop ops (push x s)"
| "run_ops push pop (Pop # ops) s =
     (case pop s of
        None \<Rightarrow> (let (out, t) = run_ops push pop ops s in (None # out, t))
      | Some (x, s') \<Rightarrow> (let (out, t) = run_ops push pop ops s' in (Some x # out, t)))"

text \<open>The list that a queue of \<open>n\<close> entries stands for.\<close>

definition list_push :: "nat \<Rightarrow> 'a \<Rightarrow> 'a list \<Rightarrow> 'a list" where
  "list_push n x xs = (if length xs < n then xs @ [x] else xs)"

definition list_pop :: "'a list \<Rightarrow> ('a \<times> 'a list) option" where
  "list_pop xs = (case xs of [] \<Rightarrow> None | x # ys \<Rightarrow> Some (x, ys))"

locale bounded_queue =
  fixes push :: "'a \<Rightarrow> 's \<Rightarrow> 's" and pop :: "'s \<Rightarrow> ('a \<times> 's) option"
    and elems :: "'s \<Rightarrow> 'a list" and ok :: "'s \<Rightarrow> bool" and room :: nat
  assumes push_ok: "ok s \<Longrightarrow> ok (push x s)"
    and push_elems: "ok s \<Longrightarrow> elems (push x s) = list_push room x (elems s)"
    and pop_ok: "ok s \<Longrightarrow> pop s = Some (x, s') \<Longrightarrow> ok s'"
    and pop_elems: "ok s \<Longrightarrow> map_option (\<lambda>(x, s'). (x, elems s')) (pop s) = list_pop (elems s)"
begin

lemma run_refines:
  "ok s \<Longrightarrow> run_ops (list_push room) list_pop ops (elems s) =
     (fst (run_ops push pop ops s), elems (snd (run_ops push pop ops s)))"
proof (induction ops arbitrary: s)
  case (Cons op ops)
  show ?case
  proof (cases op)
    case (Push x)
    then show ?thesis using Cons.IH [OF push_ok [OF Cons.prems]] push_elems [OF Cons.prems] by simp
  next
    case Pop
    note e = pop_elems [OF Cons.prems]
    show ?thesis
    proof (cases "pop s")
      case None
      then show ?thesis using e Pop Cons.IH [OF Cons.prems] by (simp add: Let_def split: prod.split)
    next
      case (Some p)
      obtain x s' where p: "p = (x, s')" by (cases p)
      then have "list_pop (elems s) = Some (x, elems s')" using e Some by simp
      then show ?thesis using Some p Pop Cons.IH [OF pop_ok [OF Cons.prems Some [unfolded p]]]
        by (simp add: Let_def split: prod.split)
    qed
  qed
qed simp

lemma run_ok: "ok s \<Longrightarrow> ok (snd (run_ops push pop ops s))"
proof (induction ops arbitrary: s)
  case (Cons op ops)
  show ?case
  proof (cases op)
    case (Push x)
    then show ?thesis using Cons.IH [OF push_ok [OF Cons.prems]] by simp
  next
    case Pop
    then show ?thesis using Cons.IH Cons.prems pop_ok [OF Cons.prems]
      by (cases "pop s") (auto simp: Let_def case_prod_unfold)
  qed
qed simp

text \<open>Entries that fit are all kept, in order.\<close>

lemma push_all:
  "ok s \<Longrightarrow> length (elems s) + length xs \<le> room \<Longrightarrow>
   ok (fold push xs s) \<and> elems (fold push xs s) = elems s @ xs"
proof (induction xs arbitrary: s)
  case (Cons x xs)
  have "elems (push x s) = elems s @ [x]"
    using push_elems [OF Cons.prems(1)] Cons.prems(2) by (simp add: list_push_def)
  then show ?case using Cons.IH [OF push_ok [OF Cons.prems(1)]] Cons.prems(2) by simp
qed simp

end

section \<open>The ring buffer is a bounded queue\<close>

definition kbd_ok :: "kbd \<Rightarrow> bool" where
  "kbd_ok k \<longleftrightarrow> length (kbuf k) = 128 \<and> buf_head k < 128 \<and> buf_tail k < 128"

definition kbd_count :: "kbd \<Rightarrow> nat" where
  "kbd_count k = (buf_head k + 128 - buf_tail k) mod 128"

definition kbd_queue :: "kbd \<Rightarrow> int list" where
  "kbd_queue k = map (\<lambda>i. kbuf k ! ((buf_tail k + i) mod 128)) [0..<kbd_count k]"

lemma length_kbd_queue [simp]: "length (kbd_queue k) = kbd_count k"
  by (simp add: kbd_queue_def)

lemma kbd_count_less: "kbd_count k < 128"
  by (simp add: kbd_count_def)

lemma kbd_count_cases:
  assumes "kbd_ok k"
  shows "kbd_count k = (if buf_tail k \<le> buf_head k then buf_head k - buf_tail k
                        else buf_head k + 128 - buf_tail k)"
  using assms by (auto simp: kbd_count_def kbd_ok_def mod_if)

lemma kbd_full_iff:
  "kbd_ok k \<Longrightarrow> (buf_head k + 1) mod 128 = buf_tail k \<longleftrightarrow> kbd_count k = 127"
  by (auto simp: kbd_count_cases) (auto simp: kbd_ok_def mod_if split: if_splits)

lemma mod_shift_inj: "(a + i) mod n = (a + j) mod n \<Longrightarrow> i < j \<Longrightarrow> j < n \<Longrightarrow> False" for a i j n :: nat
proof -
  assume e: "(a + i) mod n = (a + j) mod n" and l: "i < j" "j < n"
  have "n dvd (a + j) - (a + i)" using e l by (subst mod_eq_dvd_iff_nat [symmetric]) auto
  then have "n \<le> j - i" using l by (auto dest: dvd_imp_le)
  then show False using l by simp
qed

lemma kbd_ok_push: "kbd_ok k \<Longrightarrow> kbd_ok (buf_push c k)"
  by (simp add: buf_push_def kbd_ok_def Let_def BUFSZ_def)

lemma kbd_queue_push:
  assumes "kbd_ok k"
  shows "kbd_queue (buf_push c k) = list_push 127 c (kbd_queue k)"
proof (cases "kbd_count k = 127")
  case True
  then show ?thesis
    using kbd_full_iff [OF assms] by (simp add: buf_push_def Let_def BUFSZ_def list_push_def)
next
  case False
  let ?k = "k\<lparr>kbuf := (kbuf k)[buf_head k := c], buf_head := (buf_head k + 1) mod 128\<rparr>"
  have lt: "kbd_count k < 127" using False kbd_count_less [of k] by linarith
  have eq: "buf_push c k = ?k"
    using False kbd_full_iff [OF assms] by (simp add: buf_push_def Let_def BUFSZ_def)
  have cnt: "kbd_count ?k = kbd_count k + 1"
    using assms lt kbd_count_cases [OF assms] by (auto simp: kbd_count_def kbd_ok_def mod_if split: if_splits)
  have hd: "(buf_tail k + kbd_count k) mod 128 = buf_head k"
    using assms kbd_count_cases [OF assms] by (auto simp: kbd_ok_def mod_if)
  have other: "(buf_tail k + i) mod 128 \<noteq> buf_head k" if "i < kbd_count k" for i
    using that mod_shift_inj [of "buf_tail k" i 128 "kbd_count k"] hd kbd_count_less [of k] by auto
  have len: "length (kbuf k) = 128" "buf_head k < 128" using assms by (auto simp: kbd_ok_def)
  have "map (\<lambda>i. (kbuf k)[buf_head k := c] ! ((buf_tail k + i) mod 128)) [0..<kbd_count k] = kbd_queue k"
    unfolding kbd_queue_def
  proof (rule map_cong [OF refl])
    fix i assume "i \<in> set [0..<kbd_count k]"
    then have "buf_head k \<noteq> (buf_tail k + i) mod 128" using other [of i] by auto
    then show "(kbuf k)[buf_head k := c] ! ((buf_tail k + i) mod 128) = kbuf k ! ((buf_tail k + i) mod 128)"
      by (rule nth_list_update_neq)
  qed
  then have "kbd_queue ?k = kbd_queue k @ [c]"
    unfolding kbd_queue_def [of ?k] cnt using hd len by simp
  then show ?thesis using eq lt by (simp add: list_push_def)
qed

lemma kbd_get_cases:
  assumes ok: "kbd_ok k"
  shows "kbd_ok k' \<or> keyboard_get k \<noteq> Some (x, k')"
    and "map_option (\<lambda>(x, k'). (x, kbd_queue k')) (keyboard_get k) = list_pop (kbd_queue k)"
proof -
  show "kbd_ok k' \<or> keyboard_get k \<noteq> Some (x, k')"
    using ok by (auto simp: keyboard_get_def kbd_ok_def BUFSZ_def)
  show "map_option (\<lambda>(x, k'). (x, kbd_queue k')) (keyboard_get k) = list_pop (kbd_queue k)"
  proof (cases "buf_head k = buf_tail k")
    case True
    then show ?thesis
      by (simp add: keyboard_get_def kbd_queue_def kbd_count_def list_pop_def)
  next
    case False
    let ?k = "k\<lparr>buf_tail := (buf_tail k + 1) mod 128\<rparr>"
    have pos: "0 < kbd_count k"
      using False ok kbd_count_cases [OF ok] by (auto simp: kbd_ok_def)
    have cnt: "kbd_count k = Suc (kbd_count ?k)"
      using False ok kbd_count_cases [OF ok] by (auto simp: kbd_count_def kbd_ok_def mod_if split: if_splits)
    have shift: "(Suc (buf_tail k) mod 128 + i) mod 128 = Suc (buf_tail k + i) mod 128" for i
      by (metis add_Suc mod_add_left_eq)
    have "kbd_queue k = kbuf k ! buf_tail k # kbd_queue ?k"
      unfolding kbd_queue_def [of k] cnt using ok
      by (simp add: upt_conv_Cons kbd_queue_def shift kbd_ok_def map_Suc_upt [symmetric] comp_def del: upt_Suc)
    then show ?thesis using False by (simp add: keyboard_get_def list_pop_def BUFSZ_def)
  qed
qed

interpretation kbq: bounded_queue buf_push keyboard_get kbd_queue kbd_ok 127
proof unfold_locales
  fix s x s'
  assume "kbd_ok s" "keyboard_get s = Some (x, s')"
  then show "kbd_ok s'" using kbd_get_cases(1) by blast
qed (simp_all add: kbd_ok_push kbd_queue_push kbd_get_cases(2))

section \<open>Typing\<close>

text \<open>The scancodes of pressing and releasing the key that carries a character, with the shift key
  held down where only the second table has it.\<close>

definition find_code :: "char list \<Rightarrow> char \<Rightarrow> nat option" where
  "find_code m c = find (\<lambda>i. m ! i = c) [0..<128]"

definition key_codes_for :: "char \<Rightarrow> u8 list" where
  "key_codes_for c =
     (case find_code keymap c of
        Some i \<Rightarrow> [of_nat i, of_nat i OR 0x80]
      | None \<Rightarrow>
          (case find_code keymap_shift c of
             Some i \<Rightarrow> [0x2A, of_nat i, of_nat i OR 0x80, 0xAA]
           | None \<Rightarrow> []))"

definition typable :: "char set" where
  "typable = (set keymap \<union> set keymap_shift) - {NUL}"

text \<open>What one interrupt pushes, and the modifiers it leaves.\<close>

definition irq_effect :: "u8 \<Rightarrow> bool \<Rightarrow> bool \<Rightarrow> int option \<times> bool \<times> bool" where
  "irq_effect sc sh ct =
     (let code = sc AND 0x7F; released = (sc AND 0x80 \<noteq> 0) in
      if code = 0x2A \<or> code = 0x36 then (None, \<not> released, ct)
      else if code = 0x1D then (None, sh, \<not> released)
      else if released then (None, sh, ct)
      else if ct \<and> code = 0x20 then (Some KB_CTRL_D, sh, ct)
      else if ct \<and> code = 0x2E then (Some KB_CTRL_C, sh, ct)
      else
        (case special_key code of
           Some key \<Rightarrow> (Some key, sh, ct)
         | None \<Rightarrow>
             let c = (if sh then keymap_shift else keymap) ! unat code
             in (if c \<noteq> NUL then Some (uc c) else None, sh, ct)))"

definition push_opt :: "int option \<Rightarrow> kbd \<Rightarrow> kbd" where
  "push_opt x k = (case x of None \<Rightarrow> k | Some c \<Rightarrow> buf_push c k)"

definition set_mods :: "bool \<times> bool \<Rightarrow> kbd \<Rightarrow> kbd" where
  "set_mods m k = k\<lparr>shift_down := fst m, ctrl_down := snd m\<rparr>"

lemma buf_push_mods [simp]:
  "shift_down (buf_push c k) = shift_down k" "ctrl_down (buf_push c k) = ctrl_down k"
  by (simp_all add: buf_push_def Let_def)

lemma push_opt_mods [simp]:
  "shift_down (push_opt x k) = shift_down k" "ctrl_down (push_opt x k) = ctrl_down k"
  by (simp_all add: push_opt_def split: option.split)

lemma code_not_E0: "(sc :: u8) AND 0x7F \<noteq> 0xE0"
proof
  assume a: "sc AND 0x7F = 0xE0"
  have "(sc AND 0x7F) AND 0x80 = 0" by (simp add: and.assoc)
  then show False using a by simp
qed

lemma keyboard_irq_eq:
  "keyboard_irq sc k =
     (let (x, m) = irq_effect sc (shift_down k) (ctrl_down k) in set_mods m (push_opt x k))"
  using code_not_E0 [of sc]
  by (simp add: keyboard_irq_def irq_effect_def set_mods_def push_opt_def Let_def split: option.split)

lemma kbd_mods_frame [simp]:
  "kbd_ok (set_mods m k) = kbd_ok k" "kbd_queue (set_mods m k) = kbd_queue k"
  "shift_down (set_mods m k) = fst m" "ctrl_down (set_mods m k) = snd m"
  by (simp_all add: set_mods_def kbd_ok_def kbd_queue_def kbd_count_def)

lemma kbd_ok_irq: "kbd_ok k \<Longrightarrow> kbd_ok (keyboard_irq sc k)"
  by (auto simp: keyboard_irq_eq Let_def push_opt_def kbd_ok_push split: prod.split option.split)

text \<open>The effect of a list of interrupts as data, so that the tables can be evaluated.\<close>

fun irq_run :: "u8 list \<Rightarrow> bool \<Rightarrow> bool \<Rightarrow> int list \<times> bool \<times> bool" where
  "irq_run [] sh ct = ([], sh, ct)"
| "irq_run (sc # scs) sh ct =
     (let (x, sh', ct') = irq_effect sc sh ct; (xs, m) = irq_run scs sh' ct'
      in ((case x of None \<Rightarrow> xs | Some c \<Rightarrow> c # xs), m))"

lemma keyboard_irq_run:
  "irq_run scs (shift_down k) (ctrl_down k) = (xs, sh, ct) \<Longrightarrow>
   kbd_ok (fold keyboard_irq scs k) = kbd_ok (fold buf_push xs k) \<and>
   kbd_queue (fold keyboard_irq scs k) = kbd_queue (fold buf_push xs k) \<and>
   shift_down (fold keyboard_irq scs k) = sh \<and> ctrl_down (fold keyboard_irq scs k) = ct"
proof (induction scs arbitrary: k xs)
  case (Cons sc scs)
  obtain x sh' ct' where e: "irq_effect sc (shift_down k) (ctrl_down k) = (x, sh', ct')"
    by (metis prod_cases3)
  obtain ys where r: "irq_run scs sh' ct' = (ys, sh, ct)"
    and xs: "xs = (case x of None \<Rightarrow> ys | Some c \<Rightarrow> c # ys)"
    using Cons.prems e by (auto split: prod.splits)
  define u where "u = keyboard_irq sc k"
  have u: "u = set_mods (sh', ct') (push_opt x k)" by (simp add: u_def keyboard_irq_eq e)
  have push: "fold buf_push zs (set_mods m q) = set_mods m (fold buf_push zs q)" for zs m q
  proof (induction zs arbitrary: q)
    case (Cons z zs)
    have "buf_push z (set_mods m q) = set_mods m (buf_push z q)"
      by (simp add: buf_push_def set_mods_def Let_def)
    then show ?case using Cons.IH by simp
  qed simp
  have "fold buf_push ys u = set_mods (sh', ct') (fold buf_push xs k)"
    by (simp add: u push xs push_opt_def split: option.split)
  then show ?case using Cons.IH [of u ys] r u by (simp flip: u_def)
qed simp

text \<open>The keys that carry a character are neither modifiers nor cursor keys.\<close>

definition char_key :: "nat \<Rightarrow> bool" where
  "char_key i \<longleftrightarrow> i < 58 \<and> i \<noteq> 29 \<and> i \<noteq> 42 \<and> i \<noteq> 54"

lemma keymap_keys:
  "list_all (\<lambda>(i, c). c = NUL \<or> char_key i) (enumerate 0 keymap)"
  "list_all (\<lambda>(i, c). c = NUL \<or> char_key i) (enumerate 0 keymap_shift)"
  by (simp_all add: keymap_def keymap_shift_def char_key_def enumerate_append_eq enumerate_replicate_eq
      list_all_iff)

lemma length_keymap: "length keymap = 128" "length keymap_shift = 128"
  by (simp_all add: keymap_def keymap_shift_def)

lemma keymap_char_key:
  "i < 128 \<Longrightarrow> keymap ! i \<noteq> NUL \<Longrightarrow> char_key i"
  "i < 128 \<Longrightarrow> keymap_shift ! i \<noteq> NUL \<Longrightarrow> char_key i"
  using keymap_keys by (auto simp: list_all_iff in_set_enumerate_eq length_keymap)

lemma code_bits:
  assumes "i < 128"
  shows "(of_nat i :: u8) AND 0x7F = of_nat i" "(of_nat i :: u8) AND 0x80 = 0"
    "((of_nat i :: u8) OR 0x80) AND 0x7F = of_nat i" "((of_nat i :: u8) OR 0x80) AND 0x80 \<noteq> 0"
proof -
  have m: "(0x7F :: u8) = mask 7" by (simp add: mask_eq_exp_minus_1)
  have "take_bit 7 (of_nat i :: u8) = of_nat (take_bit 7 i)" by (simp add: take_bit_of_nat)
  also have "take_bit 7 i = i" using assms by (simp add: take_bit_nat_eq_self_iff)
  finally show 1: "(of_nat i :: u8) AND 0x7F = of_nat i" by (simp add: m take_bit_eq_mask)
  have "((of_nat i :: u8) AND 0x7F) AND 0x80 = 0" by (simp add: and.assoc)
  then show "(of_nat i :: u8) AND 0x80 = 0" by (simp only: 1)
  show "((of_nat i :: u8) OR 0x80) AND 0x7F = of_nat i"
    using 1 by (simp add: bit.conj_disj_distrib2)
  show "((of_nat i :: u8) OR 0x80) AND 0x80 \<noteq> 0"
    by (simp add: bit.conj_disj_distrib2)
qed

lemma special_key_char:
  assumes "char_key i"
  shows "special_key (of_nat i) = None"
proof -
  have "unat (of_nat i :: u8) = i" using assms by (simp add: char_key_def unat_of_nat)
  then show ?thesis
    using assms by (auto simp: special_key_def char_key_def dest!: arg_cong [of _ _ unat])
qed

lemma irq_effect_press:
  assumes "char_key i"
  shows "irq_effect (of_nat i) sh False =
    (let c = (if sh then keymap_shift else keymap) ! i in (if c \<noteq> NUL then Some (uc c) else None, sh, False))"
  and "irq_effect (of_nat i OR 0x80) sh False = (None, sh, False)"
proof -
  have lt: "i < 128" using assms by (simp add: char_key_def)
  have u: "unat (of_nat i :: u8) = i" using lt by (simp add: unat_of_nat)
  have ne: "(of_nat i :: u8) \<noteq> 0x2A" "(of_nat i :: u8) \<noteq> 0x36" "(of_nat i :: u8) \<noteq> 0x1D"
    using assms u by (auto simp: char_key_def dest!: arg_cong [of _ _ unat])
  show "irq_effect (of_nat i) sh False =
    (let c = (if sh then keymap_shift else keymap) ! i in (if c \<noteq> NUL then Some (uc c) else None, sh, False))"
    using ne by (simp add: irq_effect_def code_bits [OF lt] special_key_char [OF assms] u Let_def)
  show "irq_effect (of_nat i OR 0x80) sh False = (None, sh, False)"
    using ne by (simp add: irq_effect_def code_bits [OF lt])
qed

lemma shift_effect: "irq_effect 0x2A sh ct = (None, True, ct)" "irq_effect 0xAA sh ct = (None, False, ct)"
  by (simp_all add: irq_effect_def)

lemma find_code_Some: "find_code m c = Some i \<Longrightarrow> i < 128 \<and> m ! i = c"
  by (auto simp: find_code_def find_Some_iff)

lemma find_code_None: "length m = 128 \<Longrightarrow> find_code m c = None \<longleftrightarrow> c \<notin> set m"
  by (auto simp: find_code_def find_None_iff in_set_conv_nth)

lemma typable_run:
  assumes "c \<in> typable"
  shows "irq_run (key_codes_for c) False False = ([uc c], False, False)"
proof (cases "find_code keymap c")
  case (Some i)
  have i: "char_key i" "keymap ! i = c"
    using find_code_Some [OF Some] keymap_char_key(1) assms by (auto simp: typable_def)
  then show ?thesis
    using Some assms irq_effect_press [OF i(1)] by (simp add: key_codes_for_def typable_def)
next
  case None
  then have "c \<in> set keymap_shift" using assms by (simp add: typable_def find_code_None length_keymap)
  then obtain i where "find_code keymap_shift c = Some i"
    using find_code_None [OF length_keymap(2), of c] by auto
  moreover from this have "char_key i" "keymap_shift ! i = c"
    using find_code_Some [of keymap_shift c i] keymap_char_key(2) assms by (auto simp: typable_def)
  ultimately show ?thesis
    using None assms irq_effect_press [of i]
    by (simp add: key_codes_for_def typable_def shift_effect)
qed

lemma irq_run_append:
  "irq_run (xs @ ys) sh ct =
     (let (a, sh', ct') = irq_run xs sh ct; (b, m) = irq_run ys sh' ct' in (a @ b, m))"
  by (induction xs arbitrary: sh ct) (auto simp: Let_def split: prod.split option.split)

lemma typed_run:
  "set s \<subseteq> typable \<Longrightarrow> irq_run (concat (map key_codes_for s)) False False = (map uc s, False, False)"
  by (induction s) (simp_all add: irq_run_append typable_run)

section \<open>Properties\<close>

text \<open>C11: The ring buffer of the keyboard driver is a first-in first-out queue of 127 entries: any
  sequence of pushes by the interrupt handler and reads by \<open>keyboard_get\<close> is answered as a list
  would answer it that takes entries at its end, gives them out at its head and drops entries
  while it holds 127.\<close>

theorem keyboard_fifo:
  assumes "kbd_ok k"
  shows "run_ops (list_push 127) list_pop ops (kbd_queue k) =
           (fst (run_ops buf_push keyboard_get ops k), kbd_queue (snd (run_ops buf_push keyboard_get ops k)))"
  by (rule kbq.run_refines [OF assms])

definition idle_kbd :: kbd where
  "idle_kbd = \<lparr>kbuf = replicate 128 0, buf_head = 127, buf_tail = 127, shift_down = False, ctrl_down = False\<rparr>"

lemma kbd_ok_idle: "kbd_ok idle_kbd" and kbd_queue_idle: "kbd_queue idle_kbd = []"
  by (simp_all add: kbd_ok_def kbd_queue_def kbd_count_def idle_kbd_def)

theorem keyboard_fifo_witness:
  "fst (run_ops buf_push keyboard_get [Push 7, Push 8, Pop, Pop, Pop] idle_kbd) = [Some 7, Some 8, None]"
  using keyboard_fifo [OF kbd_ok_idle, of "[Push 7, Push 8, Pop, Pop, Pop]"]
  by (simp add: kbd_queue_idle list_push_def list_pop_def)

text \<open>Typing a text of characters that the two key tables carry, one key after the other with the
  shift key where it is needed, appends exactly the characters of the text to the keyboard queue,
  and leaves both modifiers released.\<close>

theorem typed_text_queued:
  assumes "kbd_ok k" and "\<not> shift_down k" and "\<not> ctrl_down k" and "set s \<subseteq> typable"
    and "length (kbd_queue k) + length s \<le> 127"
  shows "kbd_queue (fold keyboard_irq (concat (map key_codes_for s)) k) = kbd_queue k @ map uc s \<and>
         kbd_ok (fold keyboard_irq (concat (map key_codes_for s)) k) \<and>
         \<not> shift_down (fold keyboard_irq (concat (map key_codes_for s)) k)"
  using keyboard_irq_run [of "concat (map key_codes_for s)" k "map uc s" False False]
    typed_run [OF assms(4)] kbq.push_all [OF assms(1), of "map uc s"] assms by simp

theorem typed_text_queued_witness:
  "kbd_queue (fold keyboard_irq (concat (map key_codes_for ''Ls'')) idle_kbd) = map uc ''Ls''"
proof -
  have s: "set ''Ls'' \<subseteq> typable" by (simp add: typable_def keymap_def keymap_shift_def)
  have m: "\<not> shift_down idle_kbd" "\<not> ctrl_down idle_kbd" by (simp_all add: idle_kbd_def)
  have l: "length (kbd_queue idle_kbd) + length ''Ls'' \<le> 127" by (simp only: kbd_queue_idle) simp
  have "kbd_queue (fold keyboard_irq (concat (map key_codes_for ''Ls'')) idle_kbd) =
      kbd_queue idle_kbd @ map uc ''Ls''"
    using typed_text_queued [OF kbd_ok_idle m s l] by (rule conjunct1)
  then show ?thesis by (simp only: kbd_queue_idle append_Nil)
qed

end
