(* ===== verification/Clock.thy ===== *)
theory Clock
  imports Prelude
begin

text \<open>
  Time: the tick counter of \<open>src/timer.c\<close>, the CMOS clock of \<open>src/rtc.c\<close>, and the interrupt
  controller masks of \<open>src/pic.c\<close>.  What the hardware answers is a parameter: the CMOS registers are
  a function of the number of the read and the register, and the mask registers are the function
  \<open>inb\<close>.  Port writes are results, as a list of port and byte.
\<close>

section \<open>The tick counter\<close>

definition timer_init :: "u32 \<Rightarrow> (u64 \<times> (u16 \<times> u8) list) option" where
  "timer_init hz =
     (if hz = 0 then None
      else let d = 1193182 div hz
        in Some (0, [(0x43, 0x36), (0x40, ucast (d AND 0xFF)), (0x40, ucast (drop_bit 8 d AND 0xFF))]))"

definition timer_tick :: "u64 \<Rightarrow> u64" where
  "timer_tick ticks = ticks + 1"

definition timer_ticks :: "u64 \<Rightarrow> u64" where
  "timer_ticks ticks = ticks"

definition timer_uptime_ms :: "u64 \<Rightarrow> u64" where
  "timer_uptime_ms ticks = ticks * 10"

text \<open>The loop of \<open>sleep_ms\<close>: a tick interrupt ends each \<open>hlt\<close>.  The result is the tick count at
  which the loop ends.\<close>

partial_function (option) sleep_loop :: "u64 \<Rightarrow> u64 \<Rightarrow> u64 option" where
  "sleep_loop target ticks =
     (if timer_uptime_ms ticks < target then sleep_loop target (timer_tick ticks) else Some ticks)"

definition sleep_ms :: "u64 \<Rightarrow> u64 \<Rightarrow> u64 option" where
  "sleep_ms ms ticks = sleep_loop (timer_uptime_ms ticks + ms) ticks"

section \<open>The CMOS clock\<close>

record rtc_time =
  year :: u16
  month :: u8
  day :: u8
  hour :: u8
  minute :: u8
  second :: u8

text \<open>The registers as one pass over them reads them: seconds, minutes, hours, day, month, year and
  status B.\<close>

record rtc_regs =
  r_sec :: u8
  r_min :: u8
  r_hour :: u8
  r_day :: u8
  r_mon :: u8
  r_year :: u8
  r_statusB :: u8

definition cmos_read :: "(nat \<Rightarrow> u8 \<Rightarrow> u8) \<Rightarrow> u8 \<Rightarrow> nat \<Rightarrow> u8 \<times> nat" where
  "cmos_read cmos reg t = (cmos t reg, t + 1)"

text \<open>\<open>while (cmos_read(0x0A) & 0x80);\<close>\<close>

partial_function (option) rtc_wait :: "(nat \<Rightarrow> u8 \<Rightarrow> u8) \<Rightarrow> nat \<Rightarrow> nat option" where
  "rtc_wait cmos t =
     (let (a, t1) = cmos_read cmos 0x0A t
      in if a AND 0x80 \<noteq> 0 then rtc_wait cmos t1 else Some t1)"

partial_function (option) rtc_sample :: "(nat \<Rightarrow> u8 \<Rightarrow> u8) \<Rightarrow> nat \<Rightarrow> (rtc_regs \<times> nat) option" where
  "rtc_sample cmos t = do {
     t \<leftarrow> rtc_wait cmos t;
     let (s, t) = cmos_read cmos 0x00 t;
     let (mi, t) = cmos_read cmos 0x02 t;
     let (h, t) = cmos_read cmos 0x04 t;
     let (d, t) = cmos_read cmos 0x07 t;
     let (mo, t) = cmos_read cmos 0x08 t;
     let (y, t) = cmos_read cmos 0x09 t;
     let (b, t) = cmos_read cmos 0x0B t;
     let (s', t) = cmos_read cmos 0x00 t;
     if s \<noteq> s' then rtc_sample cmos t
     else Some (\<lparr>r_sec = s, r_min = mi, r_hour = h, r_day = d, r_mon = mo, r_year = y, r_statusB = b\<rparr>, t)
   }"

definition bcd :: "u8 \<Rightarrow> u8 \<Rightarrow> u8" where
  "bcd tens_mask x = (x AND 0x0F) + (drop_bit 4 x AND tens_mask) * 10"

definition rtc_decode :: "rtc_regs \<Rightarrow> rtc_time" where
  "rtc_decode r =
     (let s = r_sec r; mi = r_min r; h = r_hour r; d = r_day r; mo = r_mon r; y = r_year r;
          b = r_statusB r
      in if b AND 0x04 = 0
         then \<lparr>year = 2000 + ucast (bcd 0x0F y), month = bcd 0x01 mo, day = bcd 0x03 d,
               hour = (if b AND 0x02 = 0
                       then ((h AND 0x0F) + drop_bit 4 (h AND 0x70) * 10) OR (h AND 0x80) else h),
               minute = bcd 0x07 mi, second = bcd 0x07 s\<rparr>
         else \<lparr>year = 2000 + ucast y, month = mo, day = d, hour = h, minute = mi, second = s\<rparr>)"

definition rtc_read :: "(nat \<Rightarrow> u8 \<Rightarrow> u8) \<Rightarrow> nat \<Rightarrow> (rtc_time \<times> nat) option" where
  "rtc_read cmos t = do { (r, t) \<leftarrow> rtc_sample cmos t; Some (rtc_decode r, t) }"

definition rtc_boot_ms :: "u64 \<Rightarrow> u64" where
  "rtc_boot_ms ticks = timer_uptime_ms ticks"

section \<open>The interrupt controllers\<close>

definition io_wait :: "(u16 \<times> u8) list" where
  "io_wait = [(0x80, 0)]"

definition pic_init :: "(u16 \<times> u8) list" where
  "pic_init =
     [(0x20, 0x11)] @ io_wait @ [(0xA0, 0x11)] @ io_wait @ [(0x21, 0x20)] @ io_wait
     @ [(0xA1, 0x28)] @ io_wait @ [(0x21, 0x04)] @ io_wait @ [(0xA1, 0x02)] @ io_wait
     @ [(0x21, 0x01)] @ io_wait @ [(0xA1, 0x01)] @ io_wait @ [(0x21, 0xFF)] @ [(0xA1, 0xFF)]"

definition pic_eoi :: "nat \<Rightarrow> (u16 \<times> u8) list" where
  "pic_eoi irq = (if irq \<ge> 8 then [(0xA0, 0x20)] else []) @ [(0x20, 0x20)]"

definition irq_port :: "nat \<Rightarrow> u16" where
  "irq_port irq = (if irq < 8 then 0x21 else 0xA1)"

definition irq_bit :: "nat \<Rightarrow> nat" where
  "irq_bit irq = (if irq \<ge> 8 then irq - 8 else irq)"

definition pic_unmask :: "(u16 \<Rightarrow> u8) \<Rightarrow> nat \<Rightarrow> u16 \<times> u8" where
  "pic_unmask inb irq = (irq_port irq, inb (irq_port irq) AND NOT (push_bit (irq_bit irq) 1))"

definition pic_mask :: "(u16 \<Rightarrow> u8) \<Rightarrow> nat \<Rightarrow> u16 \<times> u8" where
  "pic_mask inb irq = (irq_port irq, inb (irq_port irq) OR push_bit (irq_bit irq) 1)"

text \<open>A mask register after a write, for reads that follow.\<close>

definition io_write :: "u16 \<times> u8 \<Rightarrow> (u16 \<Rightarrow> u8) \<Rightarrow> u16 \<Rightarrow> u8" where
  "io_write w inb = inb(fst w := snd w)"

text \<open>Interrupt \<open>irq\<close> is let through when its bit in its mask register is clear.\<close>

definition irq_enabled :: "(u16 \<Rightarrow> u8) \<Rightarrow> nat \<Rightarrow> bool" where
  "irq_enabled inb irq \<longleftrightarrow> \<not> bit (inb (irq_port irq)) (irq_bit irq)"

section \<open>Properties\<close>

text \<open>\<open>pic_unmask\<close> lets exactly its own interrupt line through and \<open>pic_mask\<close> blocks exactly its
  own: the other fifteen lines keep their state, on both controllers.\<close>

theorem pic_mask_lines:
  assumes "i < 16" and "j < 16"
  shows "(irq_enabled (io_write (pic_unmask inb i) inb) j \<longleftrightarrow> j = i \<or> irq_enabled inb j) \<and>
         (irq_enabled (io_write (pic_mask inb i) inb) j \<longleftrightarrow> j \<noteq> i \<and> irq_enabled inb j)"
  using assms
  by (auto simp: irq_enabled_def io_write_def pic_unmask_def pic_mask_def irq_port_def irq_bit_def
      bit_simps)

theorem pic_mask_lines_witness:
  "irq_enabled (io_write (pic_unmask (\<lambda>_. 0xFF) 9) (\<lambda>_. 0xFF)) 9"
  using pic_mask_lines [of 9 9 "\<lambda>_. 0xFF"] by simp

lemma sleep_loop_ends:
  "unat target + 10 < 2 ^ 64 \<Longrightarrow> unat ticks * 10 \<le> unat target + 9 \<Longrightarrow>
   \<exists>t. sleep_loop target ticks = Some t \<and> unat target \<le> unat t * 10 \<and> unat t * 10 \<le> unat target + 9"
proof (induction k \<equiv> "unat target + 10 - unat ticks * 10" arbitrary: ticks rule: less_induct)
  case less
  have up: "unat (timer_uptime_ms ticks) = unat ticks * 10"
    using less.prems by (simp add: timer_uptime_ms_def unat_word_ariths)
  show ?case
  proof (cases "unat ticks * 10 < unat target")
    case False
    then show ?thesis
      using up less.prems(2) by (subst sleep_loop.simps) (simp add: word_less_nat_alt)
  next
    case True
    have tk: "unat (timer_tick ticks) = unat ticks + 1"
      using True less.prems(1) by (simp add: timer_tick_def unat_word_ariths)
    have "\<exists>t. sleep_loop target (timer_tick ticks) = Some t \<and> unat target \<le> unat t * 10 \<and>
        unat t * 10 \<le> unat target + 9"
      by (rule less.hyps) (use True tk less.prems in simp_all)
    then show ?thesis
      using True up by (subst sleep_loop.simps) (simp add: word_less_nat_alt)
  qed
qed

text \<open>C35: \<open>sleep_ms\<close> returns, at the first tick at which at least the requested time has passed, when
  the deadline is representable; the wait overshoots by less than one tick of ten milliseconds.\<close>

theorem sleep_ms_deadline:
  assumes "unat ticks * 10 + unat ms + 10 < 2 ^ 64"
  shows "\<exists>t. sleep_ms ms ticks = Some t \<and> unat ticks * 10 + unat ms \<le> unat t * 10 \<and>
           unat t * 10 < unat ticks * 10 + unat ms + 10"
proof -
  have "unat (timer_uptime_ms ticks + ms) = unat ticks * 10 + unat ms"
    using assms by (simp add: timer_uptime_ms_def unat_word_ariths)
  then show ?thesis
    using sleep_loop_ends [of "timer_uptime_ms ticks + ms" ticks] assms by (auto simp: sleep_ms_def)
qed

theorem sleep_ms_deadline_witness: "\<exists>t. sleep_ms 25 3 = Some t \<and> 55 \<le> unat t * 10 \<and> unat t * 10 < 65"
  using sleep_ms_deadline [of 3 25] by simp

section \<open>Reading the clock\<close>

text \<open>A clock that stands still while it is read: no update in progress, and the registers hold one
  time.\<close>

definition still :: "rtc_regs \<Rightarrow> (nat \<Rightarrow> u8 \<Rightarrow> u8) \<Rightarrow> bool" where
  "still r cmos \<longleftrightarrow> (\<forall>t. cmos t 0x0A AND 0x80 = 0 \<and> cmos t 0x00 = r_sec r \<and> cmos t 0x02 = r_min r \<and>
     cmos t 0x04 = r_hour r \<and> cmos t 0x07 = r_day r \<and> cmos t 0x08 = r_mon r \<and>
     cmos t 0x09 = r_year r \<and> cmos t 0x0B = r_statusB r)"

lemma rtc_read_still: "still r cmos \<Longrightarrow> \<exists>t'. rtc_read cmos t = Some (rtc_decode r, t')"
  by (cases r) (simp add: rtc_read_def rtc_sample.simps [of cmos t] rtc_wait.simps [of cmos t]
      cmos_read_def still_def Let_def)

text \<open>Two decimal digits in a byte.\<close>

definition to_bcd :: "nat \<Rightarrow> u8" where
  "to_bcd v = of_nat (v div 10 * 16 + v mod 10)"

lemma bcd_nibbles:
  assumes "a < 16" and "b < 16"
  shows "(of_nat (a * 16 + b) :: u8) AND 0x0F = of_nat b" "drop_bit 4 (of_nat (a * 16 + b) :: u8) = of_nat a"
proof -
  have lt: "a * 16 + b < 256" using assms by linarith
  then have u: "unat (of_nat (a * 16 + b) :: u8) = a * 16 + b"
    by (simp add: unat_of_nat del: of_nat_add of_nat_mult)
  have m: "(0x0F :: u8) = mask 4" by (simp add: mask_eq_exp_minus_1)
  have "unat ((of_nat (a * 16 + b) :: u8) AND 0x0F) = (a * 16 + b) mod 16"
    unfolding m take_bit_eq_mask [symmetric] unsigned_take_bit_eq u by (simp add: take_bit_eq_mod)
  also have "\<dots> = unat (of_nat b :: u8)" using assms(2) by (simp add: unat_of_nat)
  finally show "(of_nat (a * 16 + b) :: u8) AND 0x0F = of_nat b" by (simp only: word_unat_eq_iff)
  have "unat (drop_bit 4 (of_nat (a * 16 + b) :: u8)) = (a * 16 + b) div 16"
    unfolding unsigned_drop_bit_eq u by (simp add: drop_bit_eq_div take_bit_eq_mod lt)
  also have "\<dots> = unat (of_nat a :: u8)" using assms by (simp add: unat_of_nat)
  finally show "drop_bit 4 (of_nat (a * 16 + b) :: u8) = of_nat a" by (simp only: word_unat_eq_iff)
qed

lemma and_mask_id: "a < 2 ^ n \<Longrightarrow> n \<le> 8 \<Longrightarrow> (of_nat a :: u8) AND mask n = of_nat a"
proof -
  assume a: "a < 2 ^ n" and n: "n \<le> 8"
  have "take_bit n (of_nat a :: u8) = of_nat (take_bit n a)" by (simp add: take_bit_of_nat)
  also have "take_bit n a = a" using a by (simp add: take_bit_nat_eq_self)
  finally show ?thesis by (simp only: take_bit_eq_mask)
qed

lemma bcd_to_bcd:
  assumes "v < 100" and "v div 10 < 2 ^ n" and "n \<le> 4" and "m = mask n"
  shows "bcd m (to_bcd v) = of_nat v"
proof -
  have d: "v div 10 < 16" "v mod 10 < 16" using assms(1) by auto
  have "(of_nat (v mod 10) :: u8) + of_nat (v div 10) * 10 = of_nat (v mod 10 + v div 10 * 10)"
    by (simp only: of_nat_add of_nat_mult of_nat_numeral)
  also have "v mod 10 + v div 10 * 10 = v" by simp
  finally show ?thesis
    unfolding bcd_def to_bcd_def bcd_nibbles [OF d]
    using and_mask_id [of "v div 10" n] assms(2-4) by simp
qed

lemma bcd_to_bcd_masks:
  assumes "v < 100"
  shows "bcd 0x0F (to_bcd v) = of_nat v" "v < 80 \<Longrightarrow> bcd 0x07 (to_bcd v) = of_nat v"
    "v < 40 \<Longrightarrow> bcd 0x03 (to_bcd v) = of_nat v" "v < 20 \<Longrightarrow> bcd 0x01 (to_bcd v) = of_nat v"
  using assms bcd_to_bcd [of v 4 "0x0F"] bcd_to_bcd [of v 3 "0x07"] bcd_to_bcd [of v 2 "0x03"] bcd_to_bcd [of v 1 "0x01"]
  by (simp_all add: mask_eq_exp_minus_1)

text \<open>The registers of a clock that shows a date and time after 2000.  Status B says how: with bit 2 set the numbers
  are binary, otherwise they are BCD; with bit 1 set the hour counts to 23, otherwise to 12, and \<open>pm\<close> is bit 7 of
  the hour register.\<close>

definition binary_mode :: "u8 \<Rightarrow> bool" where
  "binary_mode b \<longleftrightarrow> b AND 0x04 \<noteq> 0"

definition day_mode :: "u8 \<Rightarrow> bool" where
  "day_mode b \<longleftrightarrow> b AND 0x02 \<noteq> 0"

definition clock_regs :: "u8 \<Rightarrow> nat \<Rightarrow> nat \<Rightarrow> nat \<Rightarrow> bool \<Rightarrow> nat \<Rightarrow> nat \<Rightarrow> nat \<Rightarrow> rtc_regs" where
  "clock_regs b y mo d pm h mi s =
     (let enc = (if binary_mode b then of_nat else to_bcd) in
      \<lparr>r_sec = enc s, r_min = enc mi, r_hour = enc h OR (if pm then 0x80 else 0), r_day = enc d, r_mon = enc mo,
       r_year = enc y, r_statusB = b\<rparr>)"

text \<open>The BCD hour of a 12-hour clock: the two digits, and bit 7 as it was.\<close>

lemma bcd_hour:
  "h \<le> 12 \<Longrightarrow> ((to_bcd h OR (if pm then 0x80 else 0)) AND 0x0F) +
     drop_bit 4 ((to_bcd h OR (if pm then 0x80 else 0)) AND 0x70) * 10 OR ((to_bcd h OR (if pm then 0x80 else 0)) AND 0x80) =
   of_nat h OR (if pm then 0x80 else 0)"
proof -
  assume "h \<le> 12"
  then have "h \<in> set [0..<13]" by simp
  moreover have "[0..<13] = [0, 1, 2, 3, 4, 5, 6, 7, 8, 9, 10, 11, 12]" by (simp add: upt_rec)
  ultimately have "h \<in> set [0, 1, 2, 3, 4, 5, 6, 7, 8, 9, 10, 11, 12]" by metis
  then show ?thesis by (cases pm) (auto simp: to_bcd_def)
qed

text \<open>C37: On a clock that stands still while it is read, \<open>rtc_read\<close> returns and decodes the date, the minutes and the
  seconds, in each of the four modes of status B.  The hour is that of the clock where the numbers are binary or the
  clock counts to 12, with the afternoon flag still in bit 7 (eleven in the evening is read as 139); on a BCD clock
  that counts to 23 it is the BCD byte, so that ten o'clock is read as sixteen.\<close>

theorem rtc_read_formats:
  assumes "still (clock_regs b y mo d pm h mi s) cmos" and "y < 100" and "mo \<le> 12" and "d \<le> 31"
    and "h < 24" and "day_mode b \<longrightarrow> \<not> pm" and "\<not> day_mode b \<longrightarrow> h \<le> 12" and "mi < 60" and "s < 60"
  shows "\<exists>t'. rtc_read cmos t =
           Some (\<lparr>year = 2000 + of_nat y, month = of_nat mo, day = of_nat d,
                  hour = (if \<not> binary_mode b \<and> day_mode b then of_nat (h div 10 * 16 + h mod 10)
                          else of_nat h OR (if pm then 0x80 else 0)),
                  minute = of_nat mi, second = of_nat s\<rparr>, t')"
proof -
  have y: "(ucast (of_nat y :: u8) :: u16) = of_nat y"
    using assms(2) by (simp add: word_unat_eq_iff unsigned_ucast_eq unat_of_nat take_bit_nat_eq_self)
  have "bcd 0x0F (to_bcd y) = of_nat y" "bcd 0x01 (to_bcd mo) = of_nat mo"
    "bcd 0x03 (to_bcd d) = of_nat d" "bcd 0x07 (to_bcd mi) = of_nat mi" "bcd 0x07 (to_bcd s) = of_nat s"
    using assms by (simp_all add: bcd_to_bcd_masks)
  then have dec: "rtc_decode (clock_regs b y mo d pm h mi s) =
      \<lparr>year = 2000 + of_nat y, month = of_nat mo, day = of_nat d,
       hour = (if \<not> binary_mode b \<and> day_mode b then to_bcd h else of_nat h OR (if pm then 0x80 else 0)),
       minute = of_nat mi, second = of_nat s\<rparr>"
    using assms(6,7) y bcd_hour [of h pm]
    by (auto simp: rtc_decode_def clock_regs_def Let_def binary_mode_def day_mode_def)
  from rtc_read_still [OF assms(1), of t] show ?thesis unfolding dec to_bcd_def .
qed

definition still_clock :: "rtc_regs \<Rightarrow> nat \<Rightarrow> u8 \<Rightarrow> u8" where
  "still_clock r t reg =
     (if reg = 0x00 then r_sec r else if reg = 0x02 then r_min r else if reg = 0x04 then r_hour r
      else if reg = 0x07 then r_day r else if reg = 0x08 then r_mon r else if reg = 0x09 then r_year r
      else if reg = 0x0B then r_statusB r else 0)"

lemma still_still_clock: "still (clock_regs b y mo d pm h mi s) (still_clock (clock_regs b y mo d pm h mi s))"
  by (simp add: still_def still_clock_def)

theorem rtc_read_formats_witness:
  "(\<exists>t'. rtc_read (still_clock (clock_regs 0x02 26 9 7 False 10 30 59)) 0 =
      Some (\<lparr>year = 2026, month = 9, day = 7, hour = 16, minute = 30, second = 59\<rparr>, t')) \<and>
   (\<exists>t'. rtc_read (still_clock (clock_regs 0x00 26 9 7 True 11 30 59)) 0 =
      Some (\<lparr>year = 2026, month = 9, day = 7, hour = 139, minute = 30, second = 59\<rparr>, t')) \<and>
   (\<exists>t'. rtc_read (still_clock (clock_regs 0x06 26 9 7 False 22 30 59)) 0 =
      Some (\<lparr>year = 2026, month = 9, day = 7, hour = 22, minute = 30, second = 59\<rparr>, t'))"
  using rtc_read_formats [OF still_still_clock [of "0x02" 26 9 7 False 10 30 59], of 0]
    rtc_read_formats [OF still_still_clock [of "0x00" 26 9 7 True 11 30 59], of 0]
    rtc_read_formats [OF still_still_clock [of "0x06" 26 9 7 False 22 30 59], of 0]
  by (simp add: binary_mode_def day_mode_def)

end
