(* ===== verification/Shell_Io.thy ===== *)
theory Shell_Io
  imports Vfs_Steps Vga Serial Keyboard Clock
begin

text \<open>
  The state of the shell (\<open>src/shell.c\<close>) and its input and output: where \<open>out_raw\<close> sends a
  character and where \<open>sh_getc\<close> takes one from, the line editor with its history, and the buffer
  that collects the standard input of a command.  The state extends that of the file system by the
  shell's static variables, the devices, and what the commands ask of the hardware.

  The serial line is represented by the bytes that went over it (theory \<open>Serial\<close> shows that the
  polled driver sends these bytes); the keyboard by the keys that the readers will get, where a
  read from an empty list never returns and is \<open>None\<close>.  A write through the NULL pointer of a pipe
  that could not be allocated is \<open>None\<close> as well.
\<close>

section \<open>State\<close>

text \<open>A pipe: whether its block has been allocated, and the bytes in it.  The two pipes are told
  apart by a boolean.\<close>

record pipe_storage =
  allocated :: bool
  pbytes :: string

record shell = fs +
  screen :: vga
  line_out :: "u8 list"
  keys :: "int list"
  out_file :: "u64 option"
  out_append :: bool
  in_file :: "u64 option"
  in_off :: nat
  pipe0 :: pipe_storage
  pipe1 :: pipe_storage
  pipe_in_off :: nat
  pipe_writing :: bool
  pipe_reader :: "bool option"
  pipe_writer :: "bool option"
  last_exit :: int
  history :: "string option list"
  hist_pos :: nat
  shell_hostname :: string
  ticks :: u64
  cmos :: "nat \<Rightarrow> u8 \<Rightarrow> u8"
  cmos_reads :: nat
  total_mem_kb :: u32
  cpu_vendor :: string

definition PIPE_MAX :: nat where "PIPE_MAX = 65536"
definition HIST_MAX :: nat where "HIST_MAX = 32"

abbreviation hist_count :: "shell \<Rightarrow> nat" where
  "hist_count s \<equiv> length (history s)"

definition get_pipe :: "bool \<Rightarrow> shell \<Rightarrow> pipe_storage" where
  "get_pipe w s = (if w then pipe1 s else pipe0 s)"

definition put_pipe :: "bool \<Rightarrow> pipe_storage \<Rightarrow> shell \<Rightarrow> shell" where
  "put_pipe w p s = (if w then s\<lparr>pipe1 := p\<rparr> else s\<lparr>pipe0 := p\<rparr>)"

section \<open>Output\<close>

definition pipe_writer_add :: "char \<Rightarrow> shell \<Rightarrow> shell option" where
  "pipe_writer_add c s =
     (case pipe_writer s of
        None \<Rightarrow> Some s
      | Some w \<Rightarrow>
          let p = get_pipe w s in
          if length (pbytes p) \<ge> PIPE_MAX then Some s
          else if \<not> allocated p then None
          else Some (put_pipe w (p\<lparr>pbytes := pbytes p @ [c]\<rparr>) s))"

definition sh_set_exit :: "int \<Rightarrow> shell \<Rightarrow> shell" where
  "sh_set_exit code s = s\<lparr>last_exit := code mod 256\<rparr>"

definition sh_last_exit :: "shell \<Rightarrow> int" where
  "sh_last_exit s = last_exit s"

definition console_putc :: "char \<Rightarrow> shell \<Rightarrow> shell" where
  "console_putc c s =
     s\<lparr>screen := vga_putchar c (screen s), line_out := line_out s @ serial_bytes c\<rparr>"

definition out_raw :: "char \<Rightarrow> shell \<Rightarrow> shell option" where
  "out_raw c s =
     (case out_file s of
        Some f \<Rightarrow> Some (snd (vfs_append_file (Some f) [c] s))
      | None \<Rightarrow>
          if pipe_writing s then pipe_writer_add c s
          else Some (console_putc c s))"

definition sh_putc :: "char \<Rightarrow> shell \<Rightarrow> shell option" where
  "sh_putc c s = out_raw c s"

fun out_all :: "string \<Rightarrow> shell \<Rightarrow> shell option" where
  "out_all [] s = Some s"
| "out_all (c # cs) s = do { s \<leftarrow> out_raw c s; out_all cs s }"

definition sh_write :: "string \<Rightarrow> shell \<Rightarrow> shell option" where
  "sh_write b s = out_all b s"

definition sh_puts :: "string \<Rightarrow> shell \<Rightarrow> shell option" where
  "sh_puts t s = out_all t s"

definition sh_printf :: "string \<Rightarrow> fmt_arg list \<Rightarrow> shell \<Rightarrow> shell option" where
  "sh_printf fmt as s = do { t \<leftarrow> sh_printf_text fmt as; out_all t s }"

text \<open>A number passed to a printer as \<open>int\<close> or \<open>unsigned\<close>.\<close>

abbreviation A_dec :: "int \<Rightarrow> fmt_arg" where
  "A_dec i \<equiv> A_int (word_of_int i)"

abbreviation A_string :: "string \<Rightarrow> fmt_arg" where
  "A_string t \<equiv> A_str (Some t)"

section \<open>Input\<close>

text \<open>\<open>keyboard_get\<close> for the readers of the shell.\<close>

definition next_key :: "shell \<Rightarrow> (int \<times> shell) option" where
  "next_key s = (case keys s of [] \<Rightarrow> None | k # ks \<Rightarrow> Some (k, s\<lparr>keys := ks\<rparr>))"

definition sh_getc :: "shell \<Rightarrow> (int \<times> shell) option" where
  "sh_getc s =
     (case in_file s of
        Some f \<Rightarrow>
          if in_off s \<ge> fsize (node s f) then Some (- 1, s)
          else Some (uc (content (node s f) ! in_off s), s\<lparr>in_off := in_off s + 1\<rparr>)
      | None \<Rightarrow>
          (case pipe_reader s of
             Some r \<Rightarrow>
               if pipe_in_off s \<ge> length (pbytes (get_pipe r s)) then Some (- 1, s)
               else Some (uc (pbytes (get_pipe r s) ! pipe_in_off s), s\<lparr>pipe_in_off := pipe_in_off s + 1\<rparr>)
           | None \<Rightarrow> do {
               (c, s) \<leftarrow> next_key s;
               if c = KB_CTRL_D \<or> c < 0 then Some (- 1, s)
               else if c = KB_CTRL_C then Some (- 1, s)
               else Some (c, s)
             }))"

section \<open>The buffer for standard input\<close>

text \<open>The buffer is replaced by one of twice the size where the next byte and a terminator do not
  fit; without memory the byte is dropped.  The bytes are those up to the length.\<close>

record buffer =
  bdata :: string
  bcap :: nat

definition buf_init :: buffer where
  "buf_init = \<lparr>bdata = [], bcap = 0\<rparr>"

definition buf_putc :: "char \<Rightarrow> buffer \<Rightarrow> ('z) heap_scheme \<Rightarrow> buffer \<times> ('z) heap_scheme" where
  "buf_putc c b h =
     (if length (bdata b) + 1 \<ge> bcap b
      then let nc = (if bcap b \<noteq> 0 then bcap b * 2 else 256) in
        (case kmalloc (of_nat nc) h of
           (None, h') \<Rightarrow> (b, h')
         | (Some nb, h') \<Rightarrow> (\<lparr>bdata = bdata b @ [c], bcap = nc\<rparr>, h'))
      else (b\<lparr>bdata := bdata b @ [c]\<rparr>, h))"

partial_function (option) read_stdin_loop :: "buffer \<Rightarrow> shell \<Rightarrow> (buffer \<times> shell) option" where
  "read_stdin_loop b s = do {
     (c, s) \<leftarrow> sh_getc s;
     if c < 0 then Some (b, s)
     else let (b, s) = buf_putc (to_char c) b s in read_stdin_loop b s
   }"

text \<open>\<open>None\<close> as the first component is the NULL that stands for a buffer that was never filled.\<close>

definition read_all_stdin :: "shell \<Rightarrow> (string option \<times> shell) option" where
  "read_all_stdin s = do {
     (b, s) \<leftarrow> read_stdin_loop buf_init s;
     Some (if bcap b = 0 then None else Some (bdata b), s)
   }"

section \<open>The line editor\<close>

text \<open>Erasing a character on the console; the characters typed so far are the string \<open>cur\<close>.\<close>

definition rub_out :: "shell \<Rightarrow> shell option" where
  "rub_out s = do { s \<leftarrow> sh_putc BS s; s \<leftarrow> sh_putc CHR '' '' s; sh_putc BS s }"

fun rub_out_all :: "nat \<Rightarrow> shell \<Rightarrow> shell option" where
  "rub_out_all 0 s = Some s"
| "rub_out_all (Suc n) s = do { s \<leftarrow> rub_out s; rub_out_all n s }"

text \<open>\<open>strncpy(buf, history[i], max - 1)\<close> with the terminator set; a NULL entry has no value.\<close>

definition recall :: "nat \<Rightarrow> nat \<Rightarrow> shell \<Rightarrow> string option" where
  "recall i mx s = do { h \<leftarrow> history s ! i; Some (take (mx - 1) h) }"

partial_function (option) readline_loop :: "nat \<Rightarrow> string \<Rightarrow> shell \<Rightarrow> (int \<times> string \<times> shell) option" where
  "readline_loop mx cur s = do {
     (c, s) \<leftarrow> sh_getc s;
     if c < 0 then Some (- 1, cur, s)
     else if c = uc LF \<or> c = uc CR then do {
       s \<leftarrow> sh_putc LF s; Some (int (length cur), cur, s) }
     else if c = uc BS then
       (if cur \<noteq> [] then do { s \<leftarrow> rub_out s; readline_loop mx (butlast cur) s }
        else readline_loop mx cur s)
     else if c = KB_CTRL_D then Some (- 1, cur, s)
     else if c = KB_CTRL_C then do {
       s \<leftarrow> sh_puts (''^C'' @ [LF]) s; Some (0, [], sh_set_exit 130 s) }
     else if c = KB_KEY_UP then
       (if hist_count s \<noteq> 0 \<and> hist_pos s > 0 then do {
          let s = s\<lparr>hist_pos := hist_pos s - 1\<rparr>;
          s \<leftarrow> rub_out_all (length cur) s;
          h \<leftarrow> recall (hist_pos s) mx s;
          s \<leftarrow> sh_puts h s;
          readline_loop mx h s }
        else readline_loop mx cur s)
     else if c = KB_KEY_DOWN then do {
       s \<leftarrow> rub_out_all (length cur) s;
       (h, s) \<leftarrow> (if hist_pos s + 1 < hist_count s
                 then do { h \<leftarrow> recall (hist_pos s + 1) mx s; Some (h, s\<lparr>hist_pos := hist_pos s + 1\<rparr>) }
                 else Some ([], s\<lparr>hist_pos := hist_count s\<rparr>));
       s \<leftarrow> sh_puts h s;
       readline_loop mx h s }
     else if 32 \<le> c \<and> c < 127 then
       (if length cur < mx - 1 then do {
          s \<leftarrow> sh_putc (to_char c) s; readline_loop mx (cur @ [to_char c]) s }
        else readline_loop mx cur s)
     else readline_loop mx cur s
   }"

text \<open>The count that is returned, and the line in the buffer.\<close>

definition sh_readline :: "nat \<Rightarrow> shell \<Rightarrow> (int \<times> string \<times> shell) option" where
  "sh_readline mx s = readline_loop mx [] s"

section \<open>History\<close>

definition shell_get_history :: "int \<Rightarrow> shell \<Rightarrow> string option" where
  "shell_get_history i s = (if i < 0 \<or> int (hist_count s) \<le> i then None else history s ! nat i)"

definition shell_history_count :: "shell \<Rightarrow> nat" where
  "shell_history_count s = hist_count s"

text \<open>\<open>strdup\<close> of a string without NUL.\<close>

definition dup_string :: "string \<Rightarrow> ('z) heap_scheme \<Rightarrow> string option \<times> ('z) heap_scheme" where
  "dup_string t h =
     (case kmalloc (of_nat (length t + 1)) h of
        (None, h') \<Rightarrow> (None, h')
      | (Some p, h') \<Rightarrow> (Some t, h'))"

definition shell_add_history :: "string \<Rightarrow> shell \<Rightarrow> shell" where
  "shell_add_history t s =
     (if hist_count s < HIST_MAX
      then (let (d, s') = dup_string t s in s'\<lparr>history := history s' @ [d]\<rparr>) else s)"

definition push_history :: "string \<Rightarrow> shell \<Rightarrow> shell" where
  "push_history t s =
     (let (d, s') = dup_string t s in
      if hist_count s' < HIST_MAX then s'\<lparr>history := history s' @ [d]\<rparr>
      else s'\<lparr>history := tl (history s') @ [d]\<rparr>)"

definition sh_redirect :: "shell \<Rightarrow> bool" where
  "sh_redirect s \<longleftrightarrow> out_file s \<noteq> None"

definition restore_redirs :: "shell \<Rightarrow> shell" where
  "restore_redirs s = s\<lparr>out_file := None, in_file := None\<rparr>"

section \<open>Printing to the console\<close>

text \<open>A text that is printed to the console changes the screen and the serial line, and nothing else.\<close>

lemma console_text:
  "out_file s = None \<Longrightarrow> \<not> pipe_writing s \<Longrightarrow>
   \<exists>x. out_all t s = Some (s\<lparr>screen := x, line_out := line_out s @ concat (map serial_bytes t)\<rparr>)"
proof (induction t arbitrary: s)
  case (Cons c t)
  then have "out_raw c s = Some (console_putc c s)" by (simp add: out_raw_def)
  then show ?case using Cons.IH [of "console_putc c s"] Cons.prems by (simp add: console_putc_def)
next
  case Nil
  show ?case by (rule exI [of _ "screen s"]) simp
qed

end
