(* ===== verification/Tokenize.thy ===== *)
theory Tokenize
  imports Shell_Io
begin

text \<open>
  The tokenizer of \<open>src/shell.c\<close>.  It works in place: a word is written over the part of the line
  that has been read, and its terminator may fall on a character that has not.  The line is a list
  of characters, and \<open>p\<close> and \<open>out\<close> are positions in it; an access outside the list is \<open>None\<close>.  An
  item is the position of a word in the line, or a heap copy with the home directory filled in.

  Theory \<open>Tokenize_Spec\<close> compares this with the tokenizer one would write on strings: they
  agree as long as the expansion of \<open>$?\<close> has at most two digits; with three digits the writer
  overtakes the reader.
\<close>

section \<open>The line\<close>

definition rd :: "char list \<Rightarrow> nat \<Rightarrow> char option" where
  "rd b i = (if i < length b then Some (b ! i) else None)"

definition wr :: "char list \<Rightarrow> nat \<Rightarrow> char \<Rightarrow> char list option" where
  "wr b i c = (if i < length b then Some (b[i := c]) else None)"

definition blank :: "char \<Rightarrow> bool" where
  "blank c \<longleftrightarrow> c = CHR '' '' \<or> c = TAB"

definition ends_word :: "char \<Rightarrow> bool" where
  "ends_word c \<longleftrightarrow> blank c \<or> c = CHR ''>'' \<or> c = CHR ''<''"

datatype item = In_line nat | On_heap string

record cmdline =
  items :: "item list"
  cl_out :: string
  cl_out_append :: bool
  cl_in :: string
  has_out :: bool
  has_in :: bool

definition item_string :: "char list \<Rightarrow> item \<Rightarrow> string" where
  "item_string b it = (case it of In_line i \<Rightarrow> cstr (drop i b) | On_heap t \<Rightarrow> t)"

section \<open>Scanning\<close>

function skip_blanks :: "char list \<Rightarrow> nat \<Rightarrow> nat option" where
  "skip_blanks b p =
     (if p < length b then (if blank (b ! p) then skip_blanks b (p + 1) else Some p) else None)"
  by pat_completeness auto
termination skip_blanks by (relation "measure (\<lambda>(b, p). length b - p)") auto

function target_end :: "char list \<Rightarrow> nat \<Rightarrow> nat option" where
  "target_end b p =
     (if p < length b
      then (if b ! p \<noteq> NUL \<and> \<not> ends_word (b ! p) then target_end b (p + 1) else Some p) else None)"
  by pat_completeness auto
termination target_end by (relation "measure (\<lambda>(b, p). length b - p)") auto

declare skip_blanks.simps [simp del] target_end.simps [simp del]

fun append_str :: "char list \<Rightarrow> nat \<Rightarrow> string \<Rightarrow> (char list \<times> nat) option" where
  "append_str b out [] = Some (b, out)"
| "append_str b out (c # s) =
     (if out < length b then append_str (b[out := c]) (out + 1) s else None)"

definition exit_digits :: "int \<Rightarrow> string" where
  "exit_digits code = rev (dec_digits (nat code))"

text \<open>The loop over one word; \<open>quote\<close> is 1 inside single and 2 inside double quotes.\<close>

lemma append_str_length: "append_str b out s = Some (b', out') \<Longrightarrow> length b' = length b"
  by (induction b out s rule: append_str.induct) (auto split: if_splits)

function word_loop ::
  "int \<Rightarrow> char list \<Rightarrow> nat \<Rightarrow> nat \<Rightarrow> nat \<Rightarrow> (char list \<times> nat \<times> nat) option" where
  "word_loop code b p out quote =
     (if \<not> p < length b then None
      else if b ! p = NUL then Some (b, p, out)
      else if b ! p = QUOTE \<and> quote \<noteq> 2 then word_loop code b (p + 1) out (if quote = 1 then 0 else 1)
      else if b ! p = DQUOTE \<and> quote \<noteq> 1 then word_loop code b (p + 1) out (if quote = 2 then 0 else 2)
      else if quote = 0 \<and> ends_word (b ! p) then Some (b, p, out)
      else if quote = 0 \<and> b ! p = CHR ''$'' \<and> rd b (p + 1) = Some CHR ''?'' then
        (case append_str b out (exit_digits code) of
           None \<Rightarrow> None
         | Some (b', out') \<Rightarrow> word_loop code b' (p + 2) out' quote)
      else if out < length b then word_loop code (b[out := b ! p]) (p + 1) (out + 1) quote
      else None)"
  by pat_completeness auto
termination word_loop
  by (relation "measure (\<lambda>(code, b, p, out, quote). length b - p)") (auto dest: append_str_length)

declare word_loop.simps [simp del]

definition expand_tilde ::
  "char list \<Rightarrow> nat \<Rightarrow> ('z) heap_scheme \<Rightarrow> (item \<times> ('z) heap_scheme) option" where
  "expand_tilde b tok h =
     (case rd b tok of
        None \<Rightarrow> None
      | Some c0 \<Rightarrow>
          if c0 = CHR ''~'' \<and> (rd b (tok + 1) = Some NUL \<or> rd b (tok + 1) = Some CHR ''/'')
          then let t = cstr (drop tok b) in
            (case kmalloc (of_nat (length t + 8)) h of
               (None, h') \<Rightarrow> Some (In_line tok, h')
             | (Some p, h') \<Rightarrow> Some (On_heap (''/root'' @ tl t), h'))
          else Some (In_line tok, h))"

section \<open>The tokenizer\<close>

text \<open>One round of the loop.\<close>

lemma word_loop_cases:
  assumes "word_loop code b p out quote = Some r"
  obtains (stop) "p < length b" "r = (b, p, out)"
      "b ! p = NUL \<or> quote = 0 \<and> ends_word (b ! p)"
  | (step) b' k out' quote' where "p < length b" "0 < k" "length b' = length b"
      "word_loop code b' (p + k) out' quote' = Some r"
proof -
  note 1 = assms [unfolded word_loop.simps [of code b p out quote]]
  show ?thesis
  proof (cases "b ! p = NUL \<or> quote = 0 \<and> ends_word (b ! p)")
    case True
    then show ?thesis using 1 that(1)
      by (auto simp: ends_word_def blank_def split: if_splits)
  next
    case False
    then have p: "p < length b" using 1 by (auto split: if_splits)
    have s: "word_loop code b' (Suc p) out' quote' = Some r \<Longrightarrow> length b' = length b \<Longrightarrow> thesis"
      "word_loop code b' (Suc (Suc p)) out' quote' = Some r \<Longrightarrow> length b' = length b \<Longrightarrow> thesis"
      for b' out' quote'
      using that(2) [of 1 b' out' quote'] that(2) [of 2 b' out' quote'] p by simp_all
    show ?thesis using 1 False
      by (auto split: if_splits option.splits dest: append_str_length elim!: s)
  qed
qed

lemma word_loop_props:
  "word_loop code b p out quote = Some (b', p', out') \<Longrightarrow> length b' = length b \<and> p \<le> p'"
proof (induction "length b - p" arbitrary: b p out quote rule: less_induct)
  case less
  from less.prems show ?case
  proof (cases rule: word_loop_cases)
    case (step b1 k out1 quote1)
    have "length b1 - (p + k) < length b - p" using step by simp
    from less.hyps [OF this step(4)] show ?thesis using step by simp
  qed simp
qed

lemma word_loop_progress:
  assumes "word_loop code b p out quote = Some (b', p', out')" and "b ! p \<noteq> NUL"
    and "quote = 0 \<Longrightarrow> \<not> ends_word (b ! p)"
  shows "p < p'"
  using assms(1)
proof (cases rule: word_loop_cases)
  case (step b1 k out1 quote1)
  then show ?thesis using word_loop_props by fastforce
qed (use assms(2,3) in auto)

text \<open>A redirection: the position behind the operator and the target name, whether it is for
  output, and whether it appends.\<close>

definition redirect ::
  "char list \<Rightarrow> nat \<Rightarrow> cmdline \<Rightarrow> (nat \<times> cmdline) option" where
  "redirect b p cl = do {
     c \<leftarrow> rd b p;
     let is_out = (c = CHR ''>'');
     let app = (is_out \<and> rd b (p + 1) = Some CHR ''>'');
     start \<leftarrow> skip_blanks b (if app then p + 2 else p + 1);
     e \<leftarrow> target_end b start;
     let target = take (e - start) (drop start b);
     if length target \<ge> 255 then None
     else Some (if b ! e \<noteq> NUL then e + 1 else e,
       if is_out then cl\<lparr>cl_out := target, cl_out_append := app, has_out := True\<rparr>
       else cl\<lparr>cl_in := target, has_in := True\<rparr>)
   }"

lemma skip_blanks_ge: "skip_blanks b p = Some q \<Longrightarrow> p \<le> q \<and> q < length b \<and> \<not> blank (b ! q)"
proof (induction b p rule: skip_blanks.induct)
  case (1 b p)
  then show ?case by (subst (asm) skip_blanks.simps) (fastforce split: if_splits)
qed

lemma target_end_ge: "target_end b p = Some q \<Longrightarrow> p \<le> q \<and> q < length b \<and> (b ! q = NUL \<or> ends_word (b ! q))"
proof (induction b p rule: target_end.induct)
  case (1 b p)
  then show ?case by (subst (asm) target_end.simps) (fastforce split: if_splits)
qed

lemma redirect_progress: "redirect b p cl = Some (p', cl') \<Longrightarrow> p < p' \<and> p < length b"
  by (auto simp: redirect_def rd_def Let_def split: bind_splits if_splits
      dest!: skip_blanks_ge target_end_ge)

function tokenize_loop ::
  "char list \<Rightarrow> nat \<Rightarrow> cmdline \<Rightarrow> shell \<Rightarrow> (char list \<times> cmdline \<times> shell) option" where
  "tokenize_loop b p0 cl s =
     (if \<not> p0 < length b then None
      else if b ! p0 = NUL \<or> length (items cl) \<ge> 63 then Some (b, cl, s)
      else
        (case skip_blanks b p0 of
           None \<Rightarrow> None
         | Some p \<Rightarrow>
             if b ! p = NUL then Some (b, cl, s)
             else if b ! p = CHR ''>'' \<or> b ! p = CHR ''<'' then
               (case redirect b p cl of
                  None \<Rightarrow> None
                | Some (p', cl') \<Rightarrow> tokenize_loop b p' cl' s)
             else
               (case word_loop (last_exit s) b p p 0 of
                  None \<Rightarrow> None
                | Some (b1, p1, out) \<Rightarrow>
                    (case rd b1 p1 of
                       None \<Rightarrow> None
                     | Some delim \<Rightarrow>
                         let b2 = (if delim \<noteq> NUL then b1[p1 := NUL] else b1);
                             p2 = (if delim \<noteq> NUL then p1 + 1 else p1)
                         in if \<not> out < length b2 then None
                            else let b3 = b2[out := NUL] in
                              (case expand_tilde b3 p s of
                                 None \<Rightarrow> None
                               | Some (it, s') \<Rightarrow>
                                   tokenize_loop b3 p2 (cl\<lparr>items := items cl @ [it]\<rparr>) s')))))"
  by pat_completeness auto
termination tokenize_loop
proof (relation "measure (\<lambda>(b, p, cl, s). length b - p)", goal_cases)
  case 1
  then show ?case by simp
next
  case (2 b p0 cl s p x p' cl')
  then show ?case by (auto dest!: skip_blanks_ge redirect_progress)
next
  case (3 b p0 cl s p x b1 y p1 out delim b2 p2 b3 z it s')
  have "p < p1" "length b1 = length b"
    using 3 word_loop_progress [of "last_exit s" b p p 0 b1 p1 out]
      word_loop_props [of "last_exit s" b p p 0 b1 p1 out] skip_blanks_ge [of b p0 p]
    by (auto simp: ends_word_def)
  then show ?case using 3 skip_blanks_ge [of b p0 p] by (auto split: if_splits)
qed

declare tokenize_loop.simps [simp del]

definition empty_cmdline :: cmdline where
  "empty_cmdline = \<lparr>items = [], cl_out = [], cl_out_append = False, cl_in = [],
     has_out = False, has_in = False\<rparr>"

definition tokenize :: "char list \<Rightarrow> nat \<Rightarrow> shell \<Rightarrow> (char list \<times> cmdline \<times> shell) option" where
  "tokenize b line s = tokenize_loop b line empty_cmdline s"

end
