(* ===== verification/Cmd_Base.thy ===== *)
theory Cmd_Base
  imports Shell_Io
begin

text \<open>
  What the commands of \<open>src/cmds.c\<close> share: the arguments, the loop over option words, input from a
  file or from standard input, the split of a text into lines, and loops that print.

  A command takes the words of its command line (\<open>argv[0 .. argc)\<close>, the name first) and the state of the
  shell to an exit code and a state; \<open>None\<close> is an access outside an object, a signed overflow, a
  line or table that could not be allocated and is written to all the same, or a call that does not return.
  The strings in \<open>argv\<close> are C strings, so \<open>strcmp(a, b) == 0\<close> is equality of the lists.
\<close>

section \<open>Arguments\<close>

type_synonym command = "string list \<Rightarrow> shell \<Rightarrow> (int \<times> shell) option"

text \<open>\<open>argv[i]\<close>; the entry behind the last word is NULL.\<close>

definition arg :: "string list \<Rightarrow> nat \<Rightarrow> string option" where
  "arg a i = (if i < length a then Some (a ! i) else None)"

text \<open>The loop over the option words: the flag characters of all of them, and the other words.\<close>

fun take_opts :: "string list \<Rightarrow> string \<times> string list" where
  "take_opts [] = ([], [])"
| "take_opts (w # ws) =
     (case w of
        c # d # r \<Rightarrow> if c = CHR ''-'' then (let (fl, rest) = take_opts ws in (d # r @ fl, rest))
                     else ([], w # ws)
      | _ \<Rightarrow> ([], w # ws))"

fun for_each :: "('a \<Rightarrow> 's \<Rightarrow> 's option) \<Rightarrow> 'a list \<Rightarrow> 's \<Rightarrow> 's option" where
  "for_each f [] s = Some s"
| "for_each f (x # xs) s = do { s \<leftarrow> f x s; for_each f xs s }"

text \<open>A loop that keeps the exit code of the last failure.\<close>

fun for_each_rc :: "('a \<Rightarrow> shell \<Rightarrow> (int \<times> shell) option) \<Rightarrow> 'a list \<Rightarrow> int \<Rightarrow> shell \<Rightarrow> (int \<times> shell) option"
where
  "for_each_rc f [] rc s = Some (rc, s)"
| "for_each_rc f (x # xs) rc s = do {
     (r, s) \<leftarrow> f x s;
     for_each_rc f xs (if r = 0 then rc else r) s
   }"

text \<open>A message and an exit code.\<close>

definition complain :: "int \<Rightarrow> string \<Rightarrow> fmt_arg list \<Rightarrow> shell \<Rightarrow> (int \<times> shell) option" where
  "complain rc fmt as s = do { s \<leftarrow> sh_printf fmt as s; Some (rc, s) }"

section \<open>Input\<close>

text \<open>\<open>infile_t\<close> is the bytes at \<open>data\<close>; the loops of the commands do not go beyond \<open>size\<close>, and \<open>data\<close>
  is NULL only with size 0.  The inner \<open>None\<close> is the failure of the call.\<close>

definition open_input :: "string option \<Rightarrow> shell \<Rightarrow> (string option \<times> shell) option" where
  "open_input path s =
     (case path of
        None \<Rightarrow> do {
          (d, s) \<leftarrow> read_all_stdin s;
          Some (Some (case d of None \<Rightarrow> [] | Some t \<Rightarrow> t), s) }
      | Some p \<Rightarrow>
          (case vfs_resolve s (Some p) of
             None \<Rightarrow> do { s \<leftarrow> sh_printf (''%s: no such file'' @ [LF]) [A_string p] s; Some (None, s) }
           | Some n \<Rightarrow>
               if is_file s n then Some (Some (content (node s n)), s)
               else do { s \<leftarrow> sh_printf (''%s: no such file'' @ [LF]) [A_string p] s; Some (None, s) }))"

section \<open>Lines\<close>

text \<open>A block that is written to whether or not it could be allocated.\<close>

definition must_alloc :: "nat \<Rightarrow> ('z) heap_scheme \<Rightarrow> ('z) heap_scheme option" where
  "must_alloc n h = (case kmalloc (of_nat n) h of (None, h') \<Rightarrow> None | (Some p, h') \<Rightarrow> Some h')"

text \<open>The scan: \<open>cur\<close> is \<open>data[start .. i)\<close>.  A line is a C string, so it ends at a NUL in the data.\<close>

fun split_scan :: "string \<Rightarrow> string \<Rightarrow> ('z) heap_scheme \<Rightarrow> (string list \<times> ('z) heap_scheme) option" where
  "split_scan cur [] h =
     (if cur \<noteq> [] then do { h \<leftarrow> must_alloc (length cur + 1) h; Some ([cstr cur], h) } else Some ([], h))"
| "split_scan cur (c # d) h =
     (if c = LF then do {
        h \<leftarrow> must_alloc (length cur + 1) h;
        (ls, h) \<leftarrow> split_scan [] d h;
        Some (cstr cur # ls, h) }
      else split_scan (cur @ [c]) d h)"

definition count_lines :: "string \<Rightarrow> nat" where
  "count_lines d = count_list d LF + (if d \<noteq> [] \<and> last d \<noteq> LF then 1 else 0)"

definition split_lines :: "string \<Rightarrow> ('z) heap_scheme \<Rightarrow> (string list \<times> ('z) heap_scheme) option" where
  "split_lines d h =
     (if d = [] then Some ([], snd (kmalloc 8 h))
      else do { h \<leftarrow> must_alloc (8 * (count_lines d + 1)) h; split_scan [] d h })"

definition put_line :: "string \<Rightarrow> shell \<Rightarrow> shell option" where
  "put_line l s = do { s \<leftarrow> sh_puts l s; sh_putc LF s }"

text \<open>\<open>atoi\<close> and \<open>strcmp\<close> on C strings.\<close>

definition atoi_str :: "string \<Rightarrow> int option" where
  "atoi_str t = atoi (t @ [NUL])"

definition cmp_str :: "string \<Rightarrow> string \<Rightarrow> int option" where
  "cmp_str x y = strcmp (x @ [NUL]) (y @ [NUL])"

section \<open>What they compute\<close>

text \<open>The lines of a text.\<close>

fun lines_of :: "string \<Rightarrow> string \<Rightarrow> string list" where
  "lines_of cur [] = (if cur = [] then [] else [cur])"
| "lines_of cur (c # d) = (if c = LF then cur # lines_of [] d else lines_of (cur @ [c]) d)"

definition text_lines :: "string \<Rightarrow> string list" where
  "text_lines d = lines_of [] d"

lemma lines_of_unlines:
  "LF \<notin> set l \<Longrightarrow> lines_of cur (l @ LF # d) = (cur @ l) # lines_of [] d"
  by (induction l arbitrary: cur) auto

lemma text_lines_unlines [simp]:
  "\<forall>l \<in> set ls. LF \<notin> set l \<Longrightarrow> text_lines (concat (map (\<lambda>l. l @ [LF]) ls)) = ls"
  by (induction ls) (simp_all add: text_lines_def lines_of_unlines)

lemma lines_of_no_LF: "LF \<notin> set cur \<Longrightarrow> l \<in> set (lines_of cur d) \<Longrightarrow> LF \<notin> set l"
  by (induction cur d rule: lines_of.induct) (auto split: if_splits)

lemma text_lines_no_LF: "l \<in> set (text_lines d) \<Longrightarrow> LF \<notin> set l"
  using lines_of_no_LF [of "[]" l d] by (simp add: text_lines_def)

lemma split_scan_lines:
  "split_scan cur d h = Some (ls, h') \<Longrightarrow> ls = map cstr (lines_of cur d)"
  by (induction cur d h arbitrary: ls h' rule: split_scan.induct) (auto split: if_splits bind_splits)

lemma split_lines_text: "split_lines d h = Some (ls, h') \<Longrightarrow> ls = map cstr (text_lines d)"
  by (auto simp: split_lines_def text_lines_def split: if_splits bind_splits dest: split_scan_lines)

lemma cmp_str_eq: "NUL \<notin> set x \<Longrightarrow> NUL \<notin> set y \<Longrightarrow> cmp_str x y = Some (str_cmp x y)"
  by (simp add: cmp_str_def strcmp_NUL)

lemma for_each_append: "for_each f (xs @ ys) s = do { s \<leftarrow> for_each f xs s; for_each f ys s }"
  by (induction xs arbitrary: s) (auto split: bind_splits)

end
