(* ===== verification/Cmd_Fs.thy ===== *)
theory Cmd_Fs
  imports Cmd_Base
begin

text \<open>
  The commands of \<open>src/cmds.c\<close> that work on the file system: the working directory, listings, creation
  and removal, copying, the walks over a tree, and \<open>test\<close>.  Fixed-size path buffers are explicit:
  where the C code overruns one, the command has no result.
\<close>

section \<open>Working directory and listings\<close>

definition cmd_pwd :: command where
  "cmd_pwd a s = do { s \<leftarrow> put_line (vfs_pwd s) s; Some (0, s) }"

definition cmd_cd :: command where
  "cmd_cd a s =
     (let target = (case arg a 1 of None \<Rightarrow> ''/root'' | Some t \<Rightarrow> if t = ''~'' then ''/root'' else t) in
      case vfs_resolve s (Some target) of
        None \<Rightarrow> complain 1 (''cd: %s: no such directory'' @ [LF]) [A_string target] s
      | Some n \<Rightarrow>
          if is_dir s n
          then do { s \<leftarrow> vfs_update_pwd (s\<lparr>vfs_cwd := n\<rparr>); Some (0, s) }
          else complain 1 (''cd: %s: no such directory'' @ [LF]) [A_string target] s)"

definition print_entry :: "bool \<Rightarrow> u64 \<Rightarrow> shell \<Rightarrow> shell option" where
  "print_entry longfmt n s = do {
     s \<leftarrow> (if longfmt then do {
              s \<leftarrow> sh_puts (if is_dir s n then ''drwxr-xr-x'' else ''-rw-r--r--'') s;
              sh_printf '' 1 root root %8u '' [A_int (of_nat (fsize (node s n)))] s }
            else Some s);
     s \<leftarrow> sh_puts (name (node s n)) s;
     s \<leftarrow> (if is_dir s n then sh_putc CHR ''/'' s else Some s);
     sh_putc LF s
   }"

definition ls_dir :: "bool \<Rightarrow> bool \<Rightarrow> u64 \<Rightarrow> shell \<Rightarrow> shell option" where
  "ls_dir longfmt all_names dir s =
     for_each (\<lambda>c s. if \<not> all_names \<and> (case name (node s c) of x # _ \<Rightarrow> x = CHR ''.'' | [] \<Rightarrow> False)
                     then Some s else print_entry longfmt c s)
       (children (node s dir)) s"

definition cmd_ls :: command where
  "cmd_ls a s =
     (let (fl, rest) = take_opts (tl a); longfmt = (CHR ''l'' \<in> set fl); all_names = (CHR ''a'' \<in> set fl) in
      if rest = [] then do { s \<leftarrow> ls_dir longfmt all_names (vfs_cwd s) s; Some (0, s) }
      else for_each_rc (\<lambda>(i, w) s.
          case vfs_resolve s (Some w) of
            None \<Rightarrow> complain 1 (''ls: %s: no such file or directory'' @ [LF]) [A_string w] s
          | Some n \<Rightarrow>
              if is_dir s n then do {
                s \<leftarrow> (if i > 0 then sh_printf ([LF] @ ''%s:'' @ [LF]) [A_string w] s else Some s);
                s \<leftarrow> ls_dir longfmt all_names n s;
                Some (0, s) }
              else do { s \<leftarrow> print_entry longfmt n s; Some (0, s) })
        (List.enumerate 0 rest) 0 s)"

text \<open>\<open>b.argv\<close> has 32 entries, and the NULL behind the last word is one of them.\<close>

definition cmd_ll :: command where
  "cmd_ll a s = (if length a + 1 < 32 then cmd_ls (''ls'' # ''-l'' # take 29 (tl a)) s else None)"

definition cmd_dir :: command where
  "cmd_dir a s = cmd_ls a s"

definition cmd_stat :: command where
  "cmd_stat a s =
     (case arg a 1 of None \<Rightarrow> complain 1 (''stat: missing operand'' @ [LF]) [] s
      | Some w \<Rightarrow>
          (case vfs_resolve s (Some w) of
             None \<Rightarrow> complain 1 (''stat: %s: no such file or directory'' @ [LF]) [A_string w] s
           | Some n \<Rightarrow> do {
               s \<leftarrow> sh_printf (''  File: %s'' @ [LF]) [A_string w] s;
               s \<leftarrow> sh_printf (''  Size: %-10u Type: %s'' @ [LF])
                      [A_int (of_nat (fsize (node s n))),
                       A_string (if is_dir s n then ''directory'' else ''regular file'')] s;
               s \<leftarrow> sh_printf (''  Access: (%s)  Uid: 0   Gid: 0'' @ [LF])
                      [A_string (if is_dir s n then ''0755/drwxr-xr-x'' else ''0644/-rw-r--r--'')] s;
               Some (0, s) }))"

section \<open>Creating and removing\<close>

definition cmd_mkdir :: command where
  "cmd_mkdir a s =
     (if length a < 2 then complain 1 (''mkdir: missing operand'' @ [LF]) [] s
      else for_each_rc (\<lambda>w s. do {
          (ok, s) \<leftarrow> vfs_mkdir w s;
          if ok then Some (0, s)
          else complain 1 (''mkdir: cannot create directory '' @ [QUOTE] @ ''%s'' @ [QUOTE, LF]) [A_string w] s })
        (tl a) 0 s)"

definition cmd_touch :: command where
  "cmd_touch a s =
     (if length a < 2 then complain 1 (''touch: missing operand'' @ [LF]) [] s
      else for_each_rc (\<lambda>w s.
          case vfs_resolve s (Some w) of
            None \<Rightarrow> do {
              (ok, s) \<leftarrow> vfs_mkfile w s;
              if ok then Some (0, s) else complain 1 (''touch: %s: failed'' @ [LF]) [A_string w] s }
          | Some n \<Rightarrow>
              if is_file s n then Some (0, s)
              else complain 1 (''touch: %s: is a directory'' @ [LF]) [A_string w] s)
        (tl a) 0 s)"

definition cmd_rm :: command where
  "cmd_rm a s =
     (let (fl, rest) = take_opts (tl a);
          rf = (CHR ''r'' \<in> set fl \<or> CHR ''R'' \<in> set fl \<or> CHR ''f'' \<in> set fl) in
      if rest = [] then complain 1 (''rm: missing operand'' @ [LF]) [] s
      else for_each_rc (\<lambda>w s.
          case vfs_resolve s (Some w) of
            None \<Rightarrow> complain 1 (''rm: %s: no such file or directory'' @ [LF]) [A_string w] s
          | Some n \<Rightarrow>
              if is_dir s n \<and> \<not> rf
              then complain 1 (''rm: %s: is a directory (use -r)'' @ [LF]) [A_string w] s
              else do {
                (ok, s) \<leftarrow> (if rf then vfs_rm_recursive w s else Some (vfs_rm w s));
                if ok then Some (0, s) else complain 1 (''rm: cannot remove %s'' @ [LF]) [A_string w] s })
        rest 0 s)"

definition cmd_rmdir :: command where
  "cmd_rmdir a s =
     (if length a < 2 then complain 1 (''rmdir: missing operand'' @ [LF]) [] s
      else for_each_rc (\<lambda>w s.
          case vfs_resolve s (Some w) of
            None \<Rightarrow> complain 1 (''rmdir: %s: no such directory'' @ [LF]) [A_string w] s
          | Some n \<Rightarrow>
              if \<not> is_dir s n then complain 1 (''rmdir: %s: no such directory'' @ [LF]) [A_string w] s
              else (let (ok, s) = vfs_rm w s in
                if ok then Some (0, s)
                else complain 1 (''rmdir: %s: directory not empty'' @ [LF]) [A_string w] s))
        (tl a) 0 s)"

section \<open>Copying and moving\<close>

text \<open>The path of a copy into a directory, built in buffers of 64 and 512 characters.\<close>

definition cp_into :: "string \<Rightarrow> string \<Rightarrow> string option" where
  "cp_into src dst =
     (let nm = vfs_basename src;
          full = dst @ (if last dst = CHR ''/'' then [] else ''/'') @ nm in
      if length nm < VFS_NAME_MAX \<and> length dst < 512 \<and> dst \<noteq> [] \<and> length full < 512
      then Some full else None)"

definition resolve_or_make :: "string \<Rightarrow> shell \<Rightarrow> (u64 option \<times> shell) option" where
  "resolve_or_make w s =
     (case vfs_resolve s (Some w) of
        Some n \<Rightarrow> Some (Some n, s)
      | None \<Rightarrow> do { (ok, s) \<leftarrow> vfs_mkfile w s; Some (vfs_resolve s (Some w), s) })"

definition cmd_cp :: command where
  "cmd_cp a s =
     (if length a < 3 then complain 1 (''cp: missing operand'' @ [LF]) [] s
      else
        (case vfs_resolve s (Some (a ! 1)) of
           None \<Rightarrow> complain 1 (''cp: %s: no such file'' @ [LF]) [A_string (a ! 1)] s
         | Some src \<Rightarrow>
             if \<not> is_file s src then complain 1 (''cp: %s: no such file'' @ [LF]) [A_string (a ! 1)] s
             else do {
               (dst, s) \<leftarrow>
                 (case vfs_resolve s (Some (a ! 2)) of
                    None \<Rightarrow> resolve_or_make (a ! 2) s
                  | Some d \<Rightarrow>
                      if is_dir s d then do { full \<leftarrow> cp_into (a ! 1) (a ! 2); resolve_or_make full s }
                      else Some (Some d, s));
               case dst of
                 None \<Rightarrow> complain 1 (''cp: %s: cannot write'' @ [LF]) [A_string (a ! 2)] s
               | Some d \<Rightarrow>
                   if is_file s d
                   then Some (0, snd (vfs_write_file (Some d) (content (node s src)) s))
                   else complain 1 (''cp: %s: cannot write'' @ [LF]) [A_string (a ! 2)] s }))"

definition cmd_mv :: command where
  "cmd_mv a s =
     (if length a < 3 then complain 1 (''mv: missing operand'' @ [LF]) [] s
      else do {
        (rc, s) \<leftarrow> cmd_cp a s;
        if rc \<noteq> 0 then Some (rc, s)
        else (let (ok, s) = vfs_rm (a ! 1) s in
          if ok then Some (0, s) else complain 1 (''mv: cannot remove %s'' @ [LF]) [A_string (a ! 1)] s) })"

section \<open>Walks\<close>

fun glob_match :: "string \<Rightarrow> string \<Rightarrow> bool" where
  "glob_match [] t \<longleftrightarrow> t = []"
| "glob_match (p # ps) [] \<longleftrightarrow> p = CHR ''*'' \<and> glob_match ps []"
| "glob_match (p # ps) (c # t) \<longleftrightarrow>
     (if p = CHR ''*'' then glob_match ps (c # t) \<or> glob_match (p # ps) t
      else if p = CHR ''?'' then glob_match ps t
      else c = p \<and> glob_match ps t)"

text \<open>The loops over the children, with the children that are left; \<open>np\<close> has 1024 characters.\<close>

partial_function (option) find_rec ::
  "u64 list \<Rightarrow> string \<Rightarrow> string option \<Rightarrow> shell \<Rightarrow> shell option" where
  "find_rec cs pre namepat s =
     (case cs of [] \<Rightarrow> Some s
      | c # cs \<Rightarrow> do {
          s \<leftarrow> (if (case namepat of None \<Rightarrow> True | Some p \<Rightarrow> glob_match p (name (node s c)))
                then do {
                  s \<leftarrow> sh_puts pre s;
                  s \<leftarrow> sh_puts (name (node s c)) s;
                  s \<leftarrow> (if is_dir s c then sh_putc CHR ''/'' s else Some s);
                  sh_putc LF s }
                else Some s);
          s \<leftarrow> (if is_dir s c
                then let np = pre @ name (node s c) @ ''/'' in
                  if length np < 1024 then find_rec (children (node s c)) np namepat s else None
                else Some s);
          find_rec cs pre namepat s })"

fun find_args :: "string list \<Rightarrow> string \<Rightarrow> string option \<Rightarrow> string \<times> string option" where
  "find_args [] start pat = (start, pat)"
| "find_args [w] start pat = (if w = [] \<or> hd w \<noteq> CHR ''-'' then (w, pat) else (start, pat))"
| "find_args (w # v # ws) start pat =
     (if w = ''-name'' then find_args ws start (Some v)
      else find_args (v # ws) (if w = [] \<or> hd w \<noteq> CHR ''-'' then w else start) pat)"

definition cmd_find :: command where
  "cmd_find a s =
     (let (start, pat) = find_args (tl a) ''.'' None in
      case vfs_resolve s (Some start) of
        None \<Rightarrow> complain 1 (''find: %s: no such directory'' @ [LF]) [A_string start] s
      | Some n \<Rightarrow>
          if \<not> is_dir s n then complain 1 (''find: %s: no such directory'' @ [LF]) [A_string start] s
          else do {
            s \<leftarrow> sh_puts ''./'' s;
            s \<leftarrow> sh_putc LF s;
            s \<leftarrow> find_rec (children (node s n)) ''./'' pat s;
            Some (0, s) })"

partial_function (option) tree_rec :: "u64 list \<Rightarrow> nat \<Rightarrow> shell \<Rightarrow> shell option" where
  "tree_rec cs depth s =
     (case cs of [] \<Rightarrow> Some s
      | c # cs \<Rightarrow> do {
          s \<leftarrow> sh_puts (concat (replicate depth ''    '')) s;
          s \<leftarrow> sh_puts ''|-- '' s;
          s \<leftarrow> sh_puts (name (node s c)) s;
          s \<leftarrow> (if is_dir s c then sh_putc CHR ''/'' s else Some s);
          s \<leftarrow> sh_putc LF s;
          s \<leftarrow> (if is_dir s c then tree_rec (children (node s c)) (depth + 1) s else Some s);
          tree_rec cs depth s })"

definition cmd_tree :: command where
  "cmd_tree a s =
     (case (case arg a 1 of Some w \<Rightarrow> vfs_resolve s (Some w) | None \<Rightarrow> Some (vfs_cwd s)) of
        None \<Rightarrow> complain 1 (''tree: no such directory'' @ [LF]) [] s
      | Some n \<Rightarrow>
          if \<not> is_dir s n then complain 1 (''tree: no such directory'' @ [LF]) [] s
          else do {
            s \<leftarrow> sh_puts (if name (node s n) \<noteq> [] then name (node s n) else ''/'') s;
            s \<leftarrow> sh_putc LF s;
            s \<leftarrow> tree_rec (children (node s n)) 0 s;
            Some (0, s) })"

text \<open>Files, directories and bytes below the nodes.\<close>

partial_function (option) count_rec ::
  "('z) fs_scheme \<Rightarrow> u64 list \<Rightarrow> nat \<times> nat \<times> nat \<Rightarrow> (nat \<times> nat \<times> nat) option" where
  "count_rec s ns acc =
     (case ns of [] \<Rightarrow> Some acc
      | n # ns \<Rightarrow>
          (case acc of (files, dirs, bytes) \<Rightarrow>
             if is_dir s n then do {
               acc \<leftarrow> count_rec s (children (node s n)) (files, dirs + 1, bytes);
               count_rec s ns acc }
             else count_rec s ns (files + 1, dirs, bytes + fsize (node s n))))"

definition cmd_du :: command where
  "cmd_du a s =
     (case (case arg a 1 of
              Some w \<Rightarrow> if w = [] \<or> hd w \<noteq> CHR ''-'' then vfs_resolve s (Some w) else Some (vfs_cwd s)
            | None \<Rightarrow> Some (vfs_cwd s)) of
        None \<Rightarrow> complain 1 (''du: no such file or directory'' @ [LF]) [] s
      | Some n \<Rightarrow> do {
          (files, dirs, bytes) \<leftarrow> count_rec s [n] (0, 0, 0);
          s \<leftarrow> sh_printf (''%u'' @ [TAB] @ ''%s'' @ [LF])
                 [A_int (of_nat ((bytes + 1023) div 1024)),
                  A_string (case arg a 1 of Some w \<Rightarrow> w | None \<Rightarrow> ''.'')] s;
          Some (0, s) })"

section \<open>Names and memory\<close>

definition cmd_basename :: command where
  "cmd_basename a s =
     (case arg a 1 of None \<Rightarrow> Some (1, s)
      | Some w \<Rightarrow> do { s \<leftarrow> put_line (vfs_basename w) s; Some (0, s) })"

definition dirname :: "string \<Rightarrow> string option" where
  "dirname w = do {
     let buf = take 1023 w;
     slash \<leftarrow> strrchr (buf @ [NUL]) (uc CHR ''/'');
     Some (case slash of None \<Rightarrow> ''.'' | Some i \<Rightarrow> if i = 0 then ''/'' else take i buf)
   }"

definition cmd_dirname :: command where
  "cmd_dirname a s =
     (case arg a 1 of None \<Rightarrow> Some (1, s)
      | Some w \<Rightarrow> do { d \<leftarrow> dirname w; s \<leftarrow> put_line d s; Some (0, s) })"

definition cmd_tee :: command where
  "cmd_tee a s =
     (if length a < 2 then complain 1 (''tee: missing file'' @ [LF]) [] s
      else
        let app = (a ! 1 = ''-a''); w = arg a (if app then 2 else 1) in do {
          (n, s) \<leftarrow>
            (case vfs_resolve s w of
               Some n \<Rightarrow> Some (Some n, s)
             | None \<Rightarrow> (case w of None \<Rightarrow> None | Some w \<Rightarrow> resolve_or_make w s));
          case n of
            None \<Rightarrow> Some (1, s)
          | Some n \<Rightarrow>
              if \<not> is_file s n then Some (1, s)
              else do {
                let s = (if app then s else vfs_truncate (Some n) s);
                (d, s) \<leftarrow> read_all_stdin s;
                case d of
                  None \<Rightarrow> Some (0, s)
                | Some t \<Rightarrow>
                    if t = [] then Some (0, s)
                    else do { s \<leftarrow> sh_write t s; Some (0, snd (vfs_append_file (Some n) t s)) } } })"

definition cmd_df :: command where
  "cmd_df a s = do {
     s \<leftarrow> sh_puts (''Filesystem     Size    Used   Avail Use% Mounted on'' @ [LF]) s;
     s \<leftarrow> sh_printf (''ramfs       %6uK %6uK %6uK  %u%% /'' @ [LF])
            [A_int (ucast (kheap_total s div 1024)),
             A_int (ucast (kheap_used s div 1024)),
             A_int (ucast ((kheap_total s - kheap_used s) div 1024)),
             A_int (ucast (if kheap_total s \<noteq> 0 then kheap_used s * 100 div kheap_total s else 0))] s;
     Some (0, s)
   }"

section \<open>\<open>test\<close>\<close>

definition cmd_test :: command where
  "cmd_test a s =
     (if a ! 0 = ''['' \<and> (length a < 2 \<or> last a \<noteq> '']'') then complain 2 (''[: missing ]'' @ [LF]) [] s
      else
        let argc = (if a ! 0 = ''['' then length a - 1 else length a) in
        if argc = 2 then Some (if a ! 1 = [] then 0 else 1, s)
        else if argc = 3 then
          (let op = a ! 1; n = vfs_resolve s (Some (a ! 2)) in
           if op = ''-f'' then Some (case n of Some v \<Rightarrow> if is_file s v then 0 else 1 | None \<Rightarrow> 1, s)
           else if op = ''-d'' then Some (case n of Some v \<Rightarrow> if is_dir s v then 0 else 1 | None \<Rightarrow> 1, s)
           else if op = ''-e'' then Some (if n \<noteq> None then 0 else 1, s)
           else Some (1, s))
        else if argc = 4 then do {
          let lhs = a ! 1;
          let op = a ! 2;
          let rhs = a ! 3;
          l \<leftarrow> atoi_str lhs;
          r \<leftarrow> atoi_str rhs;
          if op = ''='' then Some (if lhs = rhs then 0 else 1, s)
          else if op = ''!='' then Some (if lhs \<noteq> rhs then 0 else 1, s)
          else if op = ''-eq'' then Some (if l = r then 0 else 1, s)
          else if op = ''-ne'' then Some (if l \<noteq> r then 0 else 1, s)
          else if op = ''-lt'' then Some (if l < r then 0 else 1, s)
          else if op = ''-gt'' then Some (if l > r then 0 else 1, s)
          else if op = ''-le'' then Some (if l \<le> r then 0 else 1, s)
          else if op = ''-ge'' then Some (if l \<ge> r then 0 else 1, s)
          else Some (1, s) }
        else Some (1, s))"

end
