(* ===== verification/Cmd_Text.thy ===== *)
theory Cmd_Text
  imports Cmd_Base
begin

text \<open>
  The text commands of \<open>src/cmds.c\<close>.  What a command prints is computed from the input by the loops
  of the C code, here recursive functions over the text or its lines, and then printed; printing
  does not change the input, which has been read or copied before.
\<close>

section \<open>\<open>echo\<close>, \<open>printf\<close>, \<open>cat\<close>\<close>

definition cmd_echo :: command where
  "cmd_echo a s =
     (let n = (arg a 1 = Some ''-n''); ws = drop (if n then 2 else 1) a in do {
        s \<leftarrow> for_each (\<lambda>(i, w) s. do {
                s \<leftarrow> (if i > 0 then sh_putc CHR '' '' s else Some s);
                sh_puts w s }) (List.enumerate 0 ws) s;
        s \<leftarrow> (if n then Some s else sh_putc LF s);
        Some (0, s) })"

fun printf_escapes :: "string \<Rightarrow> string" where
  "printf_escapes [] = []"
| "printf_escapes [c] = [c]"
| "printf_escapes (c # d # t) =
     (if c = BSLASH
      then (if d = CHR ''n'' then LF else if d = CHR ''t'' then TAB else d) # printf_escapes t
      else c # printf_escapes (d # t))"

definition cmd_printf :: command where
  "cmd_printf a s = do { s \<leftarrow> for_each (\<lambda>w. sh_puts (printf_escapes w)) (tl a) s; Some (0, s) }"

definition cmd_cat :: command where
  "cmd_cat a s =
     (if length a < 2 then do {
        (d, s) \<leftarrow> read_all_stdin s;
        s \<leftarrow> (case d of None \<Rightarrow> Some s | Some t \<Rightarrow> sh_write t s);
        Some (0, s) }
      else for_each_rc (\<lambda>w s. do {
          (f, s) \<leftarrow> open_input (Some w) s;
          case f of None \<Rightarrow> Some (1, s) | Some t \<Rightarrow> do { s \<leftarrow> sh_write t s; Some (0, s) } })
        (tl a) 0 s)"

section \<open>\<open>head\<close> and \<open>tail\<close>\<close>

text \<open>The count and the index of the first word behind the options.\<close>

definition count_opt :: "string list \<Rightarrow> (int \<times> nat) option" where
  "count_opt a =
     (case arg a 1 of
        Some (c # d # r) \<Rightarrow>
          if c = CHR ''-'' \<and> isdigit (uc d) then do { n \<leftarrow> atoi_str (d # r); Some (n, 2) }
          else if length a \<ge> 3 \<and> c # d # r = ''-n'' then do { n \<leftarrow> atoi_str (a ! 2); Some (n, 3) }
          else Some (10, 1)
      | _ \<Rightarrow> Some (10, 1))"

fun head_text :: "nat \<Rightarrow> string \<Rightarrow> string" where
  "head_text n [] = []"
| "head_text n (c # d) = (if n = 0 then [] else c # head_text (if c = LF then n - 1 else n) d)"

definition cmd_head :: command where
  "cmd_head a s = do {
     (n, idx) \<leftarrow> count_opt a;
     (f, s) \<leftarrow> open_input (arg a idx) s;
     case f of
       None \<Rightarrow> Some (1, s)
     | Some t \<Rightarrow> do { s \<leftarrow> sh_write (head_text (nat (n mod 2 ^ 64)) t) s; Some (0, s) }
   }"

text \<open>The scan from the end; its argument is the reverse of \<open>data[0 .. i)\<close>, its result \<open>start\<close>.\<close>

fun tail_start :: "int \<Rightarrow> int \<Rightarrow> string \<Rightarrow> nat" where
  "tail_start n lines [] = 0"
| "tail_start n lines (c # r) =
     (if c = LF then (if lines + 1 = n then length (c # r) else tail_start n (lines + 1) r)
      else tail_start n lines r)"

definition tail_text :: "int \<Rightarrow> string \<Rightarrow> string" where
  "tail_text n t = drop (tail_start n 0 (rev t)) t"

definition cmd_tail :: command where
  "cmd_tail a s = do {
     (n, idx) \<leftarrow> count_opt a;
     (f, s) \<leftarrow> open_input (arg a idx) s;
     case f of
       None \<Rightarrow> Some (1, s)
     | Some t \<Rightarrow> do { s \<leftarrow> sh_write (tail_text n t) s; Some (0, s) }
   }"

section \<open>\<open>wc\<close>\<close>

definition wc_blank :: "char \<Rightarrow> bool" where
  "wc_blank c \<longleftrightarrow> c = CHR '' '' \<or> c = TAB \<or> c = LF \<or> c = CR"

fun wc_loop :: "string \<Rightarrow> nat \<times> nat \<times> bool \<Rightarrow> nat \<times> nat" where
  "wc_loop [] (ls, ws, inw) = (ls, ws)"
| "wc_loop (c # d) (ls, ws, inw) =
     wc_loop d (if c = LF then ls + 1 else ls,
       if wc_blank c then ws else if inw then ws else ws + 1, \<not> wc_blank c)"

definition cmd_wc :: command where
  "cmd_wc a s =
     (let (fl, rest) = take_opts (tl a);
          none = (CHR ''l'' \<notin> set fl \<and> CHR ''w'' \<notin> set fl \<and> CHR ''c'' \<notin> set fl);
          path = arg rest 0 in do {
        (f, s) \<leftarrow> open_input path s;
        case f of
          None \<Rightarrow> Some (1, s)
        | Some t \<Rightarrow>
            let (ls, ws) = wc_loop t (0, 0, False) in do {
              s \<leftarrow> (if none \<or> CHR ''l'' \<in> set fl then sh_printf ''%u '' [A_int (of_nat ls)] s else Some s);
              s \<leftarrow> (if none \<or> CHR ''w'' \<in> set fl then sh_printf ''%u '' [A_int (of_nat ws)] s else Some s);
              s \<leftarrow> (if none \<or> CHR ''c'' \<in> set fl then sh_printf ''%u '' [A_int (of_nat (length t))] s else Some s);
              s \<leftarrow> (case path of Some p \<Rightarrow> sh_puts p s | None \<Rightarrow> Some s);
              s \<leftarrow> sh_putc LF s;
              Some (0, s) } })"

section \<open>\<open>grep\<close>\<close>

text \<open>The comparison at one position, and the search over the positions.\<close>

fun grep_here :: "bool \<Rightarrow> string \<Rightarrow> string \<Rightarrow> bool" where
  "grep_here ci [] l = True"
| "grep_here ci (y # p) [] = False"
| "grep_here ci (y # p) (x # l) =
     ((if ci then tolower (uc x) = tolower (uc y) else x = y) \<and> grep_here ci p l)"

fun grep_match :: "bool \<Rightarrow> string \<Rightarrow> string \<Rightarrow> bool" where
  "grep_match ci pat [] = (pat = [])"
| "grep_match ci pat (x # l) =
     (pat = [] \<or> (length pat \<le> length (x # l) \<and> (grep_here ci pat (x # l) \<or> grep_match ci pat l)))"

definition cmd_grep :: command where
  "cmd_grep a s =
     (let (fl, rest) = take_opts (tl a); ci = (CHR ''i'' \<in> set fl); inv = (CHR ''v'' \<in> set fl) in
      case rest of
        [] \<Rightarrow> complain 2 (''grep: missing pattern'' @ [LF]) [] s
      | pat # rest \<Rightarrow> do {
          (f, s) \<leftarrow> open_input (arg rest 0) s;
          case f of
            None \<Rightarrow> Some (2, s)
          | Some t \<Rightarrow> do {
              (ls, s) \<leftarrow> split_lines t s;
              let hits = filter (\<lambda>l. grep_match ci pat l \<noteq> inv) ls;
              s \<leftarrow> for_each put_line hits s;
              Some (if hits \<noteq> [] then 0 else 1, s) } })"

section \<open>\<open>sort\<close> and \<open>uniq\<close>\<close>

definition cmp_str_num :: "string \<Rightarrow> string \<Rightarrow> int option" where
  "cmp_str_num x y = do {
     a \<leftarrow> atoi_str x;
     b \<leftarrow> atoi_str y;
     if a < b then Some (- 1) else if a > b then Some 1 else cmp_str x y
   }"

definition sort_cmp :: "bool \<Rightarrow> bool \<Rightarrow> string \<Rightarrow> string \<Rightarrow> int option" where
  "sort_cmp num reverse x y = do {
     c \<leftarrow> (if num then cmp_str_num x y else cmp_str x y);
     Some (if reverse then - c else c)
   }"

text \<open>Insertion sort: the sorted part of the array is kept with its last line first, as the inner
  loop runs through it.\<close>

fun shift_in :: "(string \<Rightarrow> string \<Rightarrow> int option) \<Rightarrow> string \<Rightarrow> string list \<Rightarrow> string list option" where
  "shift_in cmp key [] = Some [key]"
| "shift_in cmp key (l # p) = do {
     c \<leftarrow> cmp key l;
     if c < 0 then do { p \<leftarrow> shift_in cmp key p; Some (l # p) } else Some (key # l # p)
   }"

fun sort_loop :: "(string \<Rightarrow> string \<Rightarrow> int option) \<Rightarrow> string list \<Rightarrow> string list \<Rightarrow> string list option" where
  "sort_loop cmp done_rev [] = Some (rev done_rev)"
| "sort_loop cmp done_rev (key # ls) = do { p \<leftarrow> shift_in cmp key done_rev; sort_loop cmp p ls }"

fun drop_repeats :: "string option \<Rightarrow> string list \<Rightarrow> string list" where
  "drop_repeats prev [] = []"
| "drop_repeats prev (l # ls) =
     (if prev = Some l then drop_repeats prev ls else l # drop_repeats (Some l) ls)"

definition cmd_sort :: command where
  "cmd_sort a s =
     (let (fl, rest) = take_opts (tl a) in do {
        (f, s) \<leftarrow> open_input (arg rest 0) s;
        case f of
          None \<Rightarrow> Some (2, s)
        | Some t \<Rightarrow> do {
            (ls, s) \<leftarrow> split_lines t s;
            ls \<leftarrow> sort_loop (sort_cmp (CHR ''n'' \<in> set fl) (CHR ''r'' \<in> set fl)) [] ls;
            s \<leftarrow> for_each put_line (if CHR ''u'' \<in> set fl then drop_repeats None ls else ls) s;
            Some (0, s) } })"

fun uniq_runs :: "nat \<Rightarrow> string list \<Rightarrow> (nat \<times> string) list" where
  "uniq_runs run [] = []"
| "uniq_runs run [l] = [(run + 1, l)]"
| "uniq_runs run (l # m # ls) =
     (if l = m then uniq_runs (run + 1) (m # ls) else (run + 1, l) # uniq_runs 0 (m # ls))"

definition cmd_uniq :: command where
  "cmd_uniq a s =
     (let (fl, rest) = take_opts (tl a) in do {
        (f, s) \<leftarrow> open_input (arg rest 0) s;
        case f of
          None \<Rightarrow> Some (1, s)
        | Some t \<Rightarrow> do {
            (ls, s) \<leftarrow> split_lines t s;
            s \<leftarrow> for_each (\<lambda>(n, l) s. do {
                    s \<leftarrow> (if CHR ''c'' \<in> set fl then sh_printf ''%7d '' [A_dec (int n)] s else Some s);
                    put_line l s }) (uniq_runs 0 ls) s;
            Some (0, s) } })"

section \<open>\<open>diff\<close>\<close>

text \<open>The table, row by row from the last one: row \<open>i\<close> from row \<open>i + 1\<close> (\<open>nxt\<close>) and its last entry.  The
  entries have 16 bits.\<close>

fun diff_row :: "string \<Rightarrow> string list \<Rightarrow> u16 list \<Rightarrow> u16 \<Rightarrow> u16 list" where
  "diff_row x [] nxt e = [e]"
| "diff_row x (y # ys) nxt e =
     (let row = diff_row x ys (tl nxt) e;
          best = uint (nxt ! 1) + (if x \<noteq> y then 1 else 0);
          del = uint (nxt ! 0) + 1;
          ins = uint (hd row) + 1;
          best = (if del < best then del else best);
          best = (if ins < best then ins else best)
      in word_of_int best # row)"

fun diff_table :: "string list \<Rightarrow> string list \<Rightarrow> u16 list list" where
  "diff_table [] lb = [map (\<lambda>j. of_nat (length lb - j)) [0..<length lb + 1]]"
| "diff_table (x # la) lb =
     (let rows = diff_table la lb in diff_row x lb (hd rows) (of_nat (length (x # la))) # rows)"

text \<open>The walk through the table: the lines that are printed, those of the second file marked.\<close>

function diff_script :: "u16 list list \<Rightarrow> string list \<Rightarrow> string list \<Rightarrow> nat \<Rightarrow> nat \<Rightarrow> (bool \<times> string) list" where
  "diff_script d la lb i j =
     (if i < length la \<or> j < length lb then
        (if i < length la \<and> j < length lb \<and> la ! i = lb ! j then diff_script d la lb (i + 1) (j + 1)
         else if j < length lb \<and> (i \<ge> length la \<or> uint (d ! i ! j) = uint (d ! i ! (j + 1)) + 1) then
           (True, lb ! j) # diff_script d la lb i (j + 1)
         else if i < length la \<and> (j \<ge> length lb \<or> uint (d ! i ! j) = uint (d ! (i + 1) ! j) + 1) then
           (False, la ! i) # diff_script d la lb (i + 1) j
         else if i < length la \<and> j < length lb then
           (False, la ! i) # (True, lb ! j) # diff_script d la lb (i + 1) (j + 1)
         else if i < length la then (False, la ! i) # diff_script d la lb (i + 1) j
         else (True, lb ! j) # diff_script d la lb i (j + 1))
      else [])"
  by pat_completeness auto
termination diff_script
  by (relation "measure (\<lambda>(d, la, lb, i, j). (length la - i) + (length lb - j))") auto

declare diff_script.simps [simp del]

definition cmd_diff :: command where
  "cmd_diff a s =
     (if length a < 3 then complain 2 (''diff: two files required'' @ [LF]) [] s
      else do {
        (fa, s) \<leftarrow> open_input (arg a 1) s;
        case fa of
          None \<Rightarrow> Some (2, s)
        | Some ta \<Rightarrow> do {
            (fb, s) \<leftarrow> open_input (arg a 2) s;
            case fb of
              None \<Rightarrow> Some (2, s)
            | Some tb \<Rightarrow> do {
                (la, s) \<leftarrow> split_lines ta s;
                (lb, s) \<leftarrow> split_lines tb s;
                case kmalloc (of_nat (2 * (length la + 1) * (length lb + 1))) s of
                  (None, s) \<Rightarrow> complain 1 (''diff: out of memory'' @ [LF]) [] s
                | (Some p, s) \<Rightarrow>
                    let d = diff_table la lb in
                    if d ! 0 ! 0 = 0 then complain 0 (''Files are identical'' @ [LF]) [] s
                    else do {
                      s \<leftarrow> for_each (\<lambda>(add, l). sh_printf ((if add then ''> %s'' else ''< %s'') @ [LF]) [A_string l])
                             (diff_script d la lb 0 0) s;
                      Some (1, s) } } } })"

section \<open>\<open>rev\<close> and \<open>nl\<close>\<close>

definition cmd_rev :: command where
  "cmd_rev a s = do {
     (f, s) \<leftarrow> open_input (arg a 1) s;
     case f of
       None \<Rightarrow> Some (1, s)
     | Some t \<Rightarrow> do {
         (ls, s) \<leftarrow> split_lines t s;
         s \<leftarrow> for_each (\<lambda>l. put_line (rev l)) ls s;
         Some (0, s) }
   }"

definition cmd_nl :: command where
  "cmd_nl a s = do {
     (f, s) \<leftarrow> open_input (arg a 1) s;
     case f of
       None \<Rightarrow> Some (1, s)
     | Some t \<Rightarrow> do {
         (ls, s) \<leftarrow> split_lines t s;
         s \<leftarrow> for_each (\<lambda>(i, l). sh_printf (''%6d'' @ [TAB] @ ''%s'' @ [LF]) [A_dec (int i + 1), A_string l])
                (List.enumerate 0 ls) s;
         Some (0, s) }
   }"

end
