(* ===== verification/Cmd_Sys.thy ===== *)
theory Cmd_Sys
  imports Cmd_Fs Cmd_Text "HOL-Library.Signed_Division"
begin

text \<open>
  The remaining commands of \<open>src/cmds.c\<close>: system information, the clock and the calendar, numbers,
  and the end of the session; and the table through which the shell finds a command.
\<close>

section \<open>Fixed texts\<close>

definition cmd_clear :: command where
  "cmd_clear a s = Some (0, s\<lparr>screen := vga_clear (screen s)\<rparr>)"

definition about_banner :: string where
  "about_banner =
     ''  ____  ___      _           ___  ____'' @ [LF]
     @ '' | __ )/ _ '' @ [BSLASH] @ '' __ | | __ _ _ _/ _ '' @ [BSLASH] @ ''/ ___|'' @ [LF]
     @ '' |  _ '' @ [BSLASH] @ '' | | |  '' @ [BSLASH] @ ''| |/ _'' @ [CHR 0x60] @ '' | '' @ [QUOTE] @ ''_| | | '' @ [BSLASH] @ ''___ '' @ [BSLASH, LF]
     @ '' | |_) | |_| | |  | (_| | | | |_| |___) |'' @ [LF]
     @ '' |____/ '' @ [BSLASH] @ ''___/|_|'' @ [BSLASH] @ ''_|'' @ [BSLASH] @ ''__,_|_|  '' @ [BSLASH] @ ''___/|____/'' @ [LF, LF]"

definition help_text :: string where
  "help_text =
     ''Built-in commands:'' @ [LF]
     @ ''  help about ls ll dir cd pwd mkdir rmdir rm touch cp mv'' @ [LF]
     @ ''  cat head tail wc sort uniq diff grep find tree stat'' @ [LF]
     @ ''  echo printf rev nl tee basename dirname df du free'' @ [LF]
     @ ''  date cal uptime sleep seq factor history'' @ [LF]
     @ ''  uname hostname whoami id lscpu clear'' @ [LF]
     @ ''  true false test [ exit reboot poweroff'' @ [LF]
     @ ''Operators: >  >>  <  |  $?  ~'' @ [LF]"

definition cmd_about :: command where
  "cmd_about a s = do {
     let s = s\<lparr>screen := vga_setcolor 0x0E 0x00 (screen s)\<rparr>;
     s \<leftarrow> sh_puts about_banner s;
     let s = s\<lparr>screen := vga_setcolor 0x07 0x00 (screen s)\<rparr>;
     s \<leftarrow> sh_puts (''BojanOS 1.0 - a 64-bit operating system written from scratch'' @ [LF]) s;
     s \<leftarrow> sh_puts (''  own bootloader, long-mode kernel, drivers, filesystem and shell'' @ [LF]) s;
     s \<leftarrow> sh_printf (''  CPU: %s   Memory: %u KB'' @ [LF]) [A_string (cpu_vendor s), A_int (total_mem_kb s)] s;
     s \<leftarrow> sh_puts (''Type '' @ [QUOTE] @ ''help'' @ [QUOTE] @ '' for commands.'' @ [LF]) s;
     Some (0, s)
   }"

definition cmd_help :: command where
  "cmd_help a s = do { s \<leftarrow> sh_puts help_text s; Some (0, s) }"

definition cmd_lscpu :: command where
  "cmd_lscpu a s = do {
     s \<leftarrow> sh_puts (''Architecture:        x86_64'' @ [LF]) s;
     s \<leftarrow> sh_printf (''CPU(s):              1'' @ [LF]) [] s;
     s \<leftarrow> sh_printf (''Model name:          %s'' @ [LF]) [A_string (cpu_vendor s)] s;
     s \<leftarrow> sh_puts (''CPU mode:            64-bit'' @ [LF]) s;
     Some (0, s)
   }"

definition cmd_whoami :: command where
  "cmd_whoami a s = do { s \<leftarrow> sh_puts (''root'' @ [LF]) s; Some (0, s) }"

definition cmd_id :: command where
  "cmd_id a s = do { s \<leftarrow> sh_puts (''uid=0(root) gid=0(root) groups=0(root)'' @ [LF]) s; Some (0, s) }"

definition cmd_true :: command where
  "cmd_true a s = Some (0, s)"

definition cmd_false :: command where
  "cmd_false a s = Some (1, s)"

section \<open>The system\<close>

definition cmd_free :: command where
  "cmd_free a s = do {
     s \<leftarrow> sh_puts (''              total        used        free'' @ [LF]) s;
     let used_kb = (ucast (kheap_used s div 1024) :: u32);
     s \<leftarrow> sh_printf (''Mem:       %8uK   %8uK   %8uK'' @ [LF])
            [A_int (total_mem_kb s), A_int used_kb,
             A_int (if total_mem_kb s > used_kb then total_mem_kb s - used_kb else 0)] s;
     s \<leftarrow> sh_puts (''Swap:             0            0            0'' @ [LF]) s;
     Some (0, s)
   }"

definition cmd_uname :: command where
  "cmd_uname a s =
     (let all_info = list_ex (\<lambda>w. case w of c # f \<Rightarrow> c = CHR ''-'' \<and> CHR ''a'' \<in> set f | [] \<Rightarrow> False) (tl a) in do {
        s \<leftarrow> sh_puts ((if all_info then ''BojanOS 1.0 bojanos x86_64 GNU/BojanOS'' else ''BojanOS'') @ [LF]) s;
        Some (0, s) })"

definition cmd_hostname :: command where
  "cmd_hostname a s =
     (case arg a 1 of
        Some w \<Rightarrow> Some (0, s\<lparr>shell_hostname := take 31 w\<rparr>)
      | None \<Rightarrow> do { s \<leftarrow> put_line (shell_hostname s) s; Some (0, s) })"

definition cmd_history :: command where
  "cmd_history a s = do {
     s \<leftarrow> for_each (\<lambda>i s. sh_printf (''%4d  %s'' @ [LF]) [A_dec (int i + 1), A_str (shell_get_history (int i) s)] s)
            [0..<shell_history_count s] s;
     Some (0, s)
   }"

section \<open>The clock and the calendar\<close>

definition months :: "string list" where
  "months = [''Jan'', ''Feb'', ''Mar'', ''Apr'', ''May'', ''Jun'', ''Jul'', ''Aug'', ''Sep'', ''Oct'', ''Nov'', ''Dec'']"

definition month_names :: "string list" where
  "month_names = [''January'', ''February'', ''March'', ''April'', ''May'', ''June'', ''July'',
     ''August'', ''September'', ''October'', ''November'', ''December'']"

definition day_names :: "string list" where
  "day_names = [''Sun'', ''Mon'', ''Tue'', ''Wed'', ''Thu'', ''Fri'', ''Sat'']"

definition date_dow :: "rtc_time \<Rightarrow> int" where
  "date_dow t = (uint (day t) + uint (month t) + uint (year t) + uint (year t) div 4) mod 7"

definition read_clock :: "shell \<Rightarrow> (rtc_time \<times> shell) option" where
  "read_clock s = do { (t, n) \<leftarrow> rtc_read (cmos s) (cmos_reads s); Some (t, s\<lparr>cmos_reads := n\<rparr>) }"

definition cmd_date :: command where
  "cmd_date a s = do {
     (t, s) \<leftarrow> read_clock s;
     s \<leftarrow> sh_printf (''%s %s %2u %02u:%02u:%02u UTC %u'' @ [LF])
            [A_string (day_names ! nat (date_dow t)),
             A_string (if month t \<ge> 1 \<and> month t \<le> 12 then months ! (unat (month t) - 1) else ''???''),
             A_int (ucast (day t)), A_int (ucast (hour t)), A_int (ucast (minute t)),
             A_int (ucast (second t)), A_int (ucast (year t))] s;
     Some (0, s)
   }"

text \<open>Division and remainder of \<open>int\<close> truncate towards zero.\<close>

definition zeller :: "int \<Rightarrow> int \<Rightarrow> int \<Rightarrow> int" where
  "zeller y m d =
     (let (y, m) = (if m < 3 then (y - 1, m + 12) else (y, m));
          k = y smod 100;
          j = y sdiv 100;
          h = (d + 13 * (m + 1) sdiv 5 + k + k sdiv 4 + j sdiv 4 + 5 * j) smod 7
      in (h + 6) smod 7)"

definition days_in_month :: "int \<Rightarrow> int \<Rightarrow> int" where
  "days_in_month y m =
     (if m = 2 \<and> ((y smod 4 = 0 \<and> y smod 100 \<noteq> 0) \<or> y smod 400 = 0) then 29
      else [31, 28, 31, 30, 31, 30, 31, 31, 30, 31, 30, 31] ! nat (m - 1))"

definition cal_days :: "int \<Rightarrow> int \<Rightarrow> shell \<Rightarrow> shell option" where
  "cal_days first dim s = do {
     s \<leftarrow> for_each (\<lambda>i. sh_puts ''   '') [0..<nat first] s;
     s \<leftarrow> for_each (\<lambda>d s. do {
            s \<leftarrow> sh_printf ''%2d '' [A_dec (int d)] s;
            if (first + int d) mod 7 = 0 then sh_putc LF s else Some s }) [1..<nat dim + 1] s;
     if (first + dim) mod 7 \<noteq> 0 then sh_putc LF s else Some s
   }"

definition cmd_cal :: command where
  "cmd_cal a s = do {
     (now, s) \<leftarrow> read_clock s;
     (month, year) \<leftarrow>
       (case (arg a 1, arg a 2) of
          (Some m, Some y) \<Rightarrow> do { m \<leftarrow> atoi_str m; y \<leftarrow> atoi_str y; Some (m, y) }
        | (Some m, None) \<Rightarrow> do { m \<leftarrow> atoi_str m; Some (m, uint (year now)) }
        | (None, _) \<Rightarrow> Some (uint (month now), uint (year now)));
     let month = (if month < 1 \<or> month > 12 then uint (Clock.month now) else month);
     if month < 1 \<or> month > 12 then None
     else do {
       s \<leftarrow> sh_printf (''    %s %u'' @ [LF]) [A_string (month_names ! nat (month - 1)), A_dec year] s;
       s \<leftarrow> sh_puts (''Su Mo Tu We Th Fr Sa'' @ [LF]) s;
       s \<leftarrow> cal_days (zeller year month 1) (days_in_month year month) s;
       Some (0, s) }
   }"

definition cmd_uptime :: command where
  "cmd_uptime a s =
     (let sec = timer_uptime_ms (ticks s) div 1000 in do {
        s \<leftarrow> sh_printf ('' %02u:%02u:%02u up %u:%02u,  1 user,  load average: 0.00, 0.00, 0.00'' @ [LF])
               [A_int (ucast ((sec div 3600) mod 24)), A_int (ucast ((sec div 60) mod 60)),
                A_int (ucast (sec mod 60)), A_int (ucast (sec div 3600)),
                A_int (ucast ((sec div 60) mod 60))] s;
        Some (0, s) })"

definition cmd_sleep :: command where
  "cmd_sleep a s =
     (case arg a 1 of
        None \<Rightarrow> Some (1, s)
      | Some w \<Rightarrow> do {
          secs \<leftarrow> atoi_str w;
          t \<leftarrow> sleep_ms (word_of_int secs * 1000) (ticks s);
          Some (0, s\<lparr>ticks := t\<rparr>) })"

section \<open>Numbers\<close>

text \<open>The two loops of \<open>seq\<close>; \<open>step\<close> is positive in the first and negative in the second.  The values stay
  within 33 bits, so the \<open>long\<close> does not overflow.\<close>

function seq_up :: "int \<Rightarrow> int \<Rightarrow> int \<Rightarrow> int list" where
  "seq_up v step e = (if 0 < step \<and> v \<le> e then v # seq_up (v + step) step e else [])"
  by pat_completeness auto
termination seq_up by (relation "measure (\<lambda>(v, step, e). nat (e + 1 - v))") auto

function seq_down :: "int \<Rightarrow> int \<Rightarrow> int \<Rightarrow> int list" where
  "seq_down v step e = (if step < 0 \<and> v \<ge> e then v # seq_down (v + step) step e else [])"
  by pat_completeness auto
termination seq_down by (relation "measure (\<lambda>(v, step, e). nat (v + 1 - e))") auto

declare seq_up.simps [simp del] seq_down.simps [simp del]

definition seq_args :: "string list \<Rightarrow> (int \<times> int \<times> int) option" where
  "seq_args a =
     (if length a = 2 then do { e \<leftarrow> atoi_str (a ! 1); Some (1, 1, e) }
      else if length a = 3 then do { v \<leftarrow> atoi_str (a ! 1); e \<leftarrow> atoi_str (a ! 2); Some (v, 1, e) }
      else if length a \<ge> 4 then do {
        v \<leftarrow> atoi_str (a ! 1); st \<leftarrow> atoi_str (a ! 2); e \<leftarrow> atoi_str (a ! 3); Some (v, st, e) }
      else Some (1, 1, 1))"

definition cmd_seq :: command where
  "cmd_seq a s = do {
     (start, step, e) \<leftarrow> seq_args a;
     if step = 0 then Some (1, s)
     else do {
       s \<leftarrow> for_each (\<lambda>v. sh_printf (''%d'' @ [LF]) [A_dec v])
              (if step > 0 then seq_up start step e else seq_down start step e) s;
       Some (0, s) }
   }"

text \<open>Trial division: the inner loop divides \<open>n\<close> by \<open>d\<close> as long as it can, the outer one tries the
  divisors up to the square root of what is left.  The result is what is printed.\<close>

function divide_out :: "int \<Rightarrow> int \<Rightarrow> int list \<times> int" where
  "divide_out d n =
     (if 2 \<le> d \<and> 1 \<le> n \<and> n mod d = 0 then (let (fs, m) = divide_out d (n div d) in (d # fs, m))
      else ([], n))"
  by pat_completeness auto
termination divide_out
  by (relation "measure (\<lambda>(d, n). nat n)") (auto simp: nat_mono_iff int_div_less_self)

declare divide_out.simps [simp del]

lemma divide_out_bounds: "1 \<le> n \<Longrightarrow> 1 \<le> snd (divide_out d n) \<and> snd (divide_out d n) \<le> n"
proof (induction d n rule: divide_out.induct)
  case (1 d n)
  show ?case
  proof (cases "2 \<le> d \<and> 1 \<le> n \<and> n mod d = 0")
    case True
    then have q: "1 \<le> n div d" "n div d \<le> n"
      using zdvd_imp_le [of d n] by (auto simp: mod_eq_0_iff_dvd pos_imp_zdiv_pos_iff
          intro: int_div_less_self [THEN order.strict_implies_order] simp flip: int_one_le_iff_zero_less)
    have "divide_out d n = (d # fst (divide_out d (n div d)), snd (divide_out d (n div d)))"
      using True by (simp add: divide_out.simps [of d n] case_prod_unfold Let_def)
    then show ?thesis using 1 True q by simp
  next
    case False
    then show ?thesis using 1 by (subst divide_out.simps, subst (2) divide_out.simps) auto
  qed
qed

function factor_loop :: "int \<Rightarrow> int \<Rightarrow> int list" where
  "factor_loop d n =
     (if 2 \<le> d \<and> d * d \<le> n
      then fst (divide_out d n) @ factor_loop (d + 1) (snd (divide_out d n))
      else if n > 1 then [n] else [])"
  by pat_completeness auto
termination factor_loop
proof (relation "measure (\<lambda>(d, n). nat (n + 1 - d))", goal_cases)
  case (2 d n)
  have "d * 1 \<le> d * d" using 2 by (intro mult_left_mono) auto
  then have "d \<le> d * d" by (simp only: mult_1_right)
  then have "d \<le> n" using 2 by linarith
  then show ?case using 2 divide_out_bounds [of n d] by simp
qed simp

declare factor_loop.simps [simp del]

definition cmd_factor :: command where
  "cmd_factor a s =
     (case arg a 1 of
        None \<Rightarrow> complain 1 (''factor: missing number'' @ [LF]) [] s
      | Some w \<Rightarrow> do {
          n \<leftarrow> atoi_str w;
          s \<leftarrow> sh_printf ''%d:'' [A_dec n] s;
          s \<leftarrow> (if n < 2 then Some s else for_each (\<lambda>f. sh_printf '' %d'' [A_dec f]) (factor_loop 2 n) s);
          s \<leftarrow> sh_putc LF s;
          Some (0, s) })"

section \<open>The end of the session, and the table\<close>

text \<open>A handler is a command that returns an exit code, or one after which the processor is halted (or
  reset) for good; there the exit code is \<open>None\<close>.\<close>

type_synonym handler = "string list \<Rightarrow> shell \<Rightarrow> (int option \<times> shell) option"

definition returns :: "command \<Rightarrow> handler" where
  "returns c a s = do { (rc, s) \<leftarrow> c a s; Some (Some rc, s) }"

definition cmd_exit :: handler where
  "cmd_exit a s = do { s \<leftarrow> sh_puts (''logout'' @ [LF]) s; Some (None, s) }"

definition cmd_reboot :: handler where
  "cmd_reboot a s = do { s \<leftarrow> sh_puts (''rebooting...'' @ [LF]) s; Some (None, s) }"

definition cmd_poweroff :: handler where
  "cmd_poweroff a s = do {
     s \<leftarrow> sh_puts (''System halted. You can power off the VM.'' @ [LF]) s; Some (None, s) }"

definition commands :: "(string \<times> handler \<times> string) list" where
  "commands =
    [(''help'', returns cmd_help, ''show help''),
     (''about'', returns cmd_about, ''about BojanOS''),
     (''echo'', returns cmd_echo, ''print text''),
     (''printf'', returns cmd_printf, ''formatted print''),
     (''clear'', returns cmd_clear, ''clear screen''),
     (''cls'', returns cmd_clear, ''clear screen''),
     (''pwd'', returns cmd_pwd, ''print working directory''),
     (''cd'', returns cmd_cd, ''change directory''),
     (''ls'', returns cmd_ls, ''list directory''),
     (''ll'', returns cmd_ll, ''long listing''),
     (''dir'', returns cmd_dir, ''list directory''),
     (''mkdir'', returns cmd_mkdir, ''make directory''),
     (''rmdir'', returns cmd_rmdir, ''remove empty directory''),
     (''rm'', returns cmd_rm, ''remove file''),
     (''touch'', returns cmd_touch, ''create empty file''),
     (''cat'', returns cmd_cat, ''print file''),
     (''head'', returns cmd_head, ''first lines''),
     (''tail'', returns cmd_tail, ''last lines''),
     (''wc'', returns cmd_wc, ''count lines words bytes''),
     (''grep'', returns cmd_grep, ''search text''),
     (''sort'', returns cmd_sort, ''sort lines''),
     (''uniq'', returns cmd_uniq, ''unique lines''),
     (''diff'', returns cmd_diff, ''compare files''),
     (''cp'', returns cmd_cp, ''copy file''),
     (''mv'', returns cmd_mv, ''move file''),
     (''find'', returns cmd_find, ''find files''),
     (''tree'', returns cmd_tree, ''directory tree''),
     (''stat'', returns cmd_stat, ''file status''),
     (''basename'', returns cmd_basename, ''file name part''),
     (''dirname'', returns cmd_dirname, ''directory part''),
     (''rev'', returns cmd_rev, ''reverse lines''),
     (''nl'', returns cmd_nl, ''number lines''),
     (''tee'', returns cmd_tee, ''write to file and stdout''),
     (''df'', returns cmd_df, ''filesystem usage''),
     (''du'', returns cmd_du, ''disk usage''),
     (''free'', returns cmd_free, ''memory usage''),
     (''uname'', returns cmd_uname, ''system name''),
     (''hostname'', returns cmd_hostname, ''show/set hostname''),
     (''whoami'', returns cmd_whoami, ''current user''),
     (''id'', returns cmd_id, ''user identity''),
     (''date'', returns cmd_date, ''current date/time''),
     (''cal'', returns cmd_cal, ''calendar''),
     (''uptime'', returns cmd_uptime, ''system uptime''),
     (''sleep'', returns cmd_sleep, ''delay seconds''),
     (''seq'', returns cmd_seq, ''number sequence''),
     (''factor'', returns cmd_factor, ''factor numbers''),
     (''history'', returns cmd_history, ''command history''),
     (''lscpu'', returns cmd_lscpu, ''cpu info''),
     (''true'', returns cmd_true, ''return success''),
     (''false'', returns cmd_false, ''return failure''),
     (''test'', returns cmd_test, ''test expression''),
     (''['', returns cmd_test, ''test expression''),
     (''exit'', cmd_exit, ''halt system''),
     (''logout'', cmd_exit, ''halt system''),
     (''halt'', cmd_poweroff, ''halt system''),
     (''poweroff'', cmd_poweroff, ''halt system''),
     (''shutdown'', cmd_poweroff, ''halt system''),
     (''reboot'', cmd_reboot, ''restart system'')]"

definition cmd_lookup :: "string \<Rightarrow> handler option" where
  "cmd_lookup nm = (case find (\<lambda>e. fst e = nm) commands of Some e \<Rightarrow> Some (fst (snd e)) | None \<Rightarrow> None)"

end
