(* ===== verification/Shell_Exec.thy ===== *)
theory Shell_Exec
  imports Tokenize Cmd_Sys
begin

text \<open>
  The interpreter of \<open>src/shell.c\<close>: redirections, one command, a pipeline, a line with separators, and
  the session.  The line is the character list \<open>b\<close>, in which positions are kept and which is
  overwritten as the C code overwrites it.

  An exit code \<open>None\<close> says that the command has halted the processor; nothing runs after it.
\<close>

section \<open>One command\<close>

definition redirect_out :: "cmdline \<Rightarrow> shell \<Rightarrow> (bool \<times> shell) option" where
  "redirect_out cl s =
     (if \<not> has_out cl then Some (True, s)
      else do {
        (made, f, s) \<leftarrow>
          (case vfs_resolve s (Some (cl_out cl)) of
             Some f \<Rightarrow> Some (True, Some f, s)
           | None \<Rightarrow> do {
               (ok, s) \<leftarrow> vfs_mkfile (cl_out cl) s;
               Some (ok, vfs_resolve s (Some (cl_out cl)), s) });
        if \<not> made then do {
          s \<leftarrow> sh_printf (''shell: cannot create %s'' @ [LF]) [A_string (cl_out cl)] s; Some (False, s) }
        else
          (case f of
             None \<Rightarrow> do {
               s \<leftarrow> sh_printf (''shell: %s: not a file'' @ [LF]) [A_string (cl_out cl)] s; Some (False, s) }
           | Some n \<Rightarrow>
               if \<not> is_file s n then do {
                 s \<leftarrow> sh_printf (''shell: %s: not a file'' @ [LF]) [A_string (cl_out cl)] s; Some (False, s) }
               else
                 let s = s\<lparr>out_file := Some n, out_append := cl_out_append cl\<rparr> in
                 Some (True, if cl_out_append cl then s else vfs_truncate (Some n) s)) })"

definition redirect_in :: "cmdline \<Rightarrow> shell \<Rightarrow> (bool \<times> shell) option" where
  "redirect_in cl s =
     (if \<not> has_in cl then Some (True, s)
      else
        (case vfs_resolve s (Some (cl_in cl)) of
           None \<Rightarrow> do {
             s \<leftarrow> sh_printf (''shell: %s: no such file'' @ [LF]) [A_string (cl_in cl)] s; Some (False, s) }
         | Some n \<Rightarrow>
             if \<not> is_file s n then do {
               s \<leftarrow> sh_printf (''shell: %s: no such file'' @ [LF]) [A_string (cl_in cl)] s; Some (False, s) }
             else Some (True, s\<lparr>in_file := Some n, in_off := 0\<rparr>)))"

definition apply_redirs :: "cmdline \<Rightarrow> shell \<Rightarrow> (bool \<times> shell) option" where
  "apply_redirs cl s = do {
     (ok, s) \<leftarrow> redirect_out cl (s\<lparr>out_file := None, in_file := None, in_off := 0\<rparr>);
     if ok then redirect_in cl s else Some (False, s)
   }"

definition shell_run_builtin :: handler where
  "shell_run_builtin a s =
     (case cmd_lookup (a ! 0) of
        None \<Rightarrow> do {
          s \<leftarrow> sh_printf (''%s: command not found'' @ [LF]) [A_string (a ! 0)] s; Some (Some 127, s) }
      | Some fn \<Rightarrow> fn a s)"

text \<open>\<open>args_t\<close> has room for 32 pointers with the NULL at the end, the tokenizer's table for 64.\<close>

definition run_segment ::
  "char list \<Rightarrow> nat \<Rightarrow> bool \<Rightarrow> shell \<Rightarrow> (int option \<times> char list \<times> shell) option" where
  "run_segment b seg do_pipe s = do {
     (b, cl, s) \<leftarrow> tokenize b seg s;
     if items cl = [] then Some (Some 0, b, s)
     else do {
       let s = s\<lparr>pipe_writing := do_pipe\<rparr>;
       let s = (if do_pipe then
                  (case pipe_writer s of
                     None \<Rightarrow> s
                   | Some w \<Rightarrow> put_pipe w ((get_pipe w s)\<lparr>pbytes := []\<rparr>) s)
                else s);
       (ok, s) \<leftarrow> apply_redirs cl s;
       if \<not> ok then Some (Some 1, b, (restore_redirs s)\<lparr>pipe_writing := False\<rparr>)
       else if length (items cl) \<ge> 32 then None
       else do {
         (rc, s) \<leftarrow> shell_run_builtin (map (item_string b) (items cl)) s;
         if rc = None then Some (None, b, s)
         else Some (rc, b, (restore_redirs s)\<lparr>pipe_writing := False\<rparr>) } }
   }"

section \<open>Pipelines\<close>

definition pipe_data :: "bool \<Rightarrow> shell \<Rightarrow> shell" where
  "pipe_data w s =
     (if allocated (get_pipe w s) then s
      else (case kmalloc (of_nat PIPE_MAX) s of
          (None, s) \<Rightarrow> s
        | (Some p, s) \<Rightarrow> put_pipe w ((get_pipe w s)\<lparr>allocated := True\<rparr>) s))"

definition pipes_start :: "shell \<Rightarrow> shell" where
  "pipes_start s =
     (let s = pipe_data True (pipe_data False s);
          s = put_pipe False ((get_pipe False s)\<lparr>pbytes := []\<rparr>) s;
          s = put_pipe True ((get_pipe True s)\<lparr>pbytes := []\<rparr>) s
      in s\<lparr>pipe_reader := None, pipe_writer := None, pipe_writing := False, pipe_in_off := 0\<rparr>)"

definition pipes_end :: "shell \<Rightarrow> shell" where
  "pipes_end s =
     s\<lparr>pipe_reader := None, pipe_writer := None, pipe_writing := False, out_file := None, in_file := None\<rparr>"

text \<open>\<open>which\<close> is the pipe that the next command writes.\<close>

definition next_pipe :: "bool \<Rightarrow> shell \<Rightarrow> shell" where
  "next_pipe which s =
     put_pipe (\<not> which) ((get_pipe (\<not> which) s)\<lparr>pbytes := []\<rparr>)
       (s\<lparr>pipe_reader := Some which, pipe_in_off := 0\<rparr>)"

partial_function (option) pipeline_loop ::
  "char list \<Rightarrow> nat \<Rightarrow> nat \<Rightarrow> bool \<Rightarrow> shell \<Rightarrow> (int option \<times> char list \<times> shell) option" where
  "pipeline_loop b seg p which s = do {
     c \<leftarrow> rd b p;
     if c = NUL then do {
       (rc, b, s) \<leftarrow> run_segment b seg False (s\<lparr>pipe_writer := None\<rparr>);
       Some (rc, b, if rc = None then s else pipes_end s) }
     else if c = CHR ''|'' then do {
       (rc, b, s) \<leftarrow> run_segment (b[p := NUL]) seg True (s\<lparr>pipe_writer := Some which\<rparr>);
       if rc = None then Some (None, b, s)
       else do {
         p \<leftarrow> skip_blanks b (p + 1);
         pipeline_loop b p p (\<not> which) (next_pipe which s) } }
     else pipeline_loop b seg (p + 1) which s
   }"

definition exec_pipeline ::
  "char list \<Rightarrow> nat \<Rightarrow> nat \<Rightarrow> shell \<Rightarrow> (int option \<times> char list \<times> shell) option" where
  "exec_pipeline b line len s = do {
     b \<leftarrow> wr b (line + len) NUL;
     pipeline_loop b line line False (pipes_start s)
   }"

section \<open>A line\<close>

text \<open>The kind of a separator and its length.\<close>

definition is_separator :: "char list \<Rightarrow> nat \<Rightarrow> (char \<times> nat) option" where
  "is_separator b p =
     (if rd b p = Some CHR '';'' then Some (CHR '';'', 1)
      else if rd b p = Some CHR ''&'' \<and> rd b (p + 1) = Some CHR ''&'' then Some (CHR ''&'', 2)
      else if rd b p = Some CHR ''|'' \<and> rd b (p + 1) = Some CHR ''|'' then Some (CHR ''o'', 2)
      else None)"

fun trim_len :: "char list \<Rightarrow> nat \<Rightarrow> nat \<Rightarrow> nat" where
  "trim_len b start 0 = 0"
| "trim_len b start (Suc n) = (if blank (b ! (start + n)) then trim_len b start n else Suc n)"

text \<open>Whether the segment in front of a separator runs.\<close>

definition runs :: "char option \<Rightarrow> int \<Rightarrow> bool" where
  "runs kind rc \<longleftrightarrow>
     (if kind = Some CHR ''&'' then rc = 0 else if kind = Some CHR ''o'' then rc \<noteq> 0 else True)"

text \<open>The end of a segment: the exit code, the line and the state.\<close>

definition end_segment ::
  "char list \<Rightarrow> nat \<Rightarrow> nat \<Rightarrow> char option \<Rightarrow> int \<Rightarrow> shell \<Rightarrow> (int option \<times> char list \<times> shell) option" where
  "end_segment b start p kind rc s =
     (let len = trim_len b start (p - start) in
      if len = 0 then Some (Some rc, b, s)
      else do {
        (r, b, s) \<leftarrow> (if runs kind rc then exec_pipeline b start len s else Some (Some rc, b, s));
        case r of None \<Rightarrow> Some (None, b, s) | Some rc \<Rightarrow> Some (Some rc, b, sh_set_exit rc s) })"

partial_function (option) line_loop ::
  "char list \<Rightarrow> nat \<Rightarrow> nat \<Rightarrow> int \<Rightarrow> shell \<Rightarrow> (int option \<times> char list \<times> shell) option" where
  "line_loop b start p rc s = do {
     c \<leftarrow> rd b p;
     if c = NUL \<or> is_separator b p \<noteq> None then do {
       let sep = (if c = NUL then None else is_separator b p);
       (r, b, s) \<leftarrow> end_segment b start p (map_option fst sep) rc s;
       case r of
         None \<Rightarrow> Some (None, b, s)
       | Some rc \<Rightarrow> do {
           c \<leftarrow> rd b p;
           if c = NUL then Some (Some rc, b, s)
           else do {
             q \<leftarrow> skip_blanks b (p + (case sep of None \<Rightarrow> 0 | Some (k, n) \<Rightarrow> n));
             line_loop b q q rc s } } }
     else if c = CHR ''#'' then line_loop (b[p := NUL]) start p rc s
     else line_loop b start (p + 1) rc s
   }"

definition shell_exec_line :: "char list \<Rightarrow> shell \<Rightarrow> (int option \<times> char list \<times> shell) option" where
  "shell_exec_line b s = do {
     line \<leftarrow> skip_blanks b 0;
     if b ! line = NUL \<or> b ! line = CHR ''#'' then Some (Some 0, b, s)
     else line_loop b line line 0 s
   }"

section \<open>The session\<close>

definition set_color :: "u8 \<Rightarrow> u8 \<Rightarrow> shell \<Rightarrow> shell" where
  "set_color fg bg s = s\<lparr>screen := vga_setcolor fg bg (screen s)\<rparr>"

definition prompt :: "shell \<Rightarrow> shell option" where
  "prompt s = do {
     let s = set_color 0x0A 0x00 s;
     s \<leftarrow> sh_printf ''root@%s'' [A_string (shell_hostname s)] s;
     let s = set_color 0x07 0x00 s;
     s \<leftarrow> sh_puts '':'' s;
     let s = set_color 0x0B 0x00 s;
     s \<leftarrow> sh_puts (vfs_pwd s) s;
     let s = set_color 0x07 0x00 s;
     s \<leftarrow> sh_puts ''# '' s;
     Some (set_color 0x07 0x00 s)
   }"

definition shell_init :: "shell \<Rightarrow> shell" where
  "shell_init s = s\<lparr>history := [], hist_pos := 0, last_exit := 0\<rparr>"

definition show_motd :: "shell \<Rightarrow> shell option" where
  "show_motd s =
     (case vfs_resolve s (Some ''/etc/motd'') of
        None \<Rightarrow> Some s
      | Some n \<Rightarrow>
          if is_file s n then do {
            let s = set_color 0x0E 0x00 s;
            s \<leftarrow> sh_write (content (node s n)) s;
            let s = set_color 0x07 0x00 s;
            sh_puts (''Type '' @ [QUOTE] @ ''help'' @ [QUOTE] @ '' for commands, '' @ [QUOTE] @ ''about''
              @ [QUOTE] @ '' for system info.'' @ [LF, LF]) s }
          else Some s)"

text \<open>The 1024-byte line buffer: what is behind the terminator is never read, and is taken as zero.\<close>

definition line_buffer :: "string \<Rightarrow> char list" where
  "line_buffer t = t @ replicate (1024 - length t) NUL"

text \<open>One round of the session loop; \<open>None\<close> is that the loop goes on, \<open>Some True\<close> that the processor has
  been halted, \<open>Some False\<close> that the loop has been left.\<close>

definition shell_round :: "shell \<Rightarrow> (bool option \<times> shell) option" where
  "shell_round s = do {
     s \<leftarrow> prompt s;
     let s = s\<lparr>hist_pos := hist_count s\<rparr>;
     (n, t, s) \<leftarrow> sh_readline 1024 s;
     if n < 0 then do { s \<leftarrow> sh_puts [LF] s; Some (Some False, s) }
     else if n = 0 \<or> t = [] then Some (None, s)
     else do {
       let s = push_history t s;
       (rc, b, s) \<leftarrow> shell_exec_line (line_buffer t) s;
       Some (if rc = None then Some True else None, s) }
   }"

partial_function (option) shell_loop :: "shell \<Rightarrow> (bool \<times> shell) option" where
  "shell_loop s = do {
     (r, s) \<leftarrow> shell_round s;
     case r of None \<Rightarrow> shell_loop s | Some halted \<Rightarrow> Some (halted, s)
   }"

definition shell_run :: "shell \<Rightarrow> (bool \<times> shell) option" where
  "shell_run s = do { s \<leftarrow> show_motd s; shell_loop s }"

end
