(* ===== verification/Multiboot.thy ===== *)
theory Multiboot
  imports Prelude
begin

text \<open>
  The boot information of \<open>src/multiboot.c\<close>: the memory maps that three boot loaders leave, read from
  memory, a function from addresses to bytes.  Addresses and sizes wrap as the C types do; a loop that
  does not end is \<open>None\<close>.  What \<open>cpuid\<close> answers is a parameter.
\<close>

type_synonym memory = "u64 \<Rightarrow> u8"

definition rd16 :: "memory \<Rightarrow> u64 \<Rightarrow> u16" where
  "rd16 mem a = ucast (mem a) OR push_bit 8 (ucast (mem (a + 1)))"

definition rd32 :: "memory \<Rightarrow> u64 \<Rightarrow> u32" where
  "rd32 mem a = ucast (rd16 mem a) OR push_bit 16 (ucast (rd16 mem (a + 2)))"

definition rd64 :: "memory \<Rightarrow> u64 \<Rightarrow> u64" where
  "rd64 mem a = ucast (rd32 mem a) OR push_bit 32 (ucast (rd32 mem (a + 4)))"

definition BOOT_MAGIC_BONJ :: u32 where "BOOT_MAGIC_BONJ = 0x4A4E4F42"

text \<open>The registers \<open>ebx\<close>, \<open>edx\<close> and \<open>ecx\<close> as characters.\<close>

definition reg_chars :: "u32 \<Rightarrow> string" where
  "reg_chars r = map (\<lambda>i. to_char (uint (drop_bit (8 * i) r AND 0xFF))) [0, 1, 2, 3]"

definition cpuid_vendor :: "u32 \<times> u32 \<times> u32 \<Rightarrow> string" where
  "cpuid_vendor regs = (case regs of (ebx, edx, ecx) \<Rightarrow> cstr (reg_chars ebx @ reg_chars edx @ reg_chars ecx))"

section \<open>One entry of a memory map\<close>

text \<open>The end of usable memory below 4 GB, as far as it is known.\<close>

definition usable_top :: "u64 \<Rightarrow> u64 \<Rightarrow> u32 \<Rightarrow> u64 \<Rightarrow> u64" where
  "usable_top base len type best =
     (if type = 1 \<and> base < 0x100000000 then (let top = base + len in if top > best then top else best)
      else best)"

definition set_total :: "u64 \<Rightarrow> u32 \<Rightarrow> u32" where
  "set_total best kb = (if best > 16 * 1024 * 1024 then ucast (best div 1024) else kb)"

section \<open>The three boot protocols\<close>

definition e820_entry :: "memory \<Rightarrow> nat \<Rightarrow> u64 \<times> u64 \<times> u32" where
  "e820_entry mem i =
     (let p = 0x5008 + 24 * of_nat i in (rd64 mem p, rd64 mem (p + 8), rd32 mem (p + 16)))"

definition parse_e820_cd :: "memory \<Rightarrow> u32 \<Rightarrow> u32" where
  "parse_e820_cd mem kb =
     (let count = rd16 mem 0x5000;
          best = fold (\<lambda>i best. case e820_entry mem i of (base, len, type) \<Rightarrow> usable_top base len type best)
                   [0..<min (unat count) 64] 0
      in set_total best kb)"

text \<open>The offsets are 32-bit numbers; the words of an entry are \<open>e[0]\<close>, \<open>e[3]\<close>, \<open>e[5]\<close> and \<open>e[7]\<close>.\<close>

partial_function (option) mb1_loop :: "memory \<Rightarrow> u32 \<Rightarrow> u32 \<Rightarrow> u32 \<Rightarrow> u64 \<Rightarrow> u64 option" where
  "mb1_loop mem addr len off best =
     (if off < len
      then let e = (ucast (addr + off) :: u64); esize = rd32 mem e in
        mb1_loop mem addr len (off + (esize + 4))
          (usable_top (rd64 mem (e + 12)) (rd64 mem (e + 20)) (rd32 mem (e + 28)) best)
      else Some best)"

definition parse_mb1 :: "memory \<Rightarrow> u32 \<Rightarrow> u32 \<Rightarrow> u32 option" where
  "parse_mb1 mem info kb =
     (let mb = (ucast info :: u64);
          flags = rd32 mem mb;
          kb1 = (if flags AND 1 \<noteq> 0 then rd32 mem (mb + 4) + rd32 mem (mb + 8) else kb)
      in if flags AND 0x40 \<noteq> 0
         then do { best \<leftarrow> mb1_loop mem (rd32 mem (mb + 92)) (rd32 mem (mb + 88)) 0 0; Some (set_total best kb1) }
         else Some kb1)"

partial_function (option) mb2_entries :: "memory \<Rightarrow> u64 \<Rightarrow> u32 \<Rightarrow> u32 \<Rightarrow> u32 \<Rightarrow> u64 \<Rightarrow> u64 option" where
  "mb2_entries mem e esize elen off best =
     (if off + esize \<le> elen
      then let a = e + ucast off in
        mb2_entries mem e esize elen (off + esize)
          (usable_top (rd64 mem a) (rd64 mem (a + 8)) (rd32 mem (a + 16)) best)
      else Some best)"

partial_function (option) mb2_tags :: "memory \<Rightarrow> u64 \<Rightarrow> u64 \<Rightarrow> u32 \<Rightarrow> u32 option" where
  "mb2_tags mem p tags_end kb =
     (if p < tags_end
      then let type = rd32 mem p; size = rd32 mem (p + 4) in
        if size = 0 then Some kb
        else do {
          kb \<leftarrow> (if type = 6 then do {
                     best \<leftarrow> mb2_entries mem (p + 16) (rd32 mem (p + 8)) (rd32 mem (p + 12)) 0 0;
                     Some (set_total best kb) }
                   else Some kb);
          mb2_tags mem (p + ucast size) tags_end kb }
      else Some kb)"

definition parse_mb2 :: "memory \<Rightarrow> u32 \<Rightarrow> u32 \<Rightarrow> u32 option" where
  "parse_mb2 mem info kb =
     mb2_tags mem (ucast info + 8) (ucast info + ucast (rd32 mem (ucast info + 4))) kb"

definition boot_parse ::
  "memory \<Rightarrow> u32 \<times> u32 \<times> u32 \<Rightarrow> u32 \<Rightarrow> u32 \<Rightarrow> u32 \<Rightarrow> (u32 \<times> string) option" where
  "boot_parse mem regs magic info kb = do {
     kb \<leftarrow> (if magic = BOOT_MAGIC_BONJ then Some (parse_e820_cd mem kb)
              else if magic = 0x2BADB002 then parse_mb1 mem info kb
              else if magic = 0x36D76289 then parse_mb2 mem info kb
              else Some kb);
     Some (kb, cpuid_vendor regs)
   }"

section \<open>Reset and halt\<close>

text \<open>The keyboard controller is polled until its input buffer is empty (\<open>status\<close> holds the bytes that the
  reads return), then asked to reset the processor.  The result is what was written; the processor
  halts after it.\<close>

fun reboot :: "u8 list \<Rightarrow> (u16 \<times> u8) list option" where
  "reboot [] = None"
| "reboot (good # st) = (if good AND 0x02 \<noteq> 0 then reboot st else Some [(0x64, 0xFE)])"

end
