(* ===== verification/Descriptors.thy ===== *)
theory Descriptors
  imports Vga Serial Keyboard Clock
begin

text \<open>
  The descriptor tables of \<open>src/gdt.c\<close> and \<open>src/idt.c\<close> and the C part of the interrupt handling.
  Loading a table (\<open>gdt_flush\<close>, \<open>idt_load\<close>) is assembly; what it is given is the result of
  \<open>gdt_install\<close> and \<open>idt_init\<close>.  The round-trip theorems read the scattered fields back the way the
  processor does.
\<close>

section \<open>The global descriptor table\<close>

record gdt_entry =
  limit_lo :: u16
  base_lo :: u16
  base_mid :: u8
  access :: u8
  flags_limit_hi :: u8
  base_hi :: u8

definition set_entry :: "nat \<Rightarrow> u32 \<Rightarrow> u32 \<Rightarrow> u8 \<Rightarrow> u8 \<Rightarrow> gdt_entry list \<Rightarrow> gdt_entry list" where
  "set_entry i base limit acc gran gdt =
     gdt[i := \<lparr>limit_lo = ucast (limit AND 0xFFFF), base_lo = ucast (base AND 0xFFFF),
              base_mid = ucast (drop_bit 16 base AND 0xFF), access = acc,
              flags_limit_hi = ucast (drop_bit 16 limit AND 0x0F) OR (gran AND 0xF0),
              base_hi = ucast (drop_bit 24 base AND 0xFF)\<rparr>]"

definition gdt_install :: "gdt_entry list \<Rightarrow> gdt_entry list" where
  "gdt_install gdt =
     set_entry 4 0 0xFFFFF 0xF2 0xC0 (set_entry 3 0 0xFFFFF 0xFA 0xA0
      (set_entry 2 0 0xFFFFF 0x92 0xC0 (set_entry 1 0 0xFFFFF 0x9A 0xA0
       (set_entry 0 0 0 0 0 gdt))))"

text \<open>The base and the 20-bit limit that the processor puts together.\<close>

definition entry_base :: "gdt_entry \<Rightarrow> u32" where
  "entry_base e = push_bit 24 (ucast (base_hi e)) OR push_bit 16 (ucast (base_mid e)) OR ucast (base_lo e)"

definition entry_limit :: "gdt_entry \<Rightarrow> u32" where
  "entry_limit e = push_bit 16 (ucast (flags_limit_hi e AND 0x0F)) OR ucast (limit_lo e)"

definition entry_flags :: "gdt_entry \<Rightarrow> u8" where
  "entry_flags e = flags_limit_hi e AND 0xF0"

section \<open>The interrupt descriptor table\<close>

record idt_entry =
  gate_lo :: u16
  sel :: u16
  ist :: u8
  flags :: u8
  gate_mid :: u16
  gate_hi :: u32
  zero :: u32

definition set_gate :: "nat \<Rightarrow> u64 \<Rightarrow> idt_entry list \<Rightarrow> idt_entry list" where
  "set_gate n addr idt =
     idt[n := \<lparr>gate_lo = ucast (addr AND 0xFFFF), sel = 0x08, ist = 0, flags = 0x8E,
              gate_mid = ucast (drop_bit 16 addr AND 0xFFFF),
              gate_hi = ucast (drop_bit 32 addr AND 0xFFFFFFFF), zero = 0\<rparr>]"

definition no_gate :: idt_entry where
  "no_gate = \<lparr>gate_lo = 0, sel = 0, ist = 0, flags = 0, gate_mid = 0, gate_hi = 0, zero = 0\<rparr>"

text \<open>\<open>stubs\<close> are the addresses of the 48 assembly entry points.\<close>

definition idt_init :: "u64 list \<Rightarrow> idt_entry list" where
  "idt_init stubs = fold (\<lambda>i. set_gate i (stubs ! i)) [0..<48] (replicate 256 no_gate)"

definition gate_addr :: "idt_entry \<Rightarrow> u64" where
  "gate_addr e = push_bit 32 (ucast (gate_hi e)) OR push_bit 16 (ucast (gate_mid e)) OR ucast (gate_lo e)"

section \<open>Interrupts\<close>

definition exc_names :: "string list" where
  "exc_names = [''Divide by zero'', ''Debug'', ''NMI'', ''Breakpoint'', ''Overflow'',
     ''Bound range'', ''Invalid opcode'', ''Device not available'',
     ''Double fault'', ''Coprocessor overrun'', ''Invalid TSS'',
     ''Segment not present'', ''Stack fault'', ''General protection fault'',
     ''Page fault'', ''Reserved'', ''x87 FP exception'', ''Alignment check'',
     ''Machine check'', ''SIMD FP exception'']"

definition exc_name :: "u64 \<Rightarrow> string" where
  "exc_name v = (if v < 20 then exc_names ! unat v else ''Exception'')"

text \<open>What the handler works on: the tick counter, the three devices and the bytes written to the
  interrupt controllers.\<close>

record irq_state =
  i_ticks :: u64
  i_kbd :: kbd
  i_vga :: vga
  i_uart :: uart
  pic_writes :: "(u16 \<times> u8) list"

definition eoi :: "nat \<Rightarrow> irq_state \<Rightarrow> irq_state" where
  "eoi irq s = s\<lparr>pic_writes := pic_writes s @ pic_eoi irq\<rparr>"

text \<open>The handler returns to the interrupted code, or halts the processor for good.\<close>

datatype isr_result = Resume irq_state | Halted irq_state

definition exc_serial_fmt :: string where
  "exc_serial_fmt = [LF] @ ''*** %s (vec %u, err %u, rip 0x%x) ***'' @ [LF]"

definition exc_screen_fmt :: string where
  "exc_screen_fmt = [LF] @ ''Kernel exception: %s'' @ [LF] @ ''System halted.'' @ [LF]"

text \<open>The vector, the error code and the instruction pointer of the interrupt frame, and the scancode
  waiting at the keyboard port.\<close>

definition isr_handler :: "u64 \<Rightarrow> u64 \<Rightarrow> u64 \<Rightarrow> u8 \<Rightarrow> irq_state \<Rightarrow> isr_result option" where
  "isr_handler v err rip sc s =
     (if v = 32 then Some (Resume (eoi 0 (s\<lparr>i_ticks := timer_tick (i_ticks s)\<rparr>)))
      else if v = 33 then Some (Resume (eoi 1 (s\<lparr>i_kbd := keyboard_irq sc (i_kbd s)\<rparr>)))
      else if v \<ge> 32 \<and> v \<le> 47 then Some (Resume (eoi (unat (v - 32)) s))
      else if v < 32 then do {
        u \<leftarrow> serial_printf exc_serial_fmt
               [A_str (Some (exc_name v)), A_int (ucast v), A_int (ucast err), A_long rip] (i_uart s);
        g \<leftarrow> vga_printf exc_screen_fmt [A_str (Some (exc_name v))] (vga_setcolor 0x04 0x00 (i_vga s));
        Some (Halted (s\<lparr>i_uart := u, i_vga := g\<rparr>))
      }
      else Some (Resume s))"

section \<open>Fields\<close>

lemma mask_lit:
  "(0xFFFF :: 'a::len word) = mask 16" "(0xFF :: 'a word) = mask 8" "(0x0F :: 'a word) = mask 4"
  "(0xFFFFFFFF :: 'a word) = mask 32" "(0xF0 :: 'a word) = push_bit 4 (mask 4)"
  by (simp_all add: mask_eq_exp_minus_1 push_bit_eq_mult)

lemma low_bit: "\<not> bit b (k + (n - k)) \<Longrightarrow> bit b n \<Longrightarrow> n < k" for b :: "'a::len word"
  by (metis add_diff_inverse_nat)

lemma gate_addr_set_gate:
  "n < length idt \<Longrightarrow> gate_addr (set_gate n addr idt ! n) = addr"
  unfolding gate_addr_def set_gate_def
  by (intro bit_eqI) (auto simp: mask_lit bit_simps dest!: low_bit)

lemma entry_fields:
  assumes "i < length gdt"
  shows "entry_base (set_entry i base limit acc gran gdt ! i) = base"
    "entry_limit (set_entry i base limit acc gran gdt ! i) = limit AND 0xFFFFF"
    "entry_flags (set_entry i base limit acc gran gdt ! i) = gran AND 0xF0"
    "access (set_entry i base limit acc gran gdt ! i) = acc"
proof -
  have m: "(0xFFFFF :: u32) = mask 20" by (simp add: mask_eq_exp_minus_1)
  show "entry_base (set_entry i base limit acc gran gdt ! i) = base"
    using assms unfolding entry_base_def set_entry_def
    by (intro bit_eqI) (auto simp: mask_lit bit_simps dest!: low_bit)
  show "entry_limit (set_entry i base limit acc gran gdt ! i) = limit AND 0xFFFFF"
    using assms unfolding entry_limit_def set_entry_def m
    by (intro bit_eqI) (auto simp: mask_lit bit_simps)
  show "entry_flags (set_entry i base limit acc gran gdt ! i) = gran AND 0xF0"
    using assms unfolding entry_flags_def set_entry_def
    by (intro bit_eqI) (auto simp: mask_lit bit_simps)
  show "access (set_entry i base limit acc gran gdt ! i) = acc"
    using assms by (simp add: set_entry_def)
qed

lemma idt_gates:
  "n \<le> 256 \<Longrightarrow> length (fold (\<lambda>i. set_gate i (stubs ! i)) [0..<n] idt) = length idt \<and>
   (length idt = 256 \<longrightarrow> (\<forall>i < 256. fold (\<lambda>i. set_gate i (stubs ! i)) [0..<n] idt ! i =
      (if i < n then set_gate i (stubs ! i) idt ! i else idt ! i)))"
  by (induction n) (auto simp: set_gate_def less_Suc_eq nth_list_update)

section \<open>Properties\<close>

text \<open>After \<open>idt_init\<close> each of the first 48 gates is a present 64-bit interrupt gate on the kernel
  code segment from which the processor reads the address of its stub, and the other gates are not
  present.\<close>

theorem idt_init_gates:
  assumes "length stubs = 48" and "i < 256"
  shows "if i < 48
         then gate_addr (idt_init stubs ! i) = stubs ! i \<and> flags (idt_init stubs ! i) = 0x8E \<and>
              sel (idt_init stubs ! i) = 0x08 \<and> ist (idt_init stubs ! i) = 0
         else flags (idt_init stubs ! i) = 0"
  using idt_gates [of 48 stubs "replicate 256 no_gate"] assms
  by (simp add: idt_init_def gate_addr_set_gate del: upt_rec_numeral)
     (simp add: set_gate_def no_gate_def)

theorem idt_init_gates_witness:
  "gate_addr (idt_init (replicate 48 0xFFFFFFFF80100040) ! 33) = 0xFFFFFFFF80100040"
  using idt_init_gates [of "replicate 48 0xFFFFFFFF80100040" 33] by (simp del: upt_rec_numeral)

text \<open>The descriptors that \<open>gdt_install\<close> writes have base 0 and limit \<open>0xFFFFF\<close> (entry 0 is null);
  entries 1 and 3 are 64-bit code segments of ring 0 and ring 3, entries 2 and 4 the data segments.\<close>

theorem gdt_install_entries:
  assumes "length gdt = 5"
  shows "(\<forall>i \<in> {1, 2, 3, 4}. entry_base (gdt_install gdt ! i) = 0 \<and> entry_limit (gdt_install gdt ! i) = 0xFFFFF) \<and>
         map access (gdt_install gdt) = [0, 0x9A, 0x92, 0xFA, 0xF2] \<and>
         map entry_flags (gdt_install gdt) = [0, 0xA0, 0xC0, 0xA0, 0xC0]"
proof -
  obtain a b c d e where "gdt = [a, b, c, d, e]"
    using assms by (auto simp: numeral_eq_Suc length_Suc_conv)
  then show ?thesis
    by (simp add: gdt_install_def set_entry_def entry_base_def entry_limit_def entry_flags_def)
qed

text \<open>C36: Every hardware interrupt (vectors 32 to 47) is acknowledged exactly once and returns: the
  first controller gets its end-of-interrupt byte, the second one before it for lines 8 to 15; the
  timer line advances the tick counter, the keyboard line feeds the keyboard driver, and nothing else
  changes.\<close>

theorem isr_irq_acknowledged:
  assumes "32 \<le> v" and "v \<le> 47"
  shows "\<exists>t. isr_handler v err rip sc s = Some (Resume t) \<and>
           pic_writes t = pic_writes s @ (if v \<ge> 40 then [(0xA0, 0x20)] else []) @ [(0x20, 0x20)] \<and>
           i_ticks t = (if v = 32 then i_ticks s + 1 else i_ticks s) \<and>
           i_kbd t = (if v = 33 then keyboard_irq sc (i_kbd s) else i_kbd s) \<and>
           i_vga t = i_vga s \<and> i_uart t = i_uart s"
proof -
  have "unat (v - 32) = unat v - 32" using assms by (simp add: unat_sub_if_size word_le_nat_alt)
  then have "8 \<le> unat (v - 32) \<longleftrightarrow> v \<ge> 40" using assms by (auto simp: word_le_nat_alt)
  then show ?thesis
    using assms by (auto simp: isr_handler_def eoi_def pic_eoi_def timer_tick_def)
qed

text \<open>The text of an exception report.\<close>

definition exc_report :: "u64 \<Rightarrow> u64 \<Rightarrow> u64 \<Rightarrow> string" where
  "exc_report v err rip =
     [LF] @ ''*** '' @ exc_name v @ '' (vec '' @ print_dec (unat (ucast v :: u32)) @ '', err ''
     @ print_dec (unat (ucast err :: u32)) @ '', rip 0x0x'' @ rev (hex_digits (unat (ucast rip :: u32)))
     @ '') ***'' @ [LF]"

lemma exc_report_text:
  "serial_printf_text exc_serial_fmt
     [A_str (Some (exc_name v)), A_int (ucast v), A_int (ucast err), A_long rip] =
   Some (exc_report v err rip)"
  by (simp add: exc_serial_fmt_def serial_printf_text_def skip_two_l_def serial_conv_def next_arg_def
      arg_string_def arg_unsigned_def exc_report_def sdec_def print_dec_def)

lemma exc_screen_text:
  "vga_printf_text exc_screen_fmt [A_str (Some x)] =
     Some ([LF] @ ''Kernel exception: '' @ x @ [LF] @ ''System halted.'' @ [LF])"
  by (simp add: exc_screen_fmt_def vga_printf_text_def skip_two_l_def vga_conv_def next_arg_def
      arg_string_def)

text \<open>A processor exception is reported on the serial line and the screen and never returns to the
  interrupted code: the handler halts.  The report names the exception, but the address it gives is
  the low half of the instruction pointer behind a doubled \<open>0x\<close>.\<close>

theorem isr_exception_halts:
  assumes "v < 32" and "sum_list (map char_cost (exc_report v err rip)) \<le> ready_count (status (i_uart s))"
    and "trace (i_uart s) = []"
  shows "\<exists>t. isr_handler v err rip sc s = Some (Halted t) \<and>
           sent (trace (i_uart t)) = concat (map serial_bytes (exc_report v err rip)) \<and>
           vattr (i_vga t) = 0x04"
proof -
  obtain u where u: "serial_print (exc_report v err rip) (i_uart s) = Some u"
    "sent (trace u) = concat (map serial_bytes (exc_report v err rip))"
    using serial_print_sends [OF assms(2)] assms(3) by auto
  have s: "serial_printf exc_serial_fmt
      [A_str (Some (exc_name v)), A_int (ucast v), A_int (ucast err), A_long rip] (i_uart s) = Some u"
    unfolding serial_printf_def exc_report_text using u(1) by simp
  have "vattr (vga_print x g) = vattr g" for x g
    by (induction x arbitrary: g) (simp_all add: vga_print_def)
  then obtain g where g: "vga_printf exc_screen_fmt [A_str (Some (exc_name v))] (vga_setcolor 0x04 0x00 (i_vga s)) = Some g" "vattr g = 0x04"
    by (simp add: vga_printf_def exc_screen_text vga_setcolor_def)
  have "v \<noteq> 32" "v \<noteq> 33" "\<not> 32 \<le> v"
    using assms(1) by (auto simp: word_less_nat_alt word_le_nat_alt)
  then have "isr_handler v err rip sc s = Some (Halted (s\<lparr>i_uart := u, i_vga := g\<rparr>))"
    unfolding isr_handler_def s g(1) using assms(1) by simp
  then show ?thesis using u(2) g(2) by simp
qed

section \<open>The properties at work\<close>

theorem gdt_install_entries_witness:
  "entry_limit (gdt_install (replicate 5 (gdt_entry.make 0 0 0 0 0 0)) ! 3) = 0xFFFFF"
  using gdt_install_entries [of "replicate 5 (gdt_entry.make 0 0 0 0 0 0)"] by simp

definition quiet_irq :: irq_state where
  "quiet_irq = \<lparr>i_ticks = 5, i_kbd = idle_kbd, i_vga = blank_vga,
     i_uart = \<lparr>status = replicate 128 0x20, trace = []\<rparr>, pic_writes = []\<rparr>"

theorem isr_irq_acknowledged_witness:
  "\<exists>t. isr_handler 44 0 0 0 quiet_irq = Some (Resume t) \<and> pic_writes t = [(0xA0, 0x20), (0x20, 0x20)]"
  using isr_irq_acknowledged [of 44 0 0 0 quiet_irq] by (auto simp: quiet_irq_def)

theorem isr_exception_halts_witness:
  "\<exists>t. isr_handler 14 2 0x100000 0 quiet_irq = Some (Halted t) \<and> vattr (i_vga t) = 0x04"
proof -
  have "print_dec 14 = ''14''" "print_dec 2 = ''2''" by code_simp+
  moreover have "rev (hex_digits 1048576) = ''100000''"
    by (simp add: hex_digits_def hex_loop.simps hex_table_def)
  ultimately have "exc_report 14 2 0x100000 =
      [LF] @ ''*** Page fault (vec 14, err 2, rip 0x0x100000) ***'' @ [LF]"
    by (simp add: exc_report_def exc_name_def exc_names_def)
  then have "sum_list (map char_cost (exc_report 14 2 0x100000)) \<le> ready_count (status (i_uart quiet_irq))"
    by (simp add: char_cost_def quiet_irq_def ready_count_def is_ready_def)
  then show ?thesis
    using isr_exception_halts [where v = 14 and err = 2 and rip = "0x100000" and s = quiet_irq and sc = 0] by (auto simp: quiet_irq_def)
qed

end
