(* ===== verification/Kernel.thy ===== *)
theory Kernel
  imports Shell_Exec Multiboot Descriptors
begin

text \<open>
  The kernel entry of \<open>src/kernel.c\<close>: the order in which the parts are brought up, the banner, the
  kernel command line, and the self test.  The tables and port writes of the hardware set-up are a
  result of their own; the rest works on the state of the shell.
\<close>

section \<open>Hardware set-up\<close>

record hw_setup =
  hw_gdt :: "gdt_entry list"
  hw_idt :: "idt_entry list"
  hw_ports :: "(u16 \<times> u8) list"

text \<open>\<open>stubs\<close> are the addresses of the interrupt entries, \<open>inb\<close> what the mask registers read.\<close>

definition setup_hardware :: "u64 list \<Rightarrow> (u16 \<Rightarrow> u8) \<Rightarrow> gdt_entry list \<Rightarrow> hw_setup option" where
  "setup_hardware stubs inb gdt = do {
     (t, timer) \<leftarrow> timer_init 100;
     let m0 = pic_unmask inb 0;
     let m1 = pic_unmask (io_write m0 inb) 1;
     Some \<lparr>hw_gdt = gdt_install gdt, hw_idt = idt_init stubs, hw_ports = pic_init @ timer @ [m0, m1]\<rparr>
   }"

section \<open>Messages\<close>

definition on_screen :: "string \<Rightarrow> shell \<Rightarrow> shell" where
  "on_screen t s = s\<lparr>screen := vga_print t (screen s)\<rparr>"

definition on_serial :: "string \<Rightarrow> shell \<Rightarrow> shell" where
  "on_serial t s = s\<lparr>line_out := line_out s @ concat (map serial_bytes t)\<rparr>"

definition tlog :: "string \<Rightarrow> shell \<Rightarrow> shell" where
  "tlog t s = on_screen t (on_serial t s)"

definition loader_name :: "u32 \<Rightarrow> string" where
  "loader_name magic =
     (if magic = BOOT_MAGIC_BONJ then ''BojanOS CD bootloader (El Torito)'' @ [LF]
      else if magic = 0x2BADB002 then ''Multiboot1'' @ [LF]
      else if magic = 0x36D76289 then ''Multiboot2'' @ [LF]
      else ''unknown'' @ [LF])"

definition banner :: "u32 \<Rightarrow> shell \<Rightarrow> shell option" where
  "banner magic s = do {
     let s = on_screen ([LF] @ ''  BojanOS 1.0  -  64-bit from-scratch operating system'' @ [LF]) (set_color 0x0E 0x00 s);
     let s = on_screen ''  bootloader: '' (set_color 0x07 0x00 s);
     let s = on_screen (loader_name magic) s;
     t \<leftarrow> vga_printf_text (''  CPU: %s   RAM: %u KB'' @ [LF, LF]) [A_string (cpu_vendor s), A_int (total_mem_kb s)];
     u \<leftarrow> serial_printf_text (''BojanOS booted: magic=0x%x cpu=%s mem=%uKB'' @ [LF])
            [A_int magic, A_string (cpu_vendor s), A_int (total_mem_kb s)];
     Some (on_serial u (on_screen t s))
   }"

section \<open>The kernel command line\<close>

partial_function (option) mem_str :: "memory \<Rightarrow> u64 \<Rightarrow> string option" where
  "mem_str mem a =
     (if mem a = 0 then Some []
      else do { r \<leftarrow> mem_str mem (a + 1); Some (to_char (uint (mem a)) # r) })"

partial_function (option) cmdline_tags :: "memory \<Rightarrow> u64 \<Rightarrow> u64 \<Rightarrow> u64 option \<Rightarrow> u64 option option" where
  "cmdline_tags mem p tags_end found =
     (if p < tags_end
      then let type = rd32 mem p; size = rd32 mem (p + 4) in
        if size = 0 then Some found
        else cmdline_tags mem (p + ucast size) tags_end (if type = 1 then Some (p + 8) else found)
      else Some found)"

definition find_cmdline :: "memory \<Rightarrow> u32 \<Rightarrow> u32 \<Rightarrow> u64 option option" where
  "find_cmdline mem magic info =
     (let i = (ucast info :: u64) in
      if magic = 0x2BADB002 then
        Some (if rd32 mem i AND 4 \<noteq> 0 \<and> rd32 mem (i + 32) \<noteq> 0 then Some (ucast (rd32 mem (i + 32))) else None)
      else if magic = 0x36D76289 then cmdline_tags mem (i + 8) (i + ucast (rd32 mem (i + 4))) None
      else Some None)"

definition wants_selftest :: "memory \<Rightarrow> u64 option \<Rightarrow> bool option" where
  "wants_selftest mem cl =
     (case cl of None \<Rightarrow> Some False
      | Some a \<Rightarrow> do {
          t \<leftarrow> mem_str mem a;
          r \<leftarrow> strstr (t @ [NUL]) (''selftest'' @ [NUL]);
          Some (r \<noteq> None) })"

section \<open>The self test\<close>

record tally =
  passed :: nat
  failed :: nat

definition check :: "bool \<Rightarrow> string \<Rightarrow> tally \<times> shell \<Rightarrow> tally \<times> shell" where
  "check ok msg ts =
     (case ts of (t, s) \<Rightarrow>
        if ok then (t\<lparr>passed := passed t + 1\<rparr>, tlog [LF] (tlog msg (tlog ''  [PASS] '' s)))
        else (t\<lparr>failed := failed t + 1\<rparr>, tlog [LF] (tlog msg (tlog ''  [FAIL] '' s))))"

definition check_state :: "(shell \<Rightarrow> bool) \<Rightarrow> string \<Rightarrow> tally \<times> shell \<Rightarrow> tally \<times> shell" where
  "check_state ok msg ts = check (ok (snd ts)) msg ts"

text \<open>A line that is run, and a check of a condition on the file a path names.\<close>

definition run_line :: "string \<Rightarrow> tally \<times> shell \<Rightarrow> (tally \<times> shell) option" where
  "run_line l ts = do {
     (rc, b, s) \<leftarrow> shell_exec_line (line_buffer l) (snd ts);
     if rc = None then None else Some (fst ts, s)
   }"

definition file_check :: "string \<Rightarrow> (vnode \<Rightarrow> bool option) \<Rightarrow> string \<Rightarrow> tally \<times> shell \<Rightarrow> (tally \<times> shell) option" where
  "file_check path P msg ts =
     (case vfs_resolve (snd ts) (Some path) of
        None \<Rightarrow> Some (check False msg ts)
      | Some n \<Rightarrow> do { ok \<leftarrow> P (node (snd ts) n); Some (check ok msg ts) })"

text \<open>\<open>strncmp(n->data, "c", 1) == 0\<close>; without data it reads through NULL.\<close>

definition starts_with :: "char \<Rightarrow> vnode \<Rightarrow> bool option" where
  "starts_with c n = (case data n of None \<Rightarrow> None | Some b \<Rightarrow> do { x \<leftarrow> rd b 0; Some (x = c) })"

definition lift_op :: "(shell \<Rightarrow> (bool \<times> shell) option) \<Rightarrow> string \<Rightarrow> tally \<times> shell \<Rightarrow> (tally \<times> shell) option" where
  "lift_op f msg ts = do { (ok, s) \<leftarrow> f (snd ts); Some (check ok msg (fst ts, s)) }"

definition selftest_strings :: "tally \<times> shell \<Rightarrow> (tally \<times> shell) option" where
  "selftest_strings ts = do {
     c \<leftarrow> strcmp (''abc'' @ [NUL]) (''abc'' @ [NUL]);
     let ts = check (c = 0) ''strcmp equal'' ts;
     c \<leftarrow> strcmp (''abc'' @ [NUL]) (''abd'' @ [NUL]);
     let ts = check (c < 0) ''strcmp order'' ts;
     n \<leftarrow> strlen (''hello'' @ [NUL]);
     Some (check (n = 5) ''strlen'' ts)
   }"

definition selftest_files :: "tally \<times> shell \<Rightarrow> (tally \<times> shell) option" where
  "selftest_files ts = do {
     ts \<leftarrow> lift_op (vfs_mkdir ''/tmp/testdir'') ''mkdir'' ts;
     let ts = check_state (\<lambda>s. vfs_resolve s (Some ''/tmp/testdir'') \<noteq> None) ''resolve dir'' ts;
     ts \<leftarrow> lift_op (vfs_mkfile ''/tmp/testdir/a.txt'') ''mkfile'' ts;
     let f = vfs_resolve (snd ts) (Some ''/tmp/testdir/a.txt'');
     let (t, s) = check (f \<noteq> None) ''resolve file'' ts;
     let s = snd (vfs_write_file f (''line1'' @ [LF] @ ''line2'' @ [LF] @ ''line3'' @ [LF]) s);
     n \<leftarrow> f;
     Some (check (fsize (node s n) = 18) ''write size'' (t, s))
   }"

definition selftest_shell :: "tally \<times> shell \<Rightarrow> (tally \<times> shell) option" where
  "selftest_shell ts = do {
     ts \<leftarrow> run_line ''echo hello > /tmp/echo.txt'' ts;
     ts \<leftarrow> file_check ''/tmp/echo.txt'' (\<lambda>n. Some (content n = ''hello'' @ [LF])) ''redirect write'' ts;
     ts \<leftarrow> run_line ''cat /tmp/testdir/a.txt | wc -l > /tmp/wc.txt'' ts;
     ts \<leftarrow> file_check ''/tmp/wc.txt'' (starts_with CHR ''3'') ''pipe cat|wc'' ts;
     ts \<leftarrow> run_line (''echo -e '' @ [QUOTE, QUOTE] @ '' >/dev/null; seq 1 5 > /tmp/seq.txt'') ts;
     ts \<leftarrow> file_check ''/tmp/seq.txt'' (\<lambda>n. Some (fsize n = 10)) ''seq output'' ts;
     ts \<leftarrow> run_line ''sort /tmp/seq.txt -r > /tmp/sort.txt'' ts;
     file_check ''/tmp/sort.txt'' (starts_with CHR ''5'') ''sort -r'' ts
   }"

definition selftest_rest :: "tally \<times> shell \<Rightarrow> (tally \<times> shell) option" where
  "selftest_rest ts = do {
     ts \<leftarrow> lift_op (\<lambda>s. Some (vfs_rm ''/tmp/echo.txt'' s)) ''rm file'' ts;
     let ts = check_state (\<lambda>s. vfs_resolve s (Some ''/tmp/echo.txt'') = None) ''file gone'' ts;
     ts \<leftarrow> lift_op (\<lambda>s. let (ok, s) = vfs_rm ''/tmp/testdir'' s in Some (\<not> ok, s)) ''rmdir non-empty fails'' ts;
     (rt, s) \<leftarrow> read_clock (snd ts);
     let ts = check (year rt \<ge> 2024) ''rtc year'' (fst ts, s);
     let ts = check_state (\<lambda>s. total_mem_kb s \<ge> 16384) ''memory detected'' ts;
     ts \<leftarrow> run_line ''false'' ts;
     let ts = check_state (\<lambda>s. sh_last_exit s = 1) ''false exit code'' ts;
     ts \<leftarrow> run_line ''true'' ts;
     Some (check_state (\<lambda>s. sh_last_exit s = 0) ''true exit code'' ts)
   }"

definition result_text :: "nat \<Rightarrow> string" where
  "result_text fails = ''SELFTEST_RESULT '' @ (if fails \<noteq> 0 then ''FAIL'' else ''OK'') @ [LF]"

definition selftest :: "shell \<Rightarrow> (nat \<times> shell) option" where
  "selftest s = do {
     ts \<leftarrow> selftest_strings (\<lparr>passed = 0, failed = 0\<rparr>, tlog (''== system self test =='' @ [LF]) s);
     ts \<leftarrow> selftest_files ts;
     ts \<leftarrow> selftest_shell ts;
     (t, s) \<leftarrow> selftest_rest ts;
     let s = tlog ''== self test: '' s;
     let s = tlog (print_dec (passed t) @ '' passed, '' @ print_dec (failed t) @ '' fail'') s;
     let s = tlog ('' =='' @ [LF]) s;
     Some (failed t, on_serial (result_text (failed t)) s)
   }"

section \<open>Start\<close>

text \<open>Memory, \<open>cpuid\<close>, and the two arguments that the boot code passes.  In the given state only the
  initial values of the static variables matter.\<close>

definition kernel_up :: "memory \<Rightarrow> u32 \<times> u32 \<times> u32 \<Rightarrow> u32 \<Rightarrow> u32 \<Rightarrow> shell \<Rightarrow> shell option" where
  "kernel_up mem regs magic info s = do {
     let s = s\<lparr>screen := vga_init (screen s)\<rparr>;
     (kb, vendor) \<leftarrow> boot_parse mem regs magic info (total_mem_kb s);
     let s = kheap_init kb (s\<lparr>total_mem_kb := kb, cpu_vendor := vendor\<rparr>);
     s \<leftarrow> vfs_init s;
     banner magic (s\<lparr>ticks := 0\<rparr>)
   }"

text \<open>The kernel does not return: the result is the state in which the processor is halted.\<close>

definition kmain :: "memory \<Rightarrow> u32 \<times> u32 \<times> u32 \<Rightarrow> u64 \<Rightarrow> u64 \<Rightarrow> shell \<Rightarrow> shell option" where
  "kmain mem regs magic info s = do {
     s \<leftarrow> kernel_up mem regs (ucast magic) (ucast info) s;
     cl \<leftarrow> find_cmdline mem (ucast magic) (ucast info);
     st \<leftarrow> wants_selftest mem cl;
     if st then do {
       (f, s) \<leftarrow> selftest s;
       Some (on_serial (result_text f) s) }
     else do { (h, s) \<leftarrow> shell_run (shell_init s); Some s }
   }"

end
