(* ===== verification/Vfs_Props.thy ===== *)
theory Vfs_Props
  imports Vfs_Steps
begin

text \<open>
  The properties of the file system, each a few steps over the lemmas of the theories before, and
  a small tree on which their hypotheses are shown to hold.
\<close>

section \<open>A small tree\<close>

text \<open>The root, the directory \<open>/tmp\<close> and the file \<open>/tmp/a\<close> with the content \<open>hi\<close>, placed as the
  allocator places them in a heap of 64 KB.\<close>

definition demo_root :: vnode where
  "demo_root = \<lparr>vtype = FS_TYPE_DIR, name = [], parent = Some 16777216, children = [16777408],
     child_cap = 8, data = None, fsize = 0, fcap = 0\<rparr>"

definition demo_tmp :: vnode where
  "demo_tmp = \<lparr>vtype = FS_TYPE_DIR, name = ''tmp'', parent = Some 16777216, children = [16777600],
     child_cap = 8, data = None, fsize = 0, fcap = 0\<rparr>"

definition demo_a :: vnode where
  "demo_a = \<lparr>vtype = FS_TYPE_FILE, name = ''a'', parent = Some 16777408, children = [],
     child_cap = 0, data = Some (''hi'' @ [NUL]), fsize = 2, fcap = 64\<rparr>"

definition demo_fs :: fs where
  "demo_fs = \<lparr>used = 576, total = 65536, ram = (\<lambda>_. NUL),
     nodes = [16777216 \<mapsto> demo_root, 16777408 \<mapsto> demo_tmp, 16777600 \<mapsto> demo_a],
     vfs_root = 16777216, vfs_cwd = 16777216, vfs_pwd = ''/''\<rparr>"

lemmas demo_simps = demo_fs_def demo_root_def demo_tmp_def demo_a_def

lemma demo_nodes: "nodes demo_fs a = Some n \<Longrightarrow>
    a = 16777216 \<and> n = demo_root \<or> a = 16777408 \<and> n = demo_tmp \<or> a = 16777600 \<and> n = demo_a"
  by (auto simp: demo_fs_def split: if_splits)

lemma demo_node [simp]:
  "node demo_fs 16777216 = demo_root" "node demo_fs 16777408 = demo_tmp"
  "node demo_fs 16777600 = demo_a"
  by (simp_all add: node_def demo_fs_def)

lemma fs_ok_demo: "fs_ok demo_fs"
proof -
  have "node_ok demo_fs a n" if "nodes demo_fs a = Some n" for a n
    using demo_nodes [OF that]
  proof (elim disjE conjE)
    assume "a = 16777216" "n = demo_root"
    then show ?thesis
      by (simp add: node_ok_def frontier_def data_ok_def) (simp add: demo_simps)
  next
    assume "a = 16777408" "n = demo_tmp"
    then show ?thesis
      by (simp add: node_ok_def frontier_def data_ok_def) (simp add: demo_simps)
  next
    assume "a = 16777600" "n = demo_a"
    then show ?thesis
      by (simp add: node_ok_def frontier_def data_ok_def) (simp add: demo_simps)
  qed
  moreover have "heap_ok demo_fs" by (simp add: heap_ok_def demo_fs_def)
  ultimately show ?thesis by (auto simp: fs_ok_def) (simp_all add: demo_simps)
qed

lemma plain_demo [simp]: "plain ''tmp''" "plain ''a''" "plain ''b''"
  by (simp_all add: plain_def)

lemma demo_child_of [simp]:
  "child_of demo_fs (Some 16777216) ''tmp'' = Some 16777408"
  "child_of demo_fs (Some 16777408) ''a'' = Some 16777600"
  "child_of demo_fs (Some 16777408) ''b'' = None"
  "vfs_root demo_fs = 16777216"
  by (simp_all add: child_of_def) (simp_all add: demo_simps)

lemma demo_resolve:
  "vfs_resolve demo_fs (Some (path_of [''tmp''])) = Some 16777408"
  "vfs_resolve demo_fs (Some (path_of [''tmp'', ''a''])) = Some 16777600"
  "vfs_resolve demo_fs (Some (path_of [''tmp'', ''b''])) = None"
  by (subst vfs_resolve_path_of; simp)+

lemma demo_kmalloc:
  "kmalloc 120 demo_fs = (Some 16777792, demo_fs\<lparr>used := 704\<rparr>)"
  by (simp add: kmalloc_def Let_def align_up_def HEAP_START_def) (simp add: demo_simps)

section \<open>Helpers\<close>

lemma resolve_loop_append:
  "resolve_loop s cur (p @ CHR ''/'' # q) =
     (case resolve_loop s cur p of None \<Rightarrow> None | Some c \<Rightarrow> resolve_loop s c (CHR ''/'' # q))"
proof (induction s cur p rule: resolve_loop.induct)
  case (1 s cur p)
  show ?case
  proof (cases "skip_slashes p = []")
    case True
    then have "skip_slashes (p @ CHR ''/'' # q) = skip_slashes (CHR ''/'' # q)"
      by (auto simp: skip_slashes_def dropWhile_eq_Nil_conv dropWhile_append)
    then have "resolve_loop s cur (p @ CHR ''/'' # q) = resolve_loop s cur (CHR ''/'' # q)"
      by (simp only: resolve_loop.simps [of s cur "p @ CHR ''/'' # q"]
          resolve_loop.simps [of s cur "CHR ''/'' # q"])
    then show ?thesis using True by (simp add: resolve_loop.simps [of s cur p])
  next
    case False
    have sk: "skip_slashes (p @ CHR ''/'' # q) = skip_slashes p @ CHR ''/'' # q"
      using False by (auto simp: skip_slashes_def dropWhile_append)
    have nm: "path_name (x @ CHR ''/'' # q) = path_name x" for x
      by (simp add: path_name_def takeWhile_tail)
    have rest: "path_rest (x @ CHR ''/'' # q) = path_rest x @ CHR ''/'' # q" for x
      by (induction x) (simp_all add: path_rest_def)
    show ?thesis
      unfolding resolve_loop.simps [of s cur p] resolve_loop.simps [of s cur "p @ CHR ''/'' # q"] sk nm rest
      using False "1.IH" by (auto split: option.split)
  qed
qed

lemma file_at_plain:
  "file_at s p = (case vfs_resolve s (Some p) of None \<Rightarrow> None
     | Some n \<Rightarrow> if is_file s n then Some (content (node s n)) else None)"
  by (simp add: file_at_def)

text \<open>The create calls on a path of plain components.\<close>

lemma mk_entry_plain:
  assumes pl: "\<forall>x \<in> set nms. plain x" "plain nm" and len: "length (path_of (nms @ [nm])) \<le> 1023"
    and ok: "fs_ok s" and mk: "mk_entry t (path_of (nms @ [nm])) s = Some (True, s')"
  obtains n where "vfs_resolve s (Some (path_of (nms @ [nm]))) = None"
    "vfs_resolve s' (Some (path_of (nms @ [nm]))) = Some n"
    "vtype (node s' n) = t" "content (node s' n) = []" "children (node s' n) = []" "extends s s'"
proof -
  obtain p v nm' n where e: "vfs_resolve_parent s (path_of (nms @ [nm])) = Some (Some p, nm')"
    "nodes s p = Some v" "vtype v = FS_TYPE_DIR" "nm' \<noteq> []" "child_of s (Some p) nm' = None"
    "length nm' < 64" "nodes s n = None" "extends s s'" "children (node s' p) = children v @ [n]"
    "\<exists>w. nodes s' n = Some w \<and> vtype w = t \<and> name w = nm' \<and> parent w = Some p \<and>
       children w = [] \<and> content w = []" "vtype (node s' p) = FS_TYPE_DIR"
    using mk_entry_effect [OF ok mk] by metis
  have w: "walk s (vfs_root s) nms = Some p" and nm': "nm' = nm"
    using e(1) vfs_resolve_parent_path_of [OF pl len, of s] by auto
  have pls: "\<forall>x \<in> set (nms @ [nm]). plain x" using pl by auto
  have res: "vfs_resolve u (Some (path_of (nms @ [nm]))) = walk u (vfs_root u) (nms @ [nm])"
    for u :: "('a) fs_scheme"
    using vfs_resolve_path_of [OF pls] by blast
  have "walk s (vfs_root s) (nms @ [nm]) = None" using w e(5) nm' by (simp add: walk_append)
  then have 1: "vfs_resolve s (Some (path_of (nms @ [nm]))) = None" by (simp only: res)
  have cn: "child_of s' (Some p) nm = Some n"
    by (rule child_of_created [OF ok e(2,3) _ e(8,9)]) (use e nm' in auto)
  have "walk s' (vfs_root s') nms = Some p"
  proof (cases "nms = []")
    case True
    then show ?thesis using w e(8) by (simp add: extends_def)
  next
    case False
    then have "vfs_resolve s (Some (path_of nms)) = Some p"
      using vfs_resolve_path_of [OF pl(1) False, of s] w by simp
    then have "vfs_resolve s' (Some (path_of nms)) = Some p" by (rule vfs_resolve_extends [OF ok e(8)])
    then show ?thesis using vfs_resolve_path_of [OF pl(1) False, of s'] by simp
  qed
  then have "walk s' (vfs_root s') (nms @ [nm]) = Some n" using cn by (simp add: walk_append)
  then have 2: "vfs_resolve s' (Some (path_of (nms @ [nm]))) = Some n" by (simp only: res)
  obtain w where "nodes s' n = Some w" "vtype w = t" "children w = []" "content w = []" using e(10) by blast
  then show ?thesis using that [OF 1 2] e(8) by simp
qed

lemma extends_content:
  assumes ok: "fs_ok s" and ex: "extends s s'" and r: "vfs_resolve s q = Some n"
  shows "vfs_resolve s' q = Some n" "vtype (node s' n) = vtype (node s n)"
    "content (node s' n) = content (node s n)"
proof -
  obtain v where v: "nodes s n = Some v" using vfs_resolve_valid [OF ok r] by blast
  then obtain w where "nodes s' n = Some w" "vtype w = vtype v" "content w = content v"
    using ex unfolding extends_def by blast
  then show "vtype (node s' n) = vtype (node s n)" "content (node s' n) = content (node s n)"
    using v by simp_all
  show "vfs_resolve s' q = Some n" by (rule vfs_resolve_extends [OF ok ex r])
qed

lemma file_at_extends: "fs_ok s \<Longrightarrow> extends s s' \<Longrightarrow> file_at s q = Some txt \<Longrightarrow> file_at s' q = Some txt"
  using extends_content [of s s' "Some q"] by (auto simp: file_at_def split: option.splits if_splits)

text \<open>An entry that is there makes the create calls fail.\<close>

lemma mk_entry_exists:
  assumes pl: "\<forall>x \<in> set nms. plain x" "plain nm" and len: "length (path_of (nms @ [nm])) \<le> 1023"
    and r: "vfs_resolve s (Some (path_of (nms @ [nm]))) = Some n"
  shows "mk_entry t (path_of (nms @ [nm])) s = Some (False, s)"
proof -
  have pls: "\<forall>x \<in> set (nms @ [nm]). plain x" using pl by auto
  have "walk s (vfs_root s) (nms @ [nm]) = Some n"
    using r vfs_resolve_path_of [OF pls, of s] by simp
  then obtain p where p: "walk s (vfs_root s) nms = Some p" "child_of s (Some p) nm = Some n"
    by (auto simp: walk_snoc)
  then show ?thesis
    using vfs_resolve_parent_path_of [OF pl len, of s] by (simp add: mk_entry_def)
qed

text \<open>A create call succeeds where the directory is there, the name is free and the heap has room.\<close>

lemma kmalloc_room:
  assumes "heap_ok h" and "unat n < 2 ^ 63" and "frontier h + up16 (unat n) \<le> heap_end h"
  shows "kmalloc n h = (Some (HEAP_START + used h), h\<lparr>used := used h + align_up n 16\<rparr>)"
    and "unat (used h + align_up n 16) = unat (used h) + up16 (unat n)"
  using kmalloc_cases [OF assms(1,2)] assms(3) by (auto simp: frontier_def heap_end_def)

lemma make_node_room:
  assumes ok: "fs_ok s" and room: "frontier s + 128 \<le> heap_end s"
  obtains n s1 where "make_node t nm p s = (Some n, s1)" "unat (used s1) = unat (used s) + 128"
    "heap.total s1 = heap.total s" "unat n = frontier s"
    "nodes s1 = (nodes s)(n \<mapsto> blank_vnode t (take 63 nm) p)"
proof -
  note k = kmalloc_room [OF fs_okD(1) [OF ok], of "of_nat sizeof_vnode"]
  have b: "unat (used s) \<le> 16777216" by (rule used_bound [OF ok])
  have n: "unat (HEAP_START + used s) = frontier s"
    using b by (simp add: frontier_def unat_word_ariths)
  show ?thesis
    by (rule that, simp add: make_node_def kzalloc_def k(1) room VFS_NAME_MAX_def)
       (use k(2) room n in \<open>simp_all add: frontier_used\<close>)
qed

lemma add_child_room:
  assumes ok: "heap_ok s" and v: "nodes s p = Some v" and cap: "child_cap v * 8 \<le> 16777216"
    and room: "frontier s + 16 * child_cap v + 64 \<le> heap_end s"
  shows "\<exists>s'. add_child p c s = (True, s')"
proof (cases "length (children v) \<ge> child_cap v")
  case True
  define k where "k = grown_child_cap (child_cap v)"
  have k: "k * 8 \<le> 16 * child_cap v + 64" "k * 8 < 2 ^ 63" "16 dvd k * 8"
    using cap by (auto simp: k_def grown_child_cap_def)
  have sz: "unat (of_nat (k * sizeof_ptr) :: u64) = k * 8"
    using k(2) by (simp add: sizeof_ptr_def unat_of_nat del: of_nat_mult)
  have "up16 (k * 8) = k * 8" using k(3) by (auto simp: up16_def elim!: dvdE)
  then show ?thesis
    using True v kmalloc_room(1) [OF ok, of "of_nat (k * sizeof_ptr)"] sz k(1,2) room
    by (simp add: add_child_def Let_def flip: k_def del: of_nat_mult)
qed (use v in \<open>simp add: add_child_def\<close>)

lemma mk_entry_parent_room:
  assumes ok: "fs_ok s" and rp: "vfs_resolve_parent s path = Some (Some p, nm)" and ne: "nm \<noteq> []"
    and d: "is_dir s p" and free: "child_of s (Some p) nm = None"
    and room: "frontier s + 192 + 16 * child_cap (node s p) \<le> heap_end s"
  shows "\<exists>s'. mk_entry t path s = Some (True, s')"
proof -
  obtain v where v: "nodes s p = Some v" using vfs_resolve_parent_valid(1) [OF ok rp] by blast
  have nv: "node_ok s p v" using ok v by (rule fs_okD(6))
  then obtain n s1 where mn: "make_node t nm (Some p) s = (Some n, s1)"
    and u: "unat (used s1) = unat (used s) + 128" "heap.total s1 = heap.total s"
      "unat n = frontier s" "nodes s1 = (nodes s)(n \<mapsto> blank_vnode t (take 63 nm) (Some p))"
    using make_node_room [OF ok, of t nm "Some p"] room by auto
  have "p \<noteq> n" using nv u(3) by (auto simp: node_ok_def)
  then have v1: "nodes s1 p = Some v" using u(4) v by simp
  have "heap_ok s1" using fs_okD(1) [OF ok] u(1,2) room
    by (auto simp: heap_ok_def frontier_def heap_end_def)
  moreover have "child_cap v * 8 \<le> 16777216" using nv used_bound [OF ok] by (simp add: node_ok_def)
  ultimately obtain s' where "add_child p n s1 = (True, s')"
    using add_child_room [OF _ v1] room u(1,2) v by (auto simp: frontier_def heap_end_def)
  then show ?thesis using rp d free mn ne by (simp add: mk_entry_def)
qed

lemma mk_entry_room:
  assumes pl: "\<forall>x \<in> set nms. plain x" "plain nm" and len: "length (path_of (nms @ [nm])) \<le> 1023"
    and ok: "fs_ok s" and w: "walk s (vfs_root s) nms = Some p" and d: "is_dir s p"
    and free: "child_of s (Some p) nm = None"
    and room: "frontier s + 192 + 16 * child_cap (node s p) \<le> heap_end s"
  shows "\<exists>s'. mk_entry t (path_of (nms @ [nm])) s = Some (True, s')"
  using mk_entry_parent_room [OF ok _ _ d free room, of "path_of (nms @ [nm])"]
    vfs_resolve_parent_path_of [OF pl len, of s] w pl(2) by (simp add: plain_def)

lemma resolve_trailing_slash: "p \<noteq> [] \<Longrightarrow> vfs_resolve s (Some (p @ ''/'')) = vfs_resolve s (Some p)"
  using resolve_loop_append [of s _ p "[]"]
  by (cases p)
     (auto simp: vfs_resolve_def resolve_loop.simps [of _ _ "''/''"] skip_slashes_def split: option.split)

text \<open>A vnode that a path of plain components resolves to is linked from its parent.\<close>

lemma plain_linked:
  assumes ok: "fs_ok s" and pl: "\<forall>x \<in> set nms. plain x" "plain nm"
    and r: "vfs_resolve s (Some (path_of (nms @ [nm]))) = Some n"
  obtains v q w where "n \<noteq> vfs_root s" "nodes s n = Some v" "parent v = Some q" "nodes s q = Some w"
    "n \<in> set (children w)"
proof -
  have pls: "\<forall>x \<in> set (nms @ [nm]). plain x" using pl by auto
  have "walk s (vfs_root s) (nms @ [nm]) = Some n"
    using r vfs_resolve_path_of [OF pls, of s] by simp
  then obtain q where q: "walk s (vfs_root s) nms = Some q" "child_of s (Some q) nm = Some n"
    by (auto simp: walk_snoc)
  then obtain w where w: "nodes s q = Some w"
    using walk_valid [OF ok fs_okD(2) [OF ok] q(1)] by blast
  show ?thesis using child_of_Some(1,4,5) [OF ok w q(2)] w that by blast
qed

section \<open>Properties\<close>

text \<open>C2: In every state that boot and any sequence of file system operations and allocations can
  reach, the invariant holds: the heap is consistent, the root and the working directory are
  directories, every vnode lies below the allocation frontier, its parent is a directory at a
  lower address, its children point back to it, their names are distinct and file data fit the
  block they are stored in.\<close>

theorem fs_invariant: "fs_reachable s \<Longrightarrow> fs_ok s"
  by (rule fs_ok_reachable)

text \<open>C12: A successful \<open>vfs_mkfile\<close> on a path that was free makes the path name an empty file, and
  every path that resolved before names the same vnode with the same content.\<close>

theorem mkfile_creates:
  assumes "fs_ok s" and "\<forall>x \<in> set nms. plain x" and "plain nm"
    and "length (path_of (nms @ [nm])) \<le> 1023"
    and "vfs_mkfile (path_of (nms @ [nm])) s = Some (True, s')"
  shows "vfs_resolve s (Some (path_of (nms @ [nm]))) = None \<and>
         file_at s' (path_of (nms @ [nm])) = Some [] \<and>
         (\<forall>q n. vfs_resolve s q = Some n \<longrightarrow>
            vfs_resolve s' q = Some n \<and> content (node s' n) = content (node s n))"
proof -
  obtain n where n: "vfs_resolve s (Some (path_of (nms @ [nm]))) = None"
    "vfs_resolve s' (Some (path_of (nms @ [nm]))) = Some n" "vtype (node s' n) = FS_TYPE_FILE"
    "content (node s' n) = []" and ex: "extends s s'"
    using mk_entry_plain [OF assms(2-4,1) assms(5) [unfolded vfs_mkfile_def]] by metis
  then show ?thesis using extends_content [OF assms(1) ex] by (simp add: file_at_plain)
qed

text \<open>\<open>vfs_mkdir\<close> makes an empty directory: its path then resolves to it, a file can be created
  in it, and a second \<open>vfs_mkdir\<close> or \<open>vfs_mkfile\<close> on the same path fails and changes nothing.\<close>

theorem mkdir_creates:
  assumes "fs_ok s" and "\<forall>x \<in> set nms. plain x" and "plain nm"
    and "length (path_of (nms @ [nm])) \<le> 1023"
    and "vfs_mkdir (path_of (nms @ [nm])) s = Some (True, s')"
  shows "\<exists>n. vfs_resolve s' (Some (path_of (nms @ [nm]))) = Some n \<and> is_dir s' n \<and>
           children (node s' n) = [] \<and>
           vfs_mkdir (path_of (nms @ [nm])) s' = Some (False, s') \<and>
           vfs_mkfile (path_of (nms @ [nm])) s' = Some (False, s')"
proof -
  obtain n where n: "vfs_resolve s' (Some (path_of (nms @ [nm]))) = Some n"
    "vtype (node s' n) = FS_TYPE_DIR" "children (node s' n) = []"
    using mk_entry_plain [OF assms(2-4,1) assms(5) [unfolded vfs_mkdir_def]] by metis
  then show ?thesis
    using mk_entry_exists [OF assms(2-4) n(1)] by (simp add: vfs_mkdir_def vfs_mkfile_def)
qed

text \<open>C24: \<open>vfs_mkfile\<close> and \<open>vfs_mkdir\<close> do succeed: where the directory part of the path walks to a
  directory, the last component is not in it, and the heap has room for a vnode and a grown
  children array.\<close>

theorem create_succeeds:
  assumes "fs_ok s" and "\<forall>x \<in> set nms. plain x" and "plain nm"
    and "length (path_of (nms @ [nm])) \<le> 1023"
    and "walk s (vfs_root s) nms = Some p" and "is_dir s p" and "child_of s (Some p) nm = None"
    and "frontier s + 192 + 16 * child_cap (node s p) \<le> heap_end s"
  shows "(\<exists>s'. vfs_mkfile (path_of (nms @ [nm])) s = Some (True, s')) \<and>
         (\<exists>s'. vfs_mkdir (path_of (nms @ [nm])) s = Some (True, s'))"
  using mk_entry_room [OF assms(2-4,1,5-8)] by (simp add: vfs_mkfile_def vfs_mkdir_def)

text \<open>C5: Files behave as a map from paths to contents: a successful \<open>vfs_write_file\<close> through a path
  changes what is read through every path to the same file to the new bytes and what is read
  through any other path not at all; a failed one changes nothing.\<close>

theorem write_file_map:
  assumes "fs_ok s" and "length d < 2 ^ 61"
    and "vfs_write_file (vfs_resolve s (Some p)) d s = (r, s')"
  shows "if r then file_at s' q =
             (if vfs_resolve s (Some q) = vfs_resolve s (Some p) then Some d else file_at s q)
         else s' = s"
proof (cases "vfs_resolve s (Some p)")
  case None
  then show ?thesis using assms(3) by (simp add: vfs_write_file_def)
next
  case (Some n)
  then obtain v where v: "nodes s n = Some v" using vfs_resolve_valid [OF assms(1)] by blast
  show ?thesis
  proof (cases "vtype v = FS_TYPE_FILE")
    case True
    from vfs_write_file_cases [OF assms(1) v True assms(2) assms(3) [unfolded Some]] show ?thesis
      using file_at_file_step [of s n d s' q] v True Some by auto
  qed (use assms(3) Some v in \<open>simp add: vfs_write_file_def Let_def\<close>)
qed

text \<open>C22: \<open>vfs_append_file\<close> adds its bytes behind what every path to the file reads, keeps the other
  files, and changes nothing when it fails.\<close>

theorem append_file_map:
  assumes "fs_ok s" and "length d < 2 ^ 61"
    and "vfs_append_file (vfs_resolve s (Some p)) d s = (r, s')"
  shows "if r then \<exists>txt. file_at s p = Some txt \<and> file_at s' q =
             (if vfs_resolve s (Some q) = vfs_resolve s (Some p) then Some (txt @ d) else file_at s q)
         else s' = s"
proof (cases "vfs_resolve s (Some p)")
  case None
  then show ?thesis using assms(3) by (simp add: vfs_append_file_def)
next
  case (Some n)
  then obtain v where v: "nodes s n = Some v" using vfs_resolve_valid [OF assms(1)] by blast
  show ?thesis
  proof (cases "vtype v = FS_TYPE_FILE")
    case True
    then have "file_at s p = Some (content v)" using Some v by (simp add: file_at_plain)
    with vfs_append_file_cases [OF assms(1) v True assms(2) assms(3) [unfolded Some]] show ?thesis
      using file_at_file_step [of s n "content v @ d" s' q] v True Some by auto
  qed (use assms(3) Some v in \<open>simp add: vfs_append_file_def Let_def\<close>)
qed

text \<open>\<open>vfs_write_file\<close> succeeds on a file when the heap has room for the block that the doubling
  loop arrives at, at most twice the bytes to be stored.\<close>

theorem write_file_succeeds:
  assumes "fs_ok s" and "vfs_resolve s (Some p) = Some n" and "is_file s n" and "length d < 2 ^ 61"
    and "frontier s + max (max (fcap (node s n)) 64) (2 * length d) + 15 \<le> heap_end s"
  shows "\<exists>s'. vfs_write_file (Some n) d s = (True, s')"
proof (cases "length d + 1 > fcap (node s n)")
  case True
  define nc where "nc = write_cap (fcap (node s n)) (length d)"
  have nc: "nc \<le> max (max (fcap (node s n)) 64) (2 * length d)"
    using write_cap_bounds [of "length d" "fcap (node s n)"] by (simp add: nc_def)
  obtain v where v: "nodes s n = Some v" using vfs_resolve_valid [OF assms(1,2)] by blast
  then have "nc < 2 ^ 63" using nc assms(4) file_node(3) [OF assms(1) v] by auto
  then have u: "unat (of_nat nc :: u64) = nc" by (simp add: unat_of_nat)
  have "up16 nc \<le> max (max (fcap (node s n)) 64) (2 * length d) + 15"
    using up16_less [of nc] nc by linarith
  then show ?thesis
    using kmalloc_room(1) [OF fs_okD(1) [OF assms(1)], of "of_nat nc"] u \<open>nc < 2 ^ 63\<close> assms(3,5) True
    by (simp add: vfs_write_file_def Let_def flip: nc_def)
qed (use assms(3) in \<open>simp add: vfs_write_file_def Let_def\<close>)

text \<open>C4: \<open>vfs_rm_recursive\<close> on a path of plain components always returns; it succeeds exactly when
  the path resolves, nothing is found under the path afterwards, and the invariant holds again.\<close>

theorem rm_recursive_removes:
  assumes "fs_ok s" and "\<forall>x \<in> set nms. plain x" and "plain nm"
  shows "\<exists>s'. vfs_rm_recursive (path_of (nms @ [nm])) s =
             Some (vfs_resolve s (Some (path_of (nms @ [nm]))) \<noteq> None, s') \<and>
           vfs_resolve s' (Some (path_of (nms @ [nm]))) = None \<and> fs_ok s'"
proof -
  let ?p = "path_of (nms @ [nm])"
  have link: "n \<noteq> vfs_root s \<and> (\<exists>q. parent (node s n) = Some q \<and> n \<in> set (children (node s q)))"
    if r: "vfs_resolve s (Some ?p) = Some n" for n
    using plain_linked [OF assms r] by (metis node_Some)
  from rm_recursive_cases [OF assms(1), of ?p] show ?thesis
  proof (elim disjE conjE exE)
    assume rm: "vfs_rm_recursive ?p s = Some (False, s)" and "vfs_resolve s (Some ?p) = None"
    then show ?thesis using assms(1) by simp
  next
    assume "vfs_resolve s (Some ?p) = Some (vfs_root s)"
    then show ?thesis using link by blast
  next
    fix n v p s'
    assume r: "vfs_resolve s (Some ?p) = Some n" and v: "nodes s n = Some v" and p: "parent v = Some p"
      and rm: "vfs_rm_recursive ?p s = Some (n \<in> set (children (node s p)), s')"
      and re: "removed n p s s'"
    have "vfs_resolve s' (Some ?p) = None"
      by (rule removed_path_gone [OF assms(1-3) r]) (use re v p in \<open>auto simp: removed_def\<close>)
    then show ?thesis using rm re r link [OF r] v p by (auto simp: removed_def)
  qed
qed

lemma rm_plain:
  assumes "fs_ok s" and "\<forall>x \<in> set nms. plain x" and "plain nm"
    and r: "vfs_resolve s (Some (path_of (nms @ [nm]))) = Some n"
    and e: "\<not> (is_dir s n \<and> children (node s n) \<noteq> [])"
  shows "\<exists>s'. vfs_rm (path_of (nms @ [nm])) s = (True, s') \<and> fs_ok s' \<and> vfs_resolve s' (Some (path_of (nms @ [nm]))) = None"
proof -
  obtain v q w where l: "n \<noteq> vfs_root s" "nodes s n = Some v" "parent v = Some q" "nodes s q = Some w"
    "n \<in> set (children w)"
    using plain_linked [OF assms(1-3) r] .
  let ?t = "set_node q (w\<lparr>children := remove1 n (children w)\<rparr>) s"
  have un: "vfs_unlink_node (Some n) s = (True, ?t)"
    using vfs_unlink_node_eq [OF assms(1) l(2,1,3)] l(4,5) by simp
  note u = fs_ok_unlink [OF assms(1) l(2), unfolded un snd_conv]
  have "vfs_resolve ?t (Some (path_of (nms @ [nm]))) = None"
    by (rule removed_path_gone [OF assms(1-3) r _ u(2)]) (use l in auto)
  then show ?thesis using r l un u(1) e by (simp add: vfs_rm_def)
qed

text \<open>C23: \<open>vfs_rm\<close> on a path of plain components refuses an unresolved path and a directory that is
  not empty, leaving the state as it is; on a file or an empty directory it succeeds, and nothing is
  found under the path afterwards.\<close>

theorem rm_removes:
  assumes "fs_ok s" and "\<forall>x \<in> set nms. plain x" and "plain nm"
  shows "case vfs_resolve s (Some (path_of (nms @ [nm]))) of
           None \<Rightarrow> vfs_rm (path_of (nms @ [nm])) s = (False, s)
         | Some n \<Rightarrow>
             if is_dir s n \<and> children (node s n) \<noteq> []
             then vfs_rm (path_of (nms @ [nm])) s = (False, s)
             else \<exists>s'. vfs_rm (path_of (nms @ [nm])) s = (True, s') \<and> fs_ok s' \<and>
                    vfs_resolve s' (Some (path_of (nms @ [nm]))) = None"
proof (cases "vfs_resolve s (Some (path_of (nms @ [nm])))")
  case None
  then show ?thesis by (simp add: vfs_rm_def)
next
  case (Some n)
  obtain v q w where "n \<noteq> vfs_root s" "nodes s n = Some v" "parent v = Some q" "nodes s q = Some w" "n \<in> set (children w)"
    using plain_linked [OF assms Some] .
  then show ?thesis using rm_plain [OF assms Some] Some by (simp add: vfs_rm_def)
qed

text \<open>C25: Changing into a directory that the root reaches through plain names and less than 64 levels
  sets \<open>vfs_pwd\<close> to the names on the way, and resolving \<open>vfs_pwd\<close> leads back to the directory.\<close>

theorem pwd_roundtrip:
  assumes "fs_ok s" and "attached s n nms" and "length nms < 64" and "length (path_of nms) < 1024"
  shows "\<exists>s'. vfs_update_pwd (s\<lparr>vfs_cwd := n\<rparr>) = Some s' \<and>
           vfs_pwd s' = (if nms = [] then ''/'' else path_of nms) \<and>
           vfs_resolve s' (Some (vfs_pwd s')) = Some n"
proof -
  have root: "n = vfs_root s \<longleftrightarrow> nms = []"
  proof
    assume "n = vfs_root s"
    then show "nms = []" using attached_pwd_names [OF assms(1,2), of 64] assms(3)
      by (cases "64 :: nat") auto
  next
    assume "nms = []"
    then show "n = vfs_root s" using assms(2) by (auto elim: attached.cases)
  qed
  note w = attached_walk [OF assms(1,2)]
  show ?thesis
  proof (cases "nms = []")
    case True
    then have "n = vfs_root s" using root by simp
    then show ?thesis using True
      by (simp add: vfs_update_pwd_def vfs_resolve_def resolve_loop.simps [of _ _ "''/''"] skip_slashes_def)
  next
    case False
    define t where "t = s\<lparr>vfs_cwd := n\<rparr>"
    have st: "pwd_names t k m = pwd_names s k m" for k m
    proof (induction k arbitrary: m)
      case (Suc k)
      then show ?case by (cases m) (simp_all add: t_def node_def)
    qed simp
    have buf: "pwd_names t 64 (Some n) = rev nms" "concat (map ((#) CHR ''/'') nms) = path_of nms"
      using attached_pwd_names [OF assms(1,2), of 64] assms(3) by (simp_all add: st path_of_def)
    have "same_tree t (t\<lparr>vfs_pwd := x\<rparr>)" for x by (simp add: same_tree_def node_def)
    from vfs_resolve_same_tree [OF this] have r: "vfs_resolve (t\<lparr>vfs_pwd := x\<rparr>) p = vfs_resolve t p" for x p .
    have "walk t m xs = walk s m xs" for m xs
      by (induction xs arbitrary: m) (simp_all add: t_def child_of_def node_def split: option.split)
    then have "vfs_resolve t (Some (path_of nms)) = Some n"
      using vfs_resolve_path_of [of nms t] w False by (simp add: t_def)
    then show ?thesis
      using False root assms(4) buf r unfolding t_def [symmetric]
      by (simp add: vfs_update_pwd_def Let_def) (simp add: t_def)
  qed
qed

text \<open>C26: Resolving is compositional: a path resolves to where its rest, taken as a path with a
  leading slash from the vnode that the first part resolves to, leads; in particular a trailing
  slash and a trailing \<open>/.\<close> change nothing and a trailing \<open>/..\<close> leads to the parent.\<close>

theorem resolve_compose:
  assumes "p \<noteq> []"
  shows "vfs_resolve s (Some (p @ CHR ''/'' # q)) =
           (case vfs_resolve s (Some p) of None \<Rightarrow> None | Some c \<Rightarrow> resolve_loop s c (CHR ''/'' # q)) \<and>
         vfs_resolve s (Some (p @ ''/'')) = vfs_resolve s (Some p) \<and>
         vfs_resolve s (Some (p @ ''/.'')) = vfs_resolve s (Some p) \<and>
         vfs_resolve s (Some (p @ ''/..'')) =
           map_option (\<lambda>c. case parent (node s c) of Some u \<Rightarrow> u | None \<Rightarrow> c) (vfs_resolve s (Some p))"
proof -
  have c: "vfs_resolve s (Some (p @ CHR ''/'' # q)) =
      (case vfs_resolve s (Some p) of None \<Rightarrow> None | Some c \<Rightarrow> resolve_loop s c (CHR ''/'' # q))" for q
    using assms resolve_loop_append [of s _ p] by (cases p) (simp_all add: vfs_resolve_def)
  have "resolve_loop s c ''/'' = Some c" "resolve_loop s c ''/.'' = Some c"
    "resolve_loop s c ''/..'' = Some (case parent (node s c) of Some u \<Rightarrow> u | None \<Rightarrow> c)" for c
    by (simp_all add: resolve_loop.simps [of s c "CHR ''/'' # q" for q] skip_slashes_def path_name_def
        path_rest_def VFS_NAME_MAX_def)
  then show ?thesis by (simp add: c split: option.split)
qed

text \<open>A last component of 64 or more characters overruns the 64-byte name buffer of \<open>vfs_mkfile\<close>
  and \<open>vfs_mkdir\<close>, whatever the state of the file system: both calls are undefined.\<close>

theorem long_name_overruns:
  assumes "NUL \<notin> set (d @ nm)" and "CHR ''/'' \<notin> set nm" and "64 \<le> length nm"
    and "length d + length nm < 1023"
  shows "vfs_mkfile (d @ CHR ''/'' # nm) s = None \<and> vfs_mkdir (d @ CHR ''/'' # nm) s = None"
  using vfs_resolve_parent_overflow [OF _ assms(2) _ assms(3,4), of s] assms(1)
  by (simp add: vfs_mkfile_def vfs_mkdir_def mk_entry_def)

text \<open>\<open>vfs_mkdir\<close> on a path with a trailing slash enters a directory of the name \<open>/\<close> in the directory
  that the path names; the path itself resolves to the same directory as before.\<close>

theorem trailing_slash_entry:
  assumes "fs_ok s" and "\<forall>x \<in> set nms. plain x" and "nms \<noteq> []" and "length (path_of nms) < 1023"
    and "vfs_mkdir (path_of nms @ ''/'') s = Some (True, s')"
  shows "\<exists>p c. vfs_resolve s (Some (path_of nms)) = Some p \<and>
           children (node s' p) = children (node s p) @ [c] \<and> name (node s' c) = ''/'' \<and>
           is_dir s' c \<and> vfs_resolve s' (Some (path_of nms @ ''/'')) = Some p"
proof -
  have rp: "vfs_resolve_parent s (path_of nms @ ''/'') = Some (vfs_resolve s (Some (path_of nms)), ''/'')"
    using vfs_resolve_parent_split [of "path_of nms" "[]" s] path_of_no_NUL [OF assms(2)] assms(3,4) by simp
  obtain p v n where e: "vfs_resolve s (Some (path_of nms)) = Some p" "nodes s p = Some v"
    "extends s s'" "children (node s' p) = children v @ [n]"
    "\<exists>w. nodes s' n = Some w \<and> vtype w = FS_TYPE_DIR \<and> name w = ''/'' \<and> parent w = Some p \<and>
       children w = [] \<and> content w = []"
    using mk_entry_effect [OF assms(1) assms(5) [unfolded vfs_mkdir_def]] unfolding rp
    by (metis option.inject prod.inject)
  have "vfs_resolve s' (Some (path_of nms)) = Some p"
    by (rule vfs_resolve_extends [OF assms(1) e(3,1)])
  then have "vfs_resolve s' (Some (path_of nms @ ''/'')) = Some p"
    using resolve_trailing_slash [of "path_of nms" s'] assms(3) by simp
  then show ?thesis using e by auto
qed

section \<open>The properties at work\<close>

definition raw_fs :: fs where
  "raw_fs = \<lparr>used = 0, total = 0, ram = (\<lambda>_. NUL), nodes = Map.empty, vfs_root = 0, vfs_cwd = 0,
     vfs_pwd = []\<rparr>"

lemma boot_evaluates: "\<not> Option.is_none (vfs_init (kheap_init 65536 raw_fs))"
  by code_simp

lemma demo_write: "vfs_write_file (Some 16777600) ''new'' demo_fs =
    (True, set_node 16777600 (demo_a\<lparr>data := Some (''new'' @ [NUL]), fsize := 3\<rparr>) demo_fs)"
  by (simp add: vfs_write_file_def) (simp add: demo_a_def numeral_3_eq_3)

lemma demo_append: "vfs_append_file (Some 16777600) ''!'' demo_fs =
    (True, set_node 16777600 (demo_a\<lparr>data := Some (''hi!'' @ [NUL]), fsize := 3\<rparr>) demo_fs)"
  by (simp add: vfs_append_file_def) (simp add: demo_a_def numeral_3_eq_3)

lemma demo_room: "frontier demo_fs + 192 + 16 * 8 \<le> heap_end demo_fs"
  "child_cap demo_tmp = 8" "is_dir demo_fs 16777408" "is_file demo_fs 16777600" "fcap demo_a = 64"
  by (simp_all add: frontier_def heap_end_def) (simp_all add: demo_simps)

lemma demo_create:
  "\<exists>s'. mk_entry t (path_of ([''tmp''] @ [''b''])) demo_fs = Some (True, s')"
  by (rule mk_entry_room [where p = 16777408]) (use demo_room fs_ok_demo in simp_all)

theorem fs_invariant_witness: "\<exists>t. vfs_init (kheap_init 65536 raw_fs) = Some t \<and> fs_ok t"
proof -
  obtain t where t: "vfs_init (kheap_init 65536 raw_fs) = Some t"
    using boot_evaluates by (cases "vfs_init (kheap_init 65536 raw_fs)") auto
  have "fs_reachable t" by (rule fs_reachable.boot [OF _ t]) (simp add: raw_fs_def)
  then show ?thesis using t fs_invariant [of t] by blast
qed

theorem mkfile_creates_witness:
  "\<exists>s'. vfs_mkfile (path_of ([''tmp''] @ [''b''])) demo_fs = Some (True, s') \<and>
     file_at s' (path_of ([''tmp''] @ [''b''])) = Some []"
proof -
  obtain s' where s': "vfs_mkfile (path_of ([''tmp''] @ [''b''])) demo_fs = Some (True, s')"
    using demo_create by (auto simp: vfs_mkfile_def)
  show ?thesis using mkfile_creates [OF fs_ok_demo _ _ _ s'] s' by simp
qed

theorem mkdir_creates_witness:
  "\<exists>s'. vfs_mkdir (path_of ([''tmp''] @ [''b''])) demo_fs = Some (True, s') \<and>
     vfs_mkdir (path_of ([''tmp''] @ [''b''])) s' = Some (False, s')"
proof -
  obtain s' where s': "vfs_mkdir (path_of ([''tmp''] @ [''b''])) demo_fs = Some (True, s')"
    using demo_create by (auto simp: vfs_mkdir_def)
  show ?thesis using mkdir_creates [OF fs_ok_demo _ _ _ s'] s' by auto
qed

theorem create_succeeds_witness:
  "\<exists>s'. vfs_mkfile (path_of ([''tmp''] @ [''b''])) demo_fs = Some (True, s')"
  using create_succeeds [OF fs_ok_demo, of "[''tmp'']" "''b''" 16777408] demo_room by simp

theorem write_file_map_witness:
  "\<exists>s'. vfs_write_file (vfs_resolve demo_fs (Some (path_of [''tmp'', ''a'']))) ''new'' demo_fs = (True, s') \<and>
     file_at s' (path_of [''tmp'', ''a'']) = Some ''new''"
proof -
  obtain s' where s': "vfs_write_file (Some 16777600) ''new'' demo_fs = (True, s')"
    using demo_write by blast
  then show ?thesis
    using write_file_map [OF fs_ok_demo, of "''new''" "path_of [''tmp'', ''a'']" True s' "path_of [''tmp'', ''a'']"]
    by (simp add: demo_resolve del: path_of_simps)
qed

theorem append_file_map_witness:
  "\<exists>s'. vfs_append_file (vfs_resolve demo_fs (Some (path_of [''tmp'', ''a'']))) ''!'' demo_fs = (True, s') \<and>
     file_at s' (path_of [''tmp'', ''a'']) = Some ''hi!''"
proof -
  obtain s' where s': "vfs_append_file (Some 16777600) ''!'' demo_fs = (True, s')"
    using demo_append by blast
  have "file_at demo_fs (path_of [''tmp'', ''a'']) = Some ''hi''"
    using demo_room by (simp add: file_at_def demo_resolve del: path_of_simps)
      (simp add: content_def demo_a_def)
  then show ?thesis
    using s' append_file_map [OF fs_ok_demo, of "''!''" "path_of [''tmp'', ''a'']" True s' "path_of [''tmp'', ''a'']"]
    by (simp add: demo_resolve del: path_of_simps)
qed

theorem write_file_succeeds_witness: "\<exists>s'. vfs_write_file (Some 16777600) ''new'' demo_fs = (True, s')"
  by (rule write_file_succeeds [OF fs_ok_demo demo_resolve(2)])
     (use demo_room in \<open>simp_all add: frontier_def heap_end_def\<close>)

theorem rm_recursive_removes_witness:
  "\<exists>s'. vfs_rm_recursive (path_of ([] @ [''tmp''])) demo_fs = Some (True, s') \<and>
     vfs_resolve s' (Some (path_of ([] @ [''tmp'']))) = None"
  using rm_recursive_removes [OF fs_ok_demo, of "[]" "''tmp''"] demo_resolve(1) by auto

theorem rm_removes_witness:
  "vfs_rm (path_of ([] @ [''tmp''])) demo_fs = (False, demo_fs)"
  using rm_removes [OF fs_ok_demo, of "[]" "''tmp''"] demo_resolve(1) demo_room(3)
  by (simp del: path_of_simps) (simp add: demo_tmp_def)

lemma demo_attached: "attached demo_fs 16777408 [''tmp'']"
  using attached.child [OF attached.root, of 16777408 demo_fs]
  by (simp add: demo_tmp_def) (simp add: demo_root_def)

theorem pwd_roundtrip_witness:
  "\<exists>s'. vfs_update_pwd (demo_fs\<lparr>vfs_cwd := 16777408\<rparr>) = Some s' \<and> vfs_pwd s' = ''/tmp'' \<and>
     vfs_resolve s' (Some (vfs_pwd s')) = Some 16777408"
  using pwd_roundtrip [OF fs_ok_demo demo_attached] by simp

theorem resolve_compose_witness:
  "vfs_resolve demo_fs (Some (path_of [''tmp''] @ ''/..'')) = Some 16777216"
proof -
  have ne: "path_of [''tmp''] \<noteq> []" by simp
  have "vfs_resolve demo_fs (Some (path_of [''tmp''] @ ''/..'')) =
      map_option (\<lambda>c. case parent (node demo_fs c) of Some u \<Rightarrow> u | None \<Rightarrow> c)
        (vfs_resolve demo_fs (Some (path_of [''tmp''])))"
    using resolve_compose [OF ne] by blast
  then show ?thesis unfolding demo_resolve(1) by (simp add: demo_tmp_def)
qed

theorem long_name_overruns_witness:
  "vfs_mkfile (''/tmp'' @ CHR ''/'' # replicate 64 CHR ''x'') demo_fs = None"
  using long_name_overruns [of "''/tmp''" "replicate 64 CHR ''x''" demo_fs] by simp

theorem trailing_slash_entry_witness:
  "\<exists>s' c. vfs_mkdir (path_of [''tmp''] @ ''/'') demo_fs = Some (True, s') \<and>
     children (node s' 16777408) = children (node demo_fs 16777408) @ [c] \<and> name (node s' c) = ''/''"
proof -
  have "vfs_resolve_parent demo_fs (path_of [''tmp''] @ ''/'') = Some (Some 16777408, ''/'')"
    using vfs_resolve_parent_split [of "path_of [''tmp'']" "[]" demo_fs] demo_resolve(1) by simp
  moreover have "child_of demo_fs (Some 16777408) ''/'' = None"
    using demo_room(3) by (simp add: child_of_None) (simp add: demo_tmp_def, simp add: demo_a_def)
  ultimately obtain s' where s': "vfs_mkdir (path_of [''tmp''] @ ''/'') demo_fs = Some (True, s')"
    using mk_entry_parent_room [OF fs_ok_demo _ _ demo_room(3)] demo_room
    unfolding vfs_mkdir_def by fastforce
  show ?thesis
    using trailing_slash_entry [OF fs_ok_demo _ _ _ s'] demo_resolve(1) s' by auto
qed

end
