(* ===== verification/Demo.thy ===== *)
theory Demo
  imports Vfs_Props Shell_Io
begin

text \<open>
  A concrete state of the shell, on which the properties of the shell and of its commands are shown
  to apply: the small tree of theory \<open>Vfs_Props\<close>, an empty screen, no redirections and no pipes.
\<close>

definition demo_shell :: shell where
  "demo_shell = fs.extend demo_fs
     \<lparr>screen = \<lparr>vmem = replicate 2000 0, vrow = 0, vcol = 0, vattr = 7, crtc_index = 0, crtc_hi = 0, crtc_lo = 0\<rparr>,
      line_out = [], keys = [], out_file = None, out_append = False, in_file = None, in_off = 0,
      pipe0 = \<lparr>allocated = False, pbytes = []\<rparr>, pipe1 = \<lparr>allocated = False, pbytes = []\<rparr>,
      pipe_in_off = 0, pipe_writing = False, pipe_reader = None, pipe_writer = None,
      last_exit = 0, history = [], hist_pos = 0, shell_hostname = ''bojanos'', ticks = 0,
      cmos = (\<lambda>n r. 0), cmos_reads = 0, total_mem_kb = 65536, cpu_vendor = ''GenuineIntel''\<rparr>"

lemma demo_shell_sel [simp]:
  "used demo_shell = 576" "total demo_shell = 65536" "nodes demo_shell = nodes demo_fs"
  "vfs_root demo_shell = 16777216" "vfs_cwd demo_shell = 16777216" "vfs_pwd demo_shell = ''/''"
  "line_out demo_shell = []" "keys demo_shell = []" "out_file demo_shell = None"
  "in_file demo_shell = None" "in_off demo_shell = 0" "pipe_in_off demo_shell = 0"
  "pipe_writing demo_shell = False" "pipe_reader demo_shell = None" "pipe_writer demo_shell = None"
  "last_exit demo_shell = 0" "history demo_shell = []" "hist_pos demo_shell = 0"
  "pipe0 demo_shell = \<lparr>allocated = False, pbytes = []\<rparr>"
  "pipe1 demo_shell = \<lparr>allocated = False, pbytes = []\<rparr>"
  by (simp_all add: demo_shell_def demo_fs_def fs.extend_def)

lemma fs_ok_truncate_eq: "fs_ok (fs.truncate s) = fs_ok s"
  by (simp add: fs_ok_def node_ok_def heap_ok_def frontier_def node_def fs.truncate_def)

lemma fs_ok_demo_shell [simp]: "fs_ok demo_shell"
proof -
  have "fs.truncate demo_shell = demo_fs"
    by (simp add: demo_shell_def fs.extend_def fs.truncate_def demo_fs_def)
  then show ?thesis using fs_ok_truncate_eq [of demo_shell] fs_ok_demo by simp
qed

lemma heap_ok_demo_shell [simp]: "heap_ok demo_shell"
  by (rule fs_okD(1)) simp

end
