(* ===== verification/Tokenize_Spec.thy ===== *)
theory Tokenize_Spec
  imports Tokenize Demo
begin

text \<open>
  The tokenizer on strings, and the proof that the in-place tokenizer implements it: what it writes
  over the line never reaches a character that is still to be read, and never a word that is already
  there.
\<close>

section \<open>The tokenizer on strings\<close>

text \<open>One word: the characters it stands for and the rest of the line.  \<open>num\<close> is the exit status.\<close>

function word_spec :: "string \<Rightarrow> nat \<Rightarrow> string \<Rightarrow> string \<times> string" where
  "word_spec num q [] = ([], [])"
| "word_spec num q (c # r) =
     (if c = QUOTE \<and> q \<noteq> 2 then word_spec num (if q = 1 then 0 else 1) r
      else if c = DQUOTE \<and> q \<noteq> 1 then word_spec num (if q = 2 then 0 else 2) r
      else if q = 0 \<and> ends_word c then ([], c # r)
      else if q = 0 \<and> c = CHR ''$'' \<and> r \<noteq> [] \<and> hd r = CHR ''?'' then
        (let (w, t) = word_spec num q (tl r) in (num @ w, t))
      else (let (w, t) = word_spec num q r in (c # w, t)))"
  by pat_completeness auto
termination by (relation "measure (\<lambda>(num, q, s). length s)") auto

declare word_spec.simps(2) [simp del]

definition tilde :: "string \<Rightarrow> string" where
  "tilde w = (case w of [] \<Rightarrow> [] | c # r \<Rightarrow>
     if c = CHR ''~'' \<and> (case r of [] \<Rightarrow> True | d # _ \<Rightarrow> d = CHR ''/'') then ''/root'' @ r else w)"

record spec_line =
  words :: "string list"
  to_file :: "(bool \<times> string) option"
  from_file :: "string option"

lemma word_spec_shorter: "length (snd (word_spec num q s)) \<le> length s"
proof (induction num q s rule: word_spec.induct)
  case (2 num q c r)
  then show ?case
    by (cases r) (auto simp: word_spec.simps(2) [of num q c] Let_def case_prod_unfold)
qed simp

text \<open>The character that ends a word or a target is skipped, whatever it is.\<close>

function tokens_spec :: "string \<Rightarrow> string \<Rightarrow> spec_line \<Rightarrow> spec_line option" where
  "tokens_spec num str sl =
     (if str = [] \<or> length (words sl) \<ge> 63 then Some sl
      else
        (case dropWhile blank str of
           [] \<Rightarrow> Some sl
         | c # r \<Rightarrow>
             if c = CHR ''>'' \<or> c = CHR ''<'' then
               (let app = (c = CHR ''>'' \<and> r \<noteq> [] \<and> hd r = CHR ''>'');
                    r2 = dropWhile blank (if app then tl r else r);
                    target = takeWhile (\<lambda>c. \<not> ends_word c) r2;
                    r3 = dropWhile (\<lambda>c. \<not> ends_word c) r2
                in if length target \<ge> 255 then None
                   else tokens_spec num (tl r3)
                     (if c = CHR ''>'' then sl\<lparr>to_file := Some (app, target)\<rparr>
                      else sl\<lparr>from_file := Some target\<rparr>))
             else
               tokens_spec num (tl (snd (word_spec num 0 (c # r))))
                 (sl\<lparr>words := words sl @ [tilde (fst (word_spec num 0 (c # r)))]\<rparr>)))"
  by pat_completeness auto
termination
proof (relation "measure (\<lambda>(num, str, sl). length str)", goal_cases)
  case (2 num str sl c r app r2 target r3)
  have "length (c # r) \<le> length str" using 2(2) length_dropWhile_le [of blank str] by simp
  moreover have "length r3 \<le> length r2" "length r2 \<le> length (if app then tl r else r)"
    using 2(5,7) by (simp_all add: length_dropWhile_le)
  moreover have "length (if app then tl r else r) \<le> length r" by (cases r) auto
  ultimately show ?case by (cases r3) auto
next
  case (3 num str sl c r)
  have "length (c # r) \<le> length str" using 3(2) length_dropWhile_le [of blank str] by simp
  moreover have "length (snd (word_spec num 0 (c # r))) \<le> length (c # r)" by (rule word_spec_shorter)
  ultimately show ?case by (cases "snd (word_spec num 0 (c # r))") auto
qed simp

declare tokens_spec.simps [simp del]

section \<open>One word in place\<close>

lemma append_str_eq:
  "out + length s \<le> length b \<Longrightarrow>
   append_str b out s = Some (take out b @ s @ drop (out + length s) b, out + length s)"
proof (induction s arbitrary: b out)
  case (Cons c s)
  have "append_str b out (c # s) = append_str (b[out := c]) (out + 1) s" using Cons.prems by simp
  also have "\<dots> = Some (take (out + 1) (b[out := c]) @ s @ drop (out + 1 + length s) (b[out := c]),
      out + 1 + length s)"
    using Cons.prems by (intro Cons.IH) simp
  also have "take (out + 1) (b[out := c]) = take out b @ [c]"
    using Cons.prems by (simp add: take_Suc_conv_app_nth)
  finally show ?case by simp
qed simp

lemma drop_eq_ConsD: "drop p b = c # r \<Longrightarrow> p < length b \<and> b ! p = c \<and> drop (Suc p) b = r"
  by (metis Cons_nth_drop_Suc drop_all linorder_not_less list.distinct(1) list.inject)

text \<open>The in-place loop writes the word that \<open>word_spec\<close> gives and stops where it stops; the line
  before the word and the part behind the reader are as they were.\<close>

definition word_done ::
  "int \<Rightarrow> char list \<Rightarrow> nat \<Rightarrow> nat \<Rightarrow> nat \<Rightarrow> string \<times> string \<Rightarrow> nat \<Rightarrow> char list \<Rightarrow> bool" where
  "word_done code b p out q wt len tail \<longleftrightarrow>
     (\<exists>b'. word_loop code b p out q = Some (b', p + (len - length (snd wt)), out + length (fst wt)) \<and>
        length b' = length b \<and> take out b' = take out b \<and>
        take (length (fst wt)) (drop out b') = fst wt \<and>
        drop (p + (len - length (snd wt))) b' = snd wt @ NUL # tail \<and>
        out + length (fst wt) \<le> p + (len - length (snd wt)))"

lemma word_done_skip:
  assumes "word_done code b (Suc p) out q' wt len tail" and "length (snd wt) \<le> len"
    and "word_loop code b p out q = word_loop code b (Suc p) out q'"
  shows "word_done code b p out q wt (Suc len) tail"
  using assms by (simp add: word_done_def Suc_diff_le)

lemma word_loop_spec:
  assumes "drop p b = rest @ NUL # tail" and "NUL \<notin> set rest" and "out \<le> p"
    and "length num \<le> 2" and "num = exit_digits code"
  shows "word_done code b p out q (word_spec num q rest) (length rest) tail"
  using assms
proof (induction num q rest arbitrary: b p out rule: word_spec.induct)
  case (1 num q)
  then have "p < length b" "b ! p = NUL" using drop_eq_ConsD [of p b NUL tail] by simp_all
  then show ?case using 1 by (subst word_done_def, subst word_loop.simps) simp
next
  case (2 num q c r)
  have d: "p < length b" "b ! p = c" "drop (Suc p) b = r @ NUL # tail"
    using drop_eq_ConsD [of p b c "r @ NUL # tail"] "2.prems"(1) by simp_all
  have c: "c \<noteq> NUL" and r: "NUL \<notin> set r" using "2.prems"(2) by auto
  note st = word_loop.simps [of code b p out q] word_spec.simps(2) [of num q c r]
  have le: "length (snd (word_spec num k r)) \<le> length r" for k by (rule word_spec_shorter)
  consider (sq) "c = QUOTE" "q \<noteq> 2" | (dq) "c = DQUOTE" "q \<noteq> 1" "\<not> (c = QUOTE \<and> q \<noteq> 2)"
    | (stop) "q = 0" "ends_word c" "\<not> (c = QUOTE \<and> q \<noteq> 2)" "\<not> (c = DQUOTE \<and> q \<noteq> 1)"
    | (exp) "q = 0" "\<not> ends_word c" "c = CHR ''$''" "r \<noteq> []" "hd r = CHR ''?''"
    | (char) "\<not> (c = QUOTE \<and> q \<noteq> 2)" "\<not> (c = DQUOTE \<and> q \<noteq> 1)" "\<not> (q = 0 \<and> ends_word c)"
        "\<not> (q = 0 \<and> c = CHR ''$'' \<and> r \<noteq> [] \<and> hd r = CHR ''?'')"
    by argo
  then show ?case
  proof cases
    case sq
    have "word_done code b (Suc p) out (if q = 1 then 0 else 1) (word_spec num (if q = 1 then 0 else 1) r)
        (length r) tail"
      using "2.IH"(1) [OF _ d(3) r] sq "2.prems" by simp
    moreover have "word_loop code b p out q = word_loop code b (Suc p) out (if q = 1 then 0 else 1)"
      "word_spec num q (c # r) = word_spec num (if q = 1 then 0 else 1) r"
      unfolding st using sq d(1,2) c by simp_all
    ultimately show ?thesis using word_done_skip le by simp
  next
    case dq
    have "word_done code b (Suc p) out (if q = 2 then 0 else 2) (word_spec num (if q = 2 then 0 else 2) r)
        (length r) tail"
      using "2.IH"(2) [OF _ _ d(3) r] dq "2.prems" by simp
    moreover have "word_loop code b p out q = word_loop code b (Suc p) out (if q = 2 then 0 else 2)"
      "word_spec num q (c # r) = word_spec num (if q = 2 then 0 else 2) r"
      unfolding st using dq d(1,2) c by simp_all
    ultimately show ?thesis using word_done_skip le by simp
  next
    case stop
    have "word_loop code b p out q = Some (b, p, out)" "word_spec num q (c # r) = ([], c # r)"
      unfolding st using stop d(1,2) c by simp_all
    then show ?thesis using "2.prems" by (simp add: word_done_def)
  next
    case exp
    obtain r' where r': "r = CHR ''?'' # r'" using exp by (cases r) auto
    have d2: "Suc p < length b" "b ! Suc p = CHR ''?''" "drop (Suc (Suc p)) b = r' @ NUL # tail"
      using drop_eq_ConsD [of "Suc p" b "CHR ''?''" "r' @ NUL # tail"] d(3) r' by simp_all
    have fit: "out + length num \<le> Suc (Suc p)" using "2.prems"(3,4) by simp
    define b1 where "b1 = take out b @ num @ drop (out + length num) b"
    have ap: "append_str b out num = Some (b1, out + length num)"
      unfolding b1_def by (rule append_str_eq) (use fit d2 in simp)
    have l1: "length b1 = length b" using fit d2 by (simp add: b1_def)
    have "drop (Suc (Suc p)) b1 = drop (Suc (Suc p)) b"
      using fit d2 "2.prems"(3) by (simp add: b1_def min_def)
    then have dr: "drop (Suc (Suc p)) b1 = r' @ NUL # tail" using d2 by simp
    have nr: "NUL \<notin> set r'" using r r' by simp
    have "word_done code b1 (Suc (Suc p)) (out + length num) q (word_spec num q r') (length r') tail"
    proof -
      have h: "drop (Suc (Suc p)) b1 = tl r @ NUL # tail" "NUL \<notin> set (tl r)" using dr nr r' by simp_all
      have "word_done code b1 (Suc (Suc p)) (out + length num) q (word_spec num q (tl r)) (length (tl r)) tail"
        by (rule "2.IH"(3) [OF _ _ _ _ h fit "2.prems"(4,5)])
           (use exp in \<open>simp_all add: ends_word_def blank_def\<close>)
      then show ?thesis using r' by simp
    qed
    then obtain b' where b': "word_loop code b1 (Suc (Suc p)) (out + length num) q =
          Some (b', Suc (Suc p) + (length r' - length (snd (word_spec num q r'))),
                out + length num + length (fst (word_spec num q r')))"
        "length b' = length b1" "take (out + length num) b' = take (out + length num) b1"
        "take (length (fst (word_spec num q r'))) (drop (out + length num) b') = fst (word_spec num q r')"
        "drop (Suc (Suc p) + (length r' - length (snd (word_spec num q r')))) b' =
           snd (word_spec num q r') @ NUL # tail"
        "out + length num + length (fst (word_spec num q r')) \<le>
           Suc (Suc p) + (length r' - length (snd (word_spec num q r')))"
      unfolding word_done_def by blast
    have tk: "take out b' = take out b"
    proof -
      have "take out b' = take out (take (out + length num) b')" by (simp add: min_def)
      also have "\<dots> = take out b" using d(1) "2.prems"(3) by (simp add: b'(3) b1_def)
      finally show ?thesis .
    qed
    have "drop out (take (out + length num) b') = num"
      unfolding b'(3) using d(1) "2.prems"(3) fit by (simp add: b1_def)
    then have w: "take (length num) (drop out b') = num" by (simp add: drop_take)
    have "take (length num + n) (drop out b') = num @ take n (drop (out + length num) b')" for n
      unfolding take_add w drop_drop by (simp only: add.commute)
    moreover have "word_loop code b p out q = word_loop code b1 (Suc (Suc p)) (out + length num) q"
      unfolding st(1) using exp r' d(1,2) d2 c ap "2.prems"(5) by (simp add: rd_def)
    moreover have "word_spec num q (c # r) = (num @ fst (word_spec num q r'), snd (word_spec num q r'))"
      unfolding st(2) using exp r' by (simp add: case_prod_unfold Let_def)
    moreover have "length (snd (word_spec num q r')) \<le> length r'" by (rule word_spec_shorter)
    ultimately show ?thesis
      using r' b' l1 tk by (simp add: word_done_def add.assoc Suc_diff_le)
  next
    case char
    define b1 where "b1 = b[out := c]"
    have ob: "out < length b" using d(1) "2.prems"(3) by simp
    have "drop (Suc p) b1 = drop (Suc p) b" using "2.prems"(3) by (simp add: b1_def)
    then have dr: "drop (Suc p) b1 = r @ NUL # tail" using d(3) by simp
    have hd: "rd b (p + 1) = Some CHR ''?'' \<longleftrightarrow> r \<noteq> [] \<and> hd r = CHR ''?''"
      using d(3) by (cases r; cases "Suc p < length b")
        (auto simp: rd_def dest: drop_eq_ConsD simp del: drop_eq_Nil)
    have "word_done code b1 (Suc p) (Suc out) q (word_spec num q r) (length r) tail"
      using "2.IH"(4) [OF char(1-3) _ dr r] char(4) "2.prems"(3-5) by auto
    then obtain b' where b': "word_loop code b1 (Suc p) (Suc out) q =
          Some (b', Suc p + (length r - length (snd (word_spec num q r))),
                Suc out + length (fst (word_spec num q r)))"
        "length b' = length b1" "take (Suc out) b' = take (Suc out) b1"
        "take (length (fst (word_spec num q r))) (drop (Suc out) b') = fst (word_spec num q r)"
        "drop (Suc p + (length r - length (snd (word_spec num q r)))) b' = snd (word_spec num q r) @ NUL # tail"
        "Suc out + length (fst (word_spec num q r)) \<le> Suc p + (length r - length (snd (word_spec num q r)))"
      unfolding word_done_def by blast
    have tk: "take out b' = take out b" "b' ! out = c" "out < length b'"
    proof -
      have "take out b' = take out (take (Suc out) b')" by (simp add: min_def)
      also have "\<dots> = take out b" by (simp add: b'(3) b1_def min_def)
      finally show "take out b' = take out b" .
      have "b' ! out = take (Suc out) b' ! out" by simp
      also have "\<dots> = c" using ob by (simp add: b'(3) b1_def)
      finally show "b' ! out = c" .
      show "out < length b'" using ob b'(2) by (simp add: b1_def)
    qed
    then have "drop out b' = c # drop (Suc out) b'" by (metis Cons_nth_drop_Suc)
    moreover have "word_loop code b p out q = word_loop code b1 (Suc p) (Suc out) q"
    proof -
      have "\<not> (b ! p = QUOTE \<and> q \<noteq> 2)" "\<not> (b ! p = DQUOTE \<and> q \<noteq> 1)" "\<not> (q = 0 \<and> ends_word (b ! p))"
        "\<not> (q = 0 \<and> b ! p = CHR ''$'' \<and> rd b (p + 1) = Some CHR ''?'')" "\<not> \<not> p < length b" "b ! p \<noteq> NUL"
        using char d(1,2) c hd by auto
      then show ?thesis
        unfolding st(1) using ob by (simp only: if_False if_True d(2) b1_def Suc_eq_plus1)
    qed
    moreover have "word_spec num q (c # r) = (c # fst (word_spec num q r), snd (word_spec num q r))"
      unfolding st(2) by (simp only: char if_False case_prod_unfold Let_def)
    ultimately show ?thesis
      using b' tk le [of q] by (simp add: word_done_def b1_def Suc_diff_le)
  qed
qed

section \<open>Scanning\<close>

lemma drop_NUL: "drop p b = NUL # tail \<Longrightarrow> p < length b \<and> b ! p = NUL"
  by (auto dest: drop_eq_ConsD)

lemma skip_blanks_spec:
  "drop p b = str @ NUL # tail \<Longrightarrow> NUL \<notin> set str \<Longrightarrow>
   skip_blanks b p = Some (p + length (takeWhile blank str)) \<and>
   drop (p + length (takeWhile blank str)) b = dropWhile blank str @ NUL # tail"
proof (induction str arbitrary: p)
  case Nil
  then show ?case using drop_NUL [of p b tail] by (subst skip_blanks.simps) (simp add: blank_def)
next
  case (Cons c str)
  have d: "p < length b" "b ! p = c" "drop (Suc p) b = str @ NUL # tail"
    using drop_eq_ConsD [of p b c "str @ NUL # tail"] Cons.prems by simp_all
  show ?case
    using Cons.IH [OF d(3)] Cons.prems d by (subst skip_blanks.simps) simp
qed

lemma target_end_spec:
  "drop p b = str @ NUL # tail \<Longrightarrow> NUL \<notin> set str \<Longrightarrow>
   target_end b p = Some (p + length (takeWhile (\<lambda>c. \<not> ends_word c) str)) \<and>
   drop (p + length (takeWhile (\<lambda>c. \<not> ends_word c) str)) b =
     dropWhile (\<lambda>c. \<not> ends_word c) str @ NUL # tail"
proof (induction str arbitrary: p)
  case Nil
  then show ?case using drop_NUL [of p b tail] by (subst target_end.simps) simp
next
  case (Cons c str)
  have d: "p < length b" "b ! p = c" "drop (Suc p) b = str @ NUL # tail"
    using drop_eq_ConsD [of p b c "str @ NUL # tail"] Cons.prems by simp_all
  show ?case
    using Cons.IH [OF d(3)] Cons.prems d by (subst target_end.simps) auto
qed

text \<open>Skipping the character that ended a word, unless the line is at its end.\<close>

lemma skip_one:
  assumes "drop p b = str @ NUL # tail" and "NUL \<notin> set str"
  shows "b ! p = NUL \<longleftrightarrow> str = []" "p < length b"
    "drop (if b ! p \<noteq> NUL then p + 1 else p) b = tl str @ NUL # tail"
  using assms drop_eq_ConsD [of p b "hd (str @ [NUL])" "tl (str @ NUL # tail)"]
  by (cases str; auto)+

section \<open>The whole line\<close>

text \<open>An item stands for a word and lies before the reader: its terminator is not behind \<open>p\<close>.\<close>

definition item_ok :: "char list \<Rightarrow> nat \<Rightarrow> item \<Rightarrow> string \<Rightarrow> bool" where
  "item_ok b p it w \<longleftrightarrow> item_string b it = w \<and>
     (case it of On_heap _ \<Rightarrow> True
      | In_line i \<Rightarrow> \<exists>j. i \<le> j \<and> j \<le> p \<and> j < length b \<and> b ! j = NUL)"

lemma not_in_tl: "x \<notin> set xs \<Longrightarrow> x \<notin> set (tl xs)"
  by (cases xs) auto

lemma not_in_dropWhile: "x \<notin> set xs \<Longrightarrow> x \<notin> set (dropWhile P xs)"
  by (auto dest: set_dropWhileD)

definition redirs_ok :: "cmdline \<Rightarrow> spec_line \<Rightarrow> bool" where
  "redirs_ok cl sl \<longleftrightarrow>
     (case to_file sl of None \<Rightarrow> \<not> has_out cl
      | Some (a, f) \<Rightarrow> has_out cl \<and> cl_out_append cl = a \<and> cl_out cl = f) \<and>
     (case from_file sl of None \<Rightarrow> \<not> has_in cl | Some f \<Rightarrow> has_in cl \<and> cl_in cl = f)"

lemma redirs_ok_items [simp]: "redirs_ok (cl\<lparr>items := x\<rparr>) (sl\<lparr>words := y\<rparr>) = redirs_ok cl sl"
  by (cases "to_file sl"; cases "from_file sl"; simp add: redirs_ok_def case_prod_unfold)

lemma cstr_append: "NUL \<in> set xs \<Longrightarrow> cstr (xs @ ys) = cstr xs"
  by (induction xs) auto

lemma cstr_drop_cong:
  assumes "take p b' = take p b" and "i \<le> j" and "j < p" and "j < length b" and "b ! j = NUL"
  shows "cstr (drop i b') = cstr (drop i b)"
proof -
  have "NUL \<in> set (drop i (take p b))"
  proof -
    have "drop i (take p b) ! (j - i) = NUL" "j - i < length (drop i (take p b))"
      using assms by simp_all
    then show ?thesis by (metis nth_mem)
  qed
  moreover have "drop i c = drop i (take p c) @ drop p c" for c :: "char list"
  proof -
    have "drop i c = drop i (take p c @ drop p c)" by simp
    also have "\<dots> = drop i (take p c) @ drop p c"
      using assms(2,3) by (cases "p \<le> length c") (simp_all only: drop_append, simp_all)
    finally show ?thesis .
  qed
  ultimately show ?thesis using assms(1) by (metis cstr_append)
qed

lemma item_ok_step:
  assumes "item_ok b p it w" and "b ! p \<noteq> NUL" and "take p b' = take p b" and "length b' = length b"
    and "p \<le> p'"
  shows "item_ok b' p' it w"
proof (cases it)
  case (In_line i)
  then obtain j where j: "i \<le> j" "j \<le> p" "j < length b" "b ! j = NUL" and w: "cstr (drop i b) = w"
    using assms(1) by (auto simp: item_ok_def item_string_def)
  then have lt: "j < p" using assms(2) by (metis le_neq_implies_less)
  then have "b' ! j = b ! j" using assms(3) by (metis nth_take)
  then show ?thesis
    using cstr_drop_cong [OF assms(3) j(1) lt j(3,4)] j lt w In_line assms(4,5)
    by (auto simp: item_ok_def item_string_def intro: exI [of _ j])
qed (use assms in \<open>simp add: item_ok_def item_string_def\<close>)

lemma items_ok_step:
  "list_all2 (item_ok b p) its ws \<Longrightarrow> b ! p \<noteq> NUL \<Longrightarrow> take p b' = take p b \<Longrightarrow> length b' = length b \<Longrightarrow>
   p \<le> p' \<Longrightarrow> list_all2 (item_ok b' p') its ws"
  by (erule list_all2_mono) (rule item_ok_step)

section \<open>One word, closed\<close>

lemma word_spec_set:
  "set (fst (word_spec num q s)) \<subseteq> set num \<union> set s \<and> set (snd (word_spec num q s)) \<subseteq> set s"
proof (induction num q s rule: word_spec.induct)
  case (2 num q c r)
  have tl: "set (tl r) \<subseteq> set r" by (cases r) auto
  show ?case
  proof (cases "q = 0 \<and> c = CHR ''$'' \<and> r \<noteq> [] \<and> hd r = CHR ''?''")
    case True
    then have "word_spec num q (c # r) =
        (num @ fst (word_spec num q (tl r)), snd (word_spec num q (tl r)))"
      unfolding word_spec.simps(2) [of num q c r]
      by (simp add: case_prod_unfold Let_def ends_word_def blank_def)
    then show ?thesis using 2(3) tl True by (auto simp: ends_word_def blank_def)
  next
    case False
    note f = this
    show ?thesis
      using f 2(1,2,4) unfolding word_spec.simps(2) [of num q c r] if_not_P [OF f]
      by (auto simp: case_prod_unfold Let_def split: if_splits)
  qed
qed simp

lemma exit_digits_no_NUL [simp]: "NUL \<notin> set (exit_digits code)"
  by (simp add: exit_digits_def)

lemma word_closed:
  assumes d: "drop p b = str @ NUL # tail" and nn: "NUL \<notin> set str"
    and num: "length (exit_digits code) \<le> 2"
  defines "w \<equiv> fst (word_spec (exit_digits code) 0 str)"
    and "t \<equiv> snd (word_spec (exit_digits code) 0 str)"
  obtains b1 p1 out b3 p2 rest where
    "word_loop code b p p 0 = Some (b1, p1, out)" "p1 < length b1" "out < length b1"
    "b3 = (if b1 ! p1 \<noteq> NUL then b1[p1 := NUL] else b1)[out := NUL]"
    "p2 = (if b1 ! p1 \<noteq> NUL then p1 + 1 else p1)"
    "length b3 = length b" "take p b3 = take p b" "drop p b3 = w @ NUL # rest"
    "p + length w \<le> p2" "drop p2 b3 = tl t @ NUL # tail"
    "p2 + length (tl t) = p + length str" "length w + length t \<le> length str"
proof -
  let ?n = "length str - length t"
  have lt: "length t \<le> length str" unfolding t_def by (rule word_spec_shorter)
  have "word_done code b p p 0 (w, t) (length str) tail"
    using word_loop_spec [OF d nn order_refl num refl, of 0] by (simp add: w_def t_def)
  then obtain b1 where b1: "word_loop code b p p 0 = Some (b1, p + ?n, p + length w)"
      "length b1 = length b" "take p b1 = take p b" "take (length w) (drop p b1) = w"
      "drop (p + ?n) b1 = t @ NUL # tail" "length w \<le> ?n"
    by (auto simp: word_done_def)
  have nt: "NUL \<notin> set t" using nn word_spec_set [of "exit_digits code" 0 str] by (auto simp: t_def)
  note s1 = skip_one [OF b1(5) nt]
  define b2 where "b2 = (if b1 ! (p + ?n) \<noteq> NUL then b1[p + ?n := NUL] else b1)"
  define p2 where "p2 = (if b1 ! (p + ?n) \<noteq> NUL then p + ?n + 1 else p + ?n)"
  define b3 where "b3 = b2[p + length w := NUL]"
  have l2: "length b2 = length b" using b1(2) by (simp add: b2_def)
  have out: "p + length w < length b" using s1(2) b1(2,6) by simp
  have tk: "take (p + length w) b3 = take (p + length w) b1"
    using b1(6) by (simp add: b3_def b2_def)
  have "drop p2 b3 = tl t @ NUL # tail"
  proof (cases "t = []")
    case True
    then have n: "b1 ! (p + ?n) = NUL" using s1(1) by simp
    have "b3 = b1[p + length w := NUL]" "p2 = p + ?n" using n by (simp_all add: b3_def b2_def p2_def)
    moreover have "length w = ?n \<Longrightarrow> b1[p + length w := NUL] = b1" using n by (metis list_update_id)
    ultimately show ?thesis using True b1(5,6)
      by (cases "length w = ?n") simp_all
  next
    case False
    then have n: "b1 ! (p + ?n) \<noteq> NUL" using s1(1) by simp
    then have "drop (p + ?n + 1) b1 = tl t @ NUL # tail" using s1(3) by simp
    then show ?thesis using n b1(6) by (simp add: b3_def b2_def p2_def)
  qed
  moreover have "p2 + length (tl t) = p + length str"
    using s1(1) lt by (cases t) (auto simp: p2_def)
  moreover have "take p b3 = take p b"
  proof -
    have "take p b3 = take p (take (p + length w) b3)" by (simp add: min_def)
    also have "\<dots> = take p b" unfolding tk using b1(3) by (simp add: min_def)
    finally show ?thesis .
  qed
  moreover have "drop p b3 = w @ NUL # drop (p + length w + 1) b3"
  proof -
    have "take (length w) (drop p b3) = w"
    proof -
      have "take (length w) (drop p b3) = drop p (take (p + length w) b3)" by (simp add: drop_take)
      also have "\<dots> = w" unfolding tk using b1(4) by (simp add: drop_take)
      finally show ?thesis .
    qed
    moreover have "drop (length w) (drop p b3) = NUL # drop (p + length w + 1) b3"
    proof -
      have "b3 ! (p + length w) = NUL" "p + length w < length b3"
        using out l2 by (simp_all add: b3_def)
      then show ?thesis using Cons_nth_drop_Suc [of "p + length w" b3] by (simp add: add.commute)
    qed
    ultimately show ?thesis by (metis append_take_drop_id)
  qed
  moreover have "p + length w \<le> p2" using b1(6) by (simp add: p2_def)
  moreover have "length w + length t \<le> length str" using b1(6) lt by linarith
  moreover have "p + ?n < length b1" "p + length w < length b1" "length b3 = length b"
    using s1(2) out b1(2) l2 by (simp_all add: b3_def)
  ultimately show ?thesis
    by (intro that [of b1 "p + ?n" "p + length w" b3 p2 "drop (p + length w + 1) b3"] b1(1))
      (assumption | simp only: b3_def b2_def p2_def)+
qed

text \<open>What an expansion may cost, and what is kept of the state.\<close>

definition heap_grew :: "nat \<Rightarrow> shell \<Rightarrow> shell \<Rightarrow> bool" where
  "heap_grew n s s' \<longleftrightarrow> (\<exists>u. s' = s\<lparr>used := u\<rparr>) \<and> heap_ok s' \<and>
     frontier s \<le> frontier s' \<and> frontier s' \<le> frontier s + n"

lemma heap_grew_refl: "heap_ok s \<Longrightarrow> heap_grew n s s"
  unfolding heap_grew_def by (auto intro: exI [of _ "used s"])

lemma heap_grew_trans: "heap_grew m s s' \<Longrightarrow> heap_grew n s' s'' \<Longrightarrow> heap_grew (m + n) s s''"
  unfolding heap_grew_def by auto

lemma heap_grew_end: "heap_grew n s s' \<Longrightarrow> heap_end s' = heap_end s \<and> last_exit s' = last_exit s"
  by (auto simp: heap_grew_def heap_end_def)

lemma expand_tilde_spec:
  assumes d: "drop p b = w @ NUL # rest" and nn: "NUL \<notin> set w" and ok: "heap_ok s"
    and room: "frontier s + length w + 24 \<le> heap_end s"
  shows "\<exists>it s'. expand_tilde b p s = Some (it, s') \<and> item_string b it = tilde w \<and>
           (it = In_line p \<or> (\<exists>t. it = On_heap t)) \<and> heap_grew (length w + 24) s s'"
proof -
  have c: "cstr (drop p b) = w" using d nn by simp
  have r0: "rd b p = Some (hd (w @ [NUL]))"
    using drop_eq_ConsD [of p b "hd (w @ [NUL])" "tl (w @ NUL # rest)"] d by (cases w) (auto simp: rd_def)
  show ?thesis
  proof (cases "\<exists>r. w = CHR ''~'' # r \<and> (case r of [] \<Rightarrow> True | d # _ \<Rightarrow> d = CHR ''/'')")
    case True
    then obtain r where r: "w = CHR ''~'' # r" "case r of [] \<Rightarrow> True | d # _ \<Rightarrow> d = CHR ''/''" by blast
    have d1: "drop (Suc p) b = r @ NUL # rest" using d r drop_eq_ConsD by fastforce
    have r1: "rd b (p + 1) = Some NUL \<or> rd b (p + 1) = Some CHR ''/''"
      using d1 r(2) by (cases r) (auto simp: rd_def dest: drop_eq_ConsD)
    let ?n = "of_nat (length w + 8) :: u64"
    have small: "length w + 24 \<le> 33554432"
      using room ok by (simp add: heap_end_def heap_ok_def frontier_def)
    then have n: "unat ?n = length w + 8" using small by (simp add: unat_of_nat del: of_nat_add)
    have up: "up16 (length w + 8) \<le> length w + 24" using up16_less [of "length w + 8"] by simp
    have lim: "unat ?n < 2 ^ 63" unfolding n using small by simp
    have fits: "unat (used s) + up16 (unat ?n) \<le> unat (total s)"
      using room up unfolding n by (simp add: heap_end_def frontier_def)
    then have k: "kmalloc ?n s = (Some (HEAP_START + used s), s\<lparr>used := used s + align_up ?n 16\<rparr>)"
      using kmalloc_cases [OF ok lim] by linarith
    have f: "frontier (s\<lparr>used := used s + align_up ?n 16\<rparr>) = frontier s + up16 (length w + 8)"
      using kmalloc_Some(2) [OF ok lim k] unfolding n .
    have "heap_grew (length w + 24) s (s\<lparr>used := used s + align_up ?n 16\<rparr>)"
      unfolding heap_grew_def f using heap_ok_kmalloc [OF ok lim] k up by auto
    moreover have "expand_tilde b p s = Some (On_heap (''/root'' @ r), s\<lparr>used := used s + align_up ?n 16\<rparr>)"
      using k r0 r1 c r(1) by (simp add: expand_tilde_def)
    ultimately show ?thesis using r by (auto simp: item_string_def tilde_def)
  next
    case False
    have "\<not> (hd (w @ [NUL]) = CHR ''~'' \<and> (rd b (p + 1) = Some NUL \<or> rd b (p + 1) = Some CHR ''/''))"
    proof (cases w)
      case (Cons x r)
      then have "drop (Suc p) b = r @ NUL # rest" using d drop_eq_ConsD by fastforce
      then show ?thesis using False Cons nn
        by (cases r) (auto simp: rd_def dest: drop_eq_ConsD)
    qed simp
    then have "expand_tilde b p s = Some (In_line p, s)" using r0 by (auto simp: expand_tilde_def)
    moreover have "tilde w = w" using False by (auto simp: tilde_def split: list.splits)
    ultimately show ?thesis using c heap_grew_refl [OF ok] by (simp add: item_string_def)
  qed
qed

section \<open>The whole line\<close>

definition tokens_done ::
  "char list \<Rightarrow> nat \<Rightarrow> string \<Rightarrow> string \<Rightarrow> cmdline \<Rightarrow> shell \<Rightarrow> spec_line option \<Rightarrow> bool" where
  "tokens_done b p str tail cl s spec \<longleftrightarrow>
     (case spec of
        None \<Rightarrow> tokenize_loop b p cl s = None
      | Some sl \<Rightarrow> \<exists>b' cl' s'. tokenize_loop b p cl s = Some (b', cl', s') \<and>
          map (item_string b') (items cl') = words sl \<and> redirs_ok cl' sl \<and>
          length b' = length b \<and> take p b' = take p b \<and> drop (p + length str) b' = NUL # tail \<and>
          heap_grew (32 * length str) s s')"

lemma tokens_done_stop:
  assumes "drop p b = str @ NUL # tail" and "list_all2 (item_ok b p) (items cl) (words sl)"
    and "redirs_ok cl sl" and "heap_ok s" and "tokenize_loop b p cl s = Some (b, cl, s)"
  shows "tokens_done b p str tail cl s (Some sl)"
proof -
  have "map (item_string b) (items cl) = words sl"
    using assms(2) by (induction rule: list_all2_induct) (auto simp: item_ok_def)
  moreover have "drop (p + length str) b = NUL # tail"
    using assms(1) by (simp add: drop_drop [symmetric] add.commute [of p] del: drop_drop)
  ultimately show ?thesis
    using assms heap_grew_refl [OF assms(4)] by (simp add: tokens_done_def)
qed

text \<open>A round of the loop that leaves \<open>b2\<close> with the reader at \<open>p2\<close>.\<close>

lemma tokens_done_step:
  assumes "tokens_done b2 p2 str2 tail cl2 s2 spec"
    and "tokenize_loop b p cl s = tokenize_loop b2 p2 cl2 s2"
    and "length b2 = length b" and "take p b2 = take p b" and "p \<le> p2"
    and "p2 + length str2 = p + length str" and "heap_grew n s s2"
    and "n + 32 * length str2 \<le> 32 * length str"
  shows "tokens_done b p str tail cl s spec"
proof (cases spec)
  case (Some sl)
  then obtain b' cl' s' where *: "tokenize_loop b2 p2 cl2 s2 = Some (b', cl', s')"
      "map (item_string b') (items cl') = words sl" "redirs_ok cl' sl" "length b' = length b2"
      "take p2 b' = take p2 b2" "drop (p2 + length str2) b' = NUL # tail"
      "heap_grew (32 * length str2) s2 s'"
    using assms(1) by (auto simp: tokens_done_def)
  have "take p b' = take p (take p2 b')" using assms(5) by (simp add: min_def)
  also have "\<dots> = take p b" unfolding *(5) using assms(4,5) by (simp add: min_def)
  finally have "take p b' = take p b" .
  moreover have "heap_grew (32 * length str) s s'"
    using heap_grew_trans [OF assms(7) *(7)] assms(8) by (auto simp: heap_grew_def)
  ultimately show ?thesis using * assms(2,3,6) Some by (simp add: tokens_done_def)
qed (use assms in \<open>simp add: tokens_done_def\<close>)

text \<open>A redirection.\<close>

lemma redirect_spec:
  assumes d: "drop p b = c # r @ NUL # tail" and nn: "NUL \<notin> set r" and ok: "redirs_ok cl sl"
  defines "app \<equiv> c = CHR ''>'' \<and> r \<noteq> [] \<and> hd r = CHR ''>''"
  defines "r2 \<equiv> dropWhile blank (if app then tl r else r)"
  defines "target \<equiv> takeWhile (\<lambda>c. \<not> ends_word c) r2"
    and "r3 \<equiv> dropWhile (\<lambda>c. \<not> ends_word c) r2"
  defines "sl2 \<equiv> (if c = CHR ''>'' then sl\<lparr>to_file := Some (app, target)\<rparr> else sl\<lparr>from_file := Some target\<rparr>)"
  shows "if length target \<ge> 255 then redirect b p cl = None
    else \<exists>p2 cl2. redirect b p cl = Some (p2, cl2) \<and> redirs_ok cl2 sl2 \<and> items cl2 = items cl \<and>
           words sl2 = words sl \<and> drop p2 b = tl r3 @ NUL # tail \<and> p < p2 \<and>
           p2 + length (tl r3) = p + 1 + length r"
proof -
  have d1: "drop (Suc p) b = r @ NUL # tail" and c: "rd b p = Some c"
    using drop_eq_ConsD [OF d] by (simp_all add: rd_def)
  have isapp: "app \<longleftrightarrow> c = CHR ''>'' \<and> rd b (p + 1) = Some CHR ''>''"
    using d1 by (cases r) (auto simp: app_def rd_def dest: drop_eq_ConsD)
  define q where "q = (if app then p + 2 else p + 1)"
  have dq: "drop q b = (if app then tl r else r) @ NUL # tail"
    using d1 drop_eq_ConsD [of "Suc p" b "hd r" "tl r @ NUL # tail"]
    by (cases r) (auto simp: q_def app_def)
  have nq: "NUL \<notin> set (if app then tl r else r)" using nn by (cases r) auto
  have lq: "q + length (if app then tl r else r) = p + 1 + length r"
    by (cases r) (auto simp: q_def app_def)
  define st where "st = q + length (takeWhile blank (if app then tl r else r))"
  have sb: "skip_blanks b q = Some st" "drop st b = r2 @ NUL # tail"
    using skip_blanks_spec [OF dq nq] by (simp_all add: st_def r2_def)
  have n2: "NUL \<notin> set r2" using nq by (auto simp: r2_def dest: set_dropWhileD)
  define e where "e = st + length target"
  have te: "target_end b st = Some e" "drop e b = r3 @ NUL # tail"
    using target_end_spec [OF sb(2) n2] by (simp_all add: e_def r3_def target_def)
  have n3: "NUL \<notin> set r3" using n2 by (auto simp: r3_def dest: set_dropWhileD)
  have tg: "take (e - st) (drop st b) = target"
  proof -
    have "take (length target) (r2 @ NUL # tail) = take (length target) (target @ r3 @ NUL # tail)"
      unfolding target_def r3_def by (simp only: append_assoc [symmetric] takeWhile_dropWhile_id)
    then show ?thesis by (simp add: e_def sb(2))
  qed
  have "st + length r2 = p + 1 + length r"
    using lq takeWhile_dropWhile_length [of blank "if app then tl r else r"] by (simp add: st_def r2_def)
  then have le: "e + length r3 = p + 1 + length r"
    using takeWhile_dropWhile_length [of "\<lambda>c. \<not> ends_word c" r2] by (simp add: e_def r3_def target_def)
  note s3 = skip_one [OF te(2) n3]
  have pe: "p < e" by (simp add: e_def st_def q_def)
  have eval: "redirect b p cl = (if length target \<ge> 255 then None
      else Some (if b ! e \<noteq> NUL then e + 1 else e,
        if c = CHR ''>'' then cl\<lparr>cl_out := target, cl_out_append := app, has_out := True\<rparr>
        else cl\<lparr>cl_in := target, has_in := True\<rparr>))"
    using sb(1) te(1) tg isapp by (auto simp: redirect_def c q_def Let_def)
  have len: "(if b ! e \<noteq> NUL then e + 1 else e) + length (tl r3) = p + 1 + length r"
    using s3(1) le by (cases r3) auto
  define p2 where "p2 = (if b ! e \<noteq> NUL then e + 1 else e)"
  define cl2 where "cl2 = (if c = CHR ''>''
    then cl\<lparr>cl_out := target, cl_out_append := app, has_out := True\<rparr>
    else cl\<lparr>cl_in := target, has_in := True\<rparr>)"
  have "redirs_ok cl2 sl2" "items cl2 = items cl" "words sl2 = words sl"
    using ok by (cases "to_file sl"; cases "from_file sl";
      simp add: redirs_ok_def cl2_def sl2_def case_prod_unfold)+
  moreover have "p < p2" using pe by (simp add: p2_def)
  ultimately show ?thesis
    unfolding eval p2_def [symmetric] cl2_def [symmetric]
    using len s3(3) unfolding p2_def [symmetric] by simp
qed

lemma tokenize_loop_spec:
  assumes "drop p b = str @ NUL # tail" and "NUL \<notin> set str"
    and "num = exit_digits (last_exit s)" and "length num \<le> 2"
    and "list_all2 (item_ok b p) (items cl) (words sl)" and "redirs_ok cl sl"
    and "heap_ok s" and "frontier s + 32 * length str \<le> heap_end s"
  shows "tokens_done b p str tail cl s (tokens_spec num str sl)"
  using assms
proof (induction num str sl arbitrary: b p cl s rule: tokens_spec.induct)
  case (1 num str sl)
  note d = "1.prems"(1) and nn = "1.prems"(2) and its = "1.prems"(5) and red = "1.prems"(6)
    and ok = "1.prems"(7) and room = "1.prems"(8)
  note st = tokens_spec.simps [of num str sl] tokenize_loop.simps [of b p cl s]
  have lp: "p < length b" and n0: "b ! p = NUL \<longleftrightarrow> str = []" using skip_one [OF d nn] by simp_all
  have cnt: "length (items cl) = length (words sl)" using its by (rule list_all2_lengthD)
  show ?case
  proof (cases "str = [] \<or> length (words sl) \<ge> 63")
    case True
    have "tokenize_loop b p cl s = Some (b, cl, s)" using True lp n0 cnt by (auto simp: st(2))
    then show ?thesis using tokens_done_stop [OF d its red ok] True by (simp add: st(1))
  next
    case go: False
    define p' where "p' = p + length (takeWhile blank str)"
    have sb: "skip_blanks b p = Some p'" and d': "drop p' b = dropWhile blank str @ NUL # tail"
      using skip_blanks_spec [OF d nn] by (simp_all add: p'_def)
    have nn': "NUL \<notin> set (dropWhile blank str)" using nn by (auto dest: set_dropWhileD)
    have len: "p' + length (dropWhile blank str) = p + length str"
      using takeWhile_dropWhile_length [of blank str] by (simp add: p'_def)
    have np: "b ! p \<noteq> NUL" using go n0 by simp
    have loop: "tokenize_loop b p cl s =
        (if b ! p' = NUL then Some (b, cl, s)
         else if b ! p' = CHR ''>'' \<or> b ! p' = CHR ''<''
         then (case redirect b p' cl of None \<Rightarrow> None | Some (p', cl') \<Rightarrow> tokenize_loop b p' cl' s)
         else (case word_loop (last_exit s) b p' p' 0 of None \<Rightarrow> None
           | Some (b1, p1, out) \<Rightarrow>
               (case rd b1 p1 of None \<Rightarrow> None
                | Some delim \<Rightarrow>
                    let b2 = (if delim \<noteq> NUL then b1[p1 := NUL] else b1);
                        p2 = (if delim \<noteq> NUL then p1 + 1 else p1)
                    in if \<not> out < length b2 then None
                       else let b3 = b2[out := NUL] in
                         (case expand_tilde b3 p' s of None \<Rightarrow> None
                          | Some (it, s') \<Rightarrow>
                              tokenize_loop b3 p2 (cl\<lparr>items := items cl @ [it]\<rparr>) s'))))"
      using go np cnt lp sb by (subst st(2)) simp
    show ?thesis
    proof (cases "dropWhile blank str")
      case Nil
      then have "b ! p' = NUL" using d' drop_NUL [of p' b tail] by simp
      then have "tokenize_loop b p cl s = Some (b, cl, s)" by (simp add: loop)
      then show ?thesis
        using tokens_done_stop [OF d its red ok] unfolding st(1) if_not_P [OF go] Nil by simp
    next
      case (Cons c r)
      have dc: "drop p' b = c # r @ NUL # tail" and c: "b ! p' = c"
        using d' Cons drop_eq_ConsD [of p' b c "r @ NUL # tail"] by simp_all
      have cn: "c \<noteq> NUL" and nr: "NUL \<notin> set r" using nn' Cons by auto
      show ?thesis
      proof (cases "c = CHR ''>'' \<or> c = CHR ''<''")
        case isred: True
        define app where "app = (c = CHR ''>'' \<and> r \<noteq> [] \<and> hd r = CHR ''>'')"
        define r2 where "r2 = dropWhile blank (if app then tl r else r)"
        define target where "target = takeWhile (\<lambda>c. \<not> ends_word c) r2"
        define r3 where "r3 = dropWhile (\<lambda>c. \<not> ends_word c) r2"
        define sl2 where "sl2 = (if c = CHR ''>'' then sl\<lparr>to_file := Some (app, target)\<rparr>
          else sl\<lparr>from_file := Some target\<rparr>)"
        note rs = redirect_spec [OF dc nr red, folded app_def, folded r2_def, folded target_def r3_def,
            folded sl2_def]
        have loop2: "tokenize_loop b p cl s =
            (case redirect b p' cl of None \<Rightarrow> None | Some (p', cl') \<Rightarrow> tokenize_loop b p' cl' s)"
          unfolding loop c using isred cn by simp
        have spec: "tokens_spec num str sl =
            (if length target \<ge> 255 then None else tokens_spec num (tl r3) sl2)"
          unfolding st(1) if_not_P [OF go] Cons Let_def sl2_def r3_def target_def r2_def app_def
          using isred by simp
        show ?thesis
        proof (cases "length target \<ge> 255")
          case True
          then show ?thesis using rs by (simp add: spec loop2 tokens_done_def)
        next
          case False
          then obtain p2 cl2 where rd: "redirect b p' cl = Some (p2, cl2)" "redirs_ok cl2 sl2"
              "items cl2 = items cl" "words sl2 = words sl" "drop p2 b = tl r3 @ NUL # tail" "p' < p2"
              "p2 + length (tl r3) = p' + 1 + length r"
            using rs by auto
          have pp: "p \<le> p2" using rd(6) by (simp add: p'_def)
          have l2: "p2 + length (tl r3) = p + length str" using rd(7) len Cons by simp
          have its2: "list_all2 (item_ok b p2) (items cl2) (words sl2)"
            unfolding rd(3,4) by (rule items_ok_step [OF its np refl refl pp])
          have n3: "NUL \<notin> set (tl r3)"
            using nr unfolding r3_def r2_def by (auto intro!: not_in_tl not_in_dropWhile)
          have shorter: "length (tl r3) \<le> length str" using l2 pp by simp
          have "tokens_done b p2 (tl r3) tail cl2 s (tokens_spec num (tl r3) sl2)"
            unfolding sl2_def
            by (rule "1.IH"(1) [OF go Cons isred app_def r2_def target_def r3_def False])
              (use rd(2,5) n3 "1.prems"(3,4) its2 ok room shorter in \<open>simp_all add: sl2_def\<close>)
          from tokens_done_step [OF this _ refl refl pp l2 heap_grew_refl [OF ok, of 0]] False shorter
          show ?thesis by (simp add: spec loop2 rd(1))
        qed
      next
        case isword: False
        define w where "w = fst (word_spec num 0 (c # r))"
        define t where "t = snd (word_spec num 0 (c # r))"
        have dn: "drop p' b = (c # r) @ NUL # tail" "NUL \<notin> set (c # r)"
            "length (exit_digits (last_exit s)) \<le> 2"
          using dc cn nr "1.prems"(3,4) by simp_all
        note wc = word_closed [OF dn, folded "1.prems"(3), folded w_def t_def]
        obtain b1 p1 out b3 p2 rest where wl:
          "word_loop (last_exit s) b p' p' 0 = Some (b1, p1, out)" "p1 < length b1" "out < length b1"
          "b3 = (if b1 ! p1 \<noteq> NUL then b1[p1 := NUL] else b1)[out := NUL]"
          "p2 = (if b1 ! p1 \<noteq> NUL then p1 + 1 else p1)"
          "length b3 = length b" "take p' b3 = take p' b" "drop p' b3 = w @ NUL # rest"
          "p' + length w \<le> p2" "drop p2 b3 = tl t @ NUL # tail"
          "p2 + length (tl t) = p' + length (c # r)" "length w + length t \<le> length (c # r)"
          by (rule wc; rule that; assumption)
        have nw: "NUL \<notin> set w" "NUL \<notin> set (tl t)"
          using word_spec_set [of num 0 "c # r"] cn nr exit_digits_no_NUL [of "last_exit s"]
          unfolding w_def t_def "1.prems"(3) by (auto intro!: not_in_tl)
        have cost: "length w + 24 + 32 * length (tl t) \<le> 32 * length str"
          using wl(12) len Cons by (cases t) (simp_all add: p'_def)
        obtain it s2 where ex: "expand_tilde b3 p' s = Some (it, s2)" "item_string b3 it = tilde w"
            "it = In_line p' \<or> (\<exists>t. it = On_heap t)" "heap_grew (length w + 24) s s2"
          using expand_tilde_spec [OF wl(8) nw(1) ok] room cost by auto
        have s2: "frontier s2 + 32 * length (tl t) \<le> heap_end s2" "last_exit s2 = last_exit s" "heap_ok s2"
          using ex(4) heap_grew_end [OF ex(4)] room cost by (simp_all add: heap_grew_def)
        have pp: "p \<le> p2" using wl(9) by (simp add: p'_def)
        have tp: "take p b3 = take p b"
        proof -
          have "take p b3 = take p (take p' b3)" by (simp add: p'_def min_def)
          also have "\<dots> = take p b" unfolding wl(7) by (simp add: p'_def min_def)
          finally show ?thesis .
        qed
        define cl2 where "cl2 = cl\<lparr>items := items cl @ [it]\<rparr>"
        define sl2 where "sl2 = sl\<lparr>words := words sl @ [tilde w]\<rparr>"
        have loop2: "tokenize_loop b p cl s = tokenize_loop b3 p2 cl2 s2"
          unfolding loop c using isword cn wl(1-5) ex(1) by (simp add: rd_def cl2_def Let_def)
        have spec: "tokens_spec num str sl = tokens_spec num (tl t) sl2"
          unfolding st(1) if_not_P [OF go] Cons
          using isword by (simp add: w_def t_def sl2_def)
        have its2: "list_all2 (item_ok b3 p2) (items cl2) (words sl2)"
        proof -
          have "b3 ! (p' + length w) = NUL" "p' + length w < length b3"
            using wl(8) drop_NUL [of "p' + length w" b3 rest]
            by (simp_all add: drop_drop [symmetric] add.commute [of p'] del: drop_drop)
          then have "item_ok b3 p2 it (tilde w)"
            using ex(2,3) wl(9) by (auto simp: item_ok_def intro!: exI [of _ "p' + length w"])
          then show ?thesis
            using items_ok_step [OF its np tp wl(6) pp]
            by (simp add: cl2_def sl2_def list_all2_appendI)
        qed
        have "tokens_done b3 p2 (tl t) tail cl2 s2 (tokens_spec num (tl t) sl2)"
          unfolding sl2_def w_def t_def
          by (rule "1.IH"(2) [OF go Cons isword])
            (use wl(10) nw "1.prems"(3,4) its2 red s2 in
              \<open>simp_all add: sl2_def cl2_def w_def t_def\<close>)
        from tokens_done_step [OF this loop2 wl(6) tp pp _ ex(4) cost] wl(11) len Cons
        show ?thesis by (simp add: spec)
      qed
    qed
  qed
qed

section \<open>Properties\<close>

definition empty_spec :: spec_line where
  "empty_spec = \<lparr>words = [], to_file = None, from_file = None\<rparr>"

lemma exit_digits_two: "0 \<le> code \<Longrightarrow> code < 100 \<Longrightarrow> length (exit_digits code) \<le> 2"
  by (simp add: exit_digits_def dec_digits_def dec_loop.simps [of "nat code"]
      dec_loop.simps [of "nat code div 10"] dec_loop.simps [of 0])

text \<open>C6: tokenizing a line in place gives the words and redirections of the tokenizer on strings,
  with the quotes removed, the exit status and the home directory filled in, as long as the exit
  status has at most two digits and memory for the home directory is left; the words can be read from
  the line afterwards, what comes before and behind the line is untouched, and the shell's state is
  the same up to the memory taken.  Where a redirection target does not fit its buffer neither
  has a result.\<close>

theorem tokenize_refines:
  assumes "b = before @ str @ NUL # tail" and "NUL \<notin> set str"
    and "0 \<le> last_exit s" and "last_exit s < 100"
    and "heap_ok s" and "frontier s + 32 * length str \<le> heap_end s"
  shows "case tokens_spec (exit_digits (last_exit s)) str empty_spec of
      None \<Rightarrow> tokenize b (length before) s = None
    | Some sl \<Rightarrow> \<exists>b' cl s'. tokenize b (length before) s = Some (b', cl, s') \<and>
        map (item_string b') (items cl) = words sl \<and> redirs_ok cl sl \<and>
        length b' = length b \<and> take (length before) b' = before \<and>
        drop (length before + length str) b' = NUL # tail \<and>
        (\<exists>u. s' = s\<lparr>used := u\<rparr>) \<and> heap_ok s'"
proof -
  have "tokens_done b (length before) str tail empty_cmdline s
      (tokens_spec (exit_digits (last_exit s)) str empty_spec)"
    using assms exit_digits_two [OF assms(3,4)]
    by (intro tokenize_loop_spec)
      (simp_all add: empty_cmdline_def empty_spec_def redirs_ok_def)
  then show ?thesis
    using assms(1) by (auto simp: tokens_done_def tokenize_def heap_grew_def split: option.splits)
qed

theorem tokenize_refines_witness:
  "\<exists>b' cl s'. tokenize (''cat '' @ [QUOTE] @ ''a b'' @ [QUOTE] @ '' ~/x $? > out'' @ [NUL]) 0 demo_shell
       = Some (b', cl, s') \<and>
     map (item_string b') (items cl) = [''cat'', ''a b'', ''/root/x'', ''0''] \<and>
     has_out cl \<and> cl_out cl = ''out'' \<and> \<not> cl_out_append cl"
proof -
  let ?str = "''cat '' @ [QUOTE] @ ''a b'' @ [QUOTE] @ '' ~/x $? > out''"
  have ts: "tokens_spec (exit_digits 0) ?str empty_spec =
      Some \<lparr>words = [''cat'', ''a b'', ''/root/x'', ''0''], to_file = Some (False, ''out''), from_file = None\<rparr>"
    by code_simp
  have le: "last_exit demo_shell = 0" by simp
  note r = tokenize_refines [of "[] @ ?str @ NUL # []" "[]" ?str "[]" demo_shell, unfolded le ts]
  show ?thesis using r by (auto simp: redirs_ok_def frontier_def heap_end_def)
qed

lemma word_loop_runaway:
  "out = Suc p \<Longrightarrow> p < length b \<Longrightarrow> isdigit (uc (b ! p)) \<Longrightarrow> word_loop code b p out 0 = None"
proof (induction "length b - p" arbitrary: b p out rule: less_induct)
  case less
  let ?d = "b ! p"
  have d: "?d \<noteq> NUL" "?d \<noteq> QUOTE" "?d \<noteq> DQUOTE" "\<not> ends_word ?d" "?d \<noteq> CHR ''$''"
    using less.prems(3) by (auto simp: isdigit_def ends_word_def blank_def uc_def)
  show ?case
  proof (cases "Suc p < length b")
    case True
    have "word_loop code (b[Suc p := ?d]) (Suc p) (Suc (Suc p)) 0 = None"
      by (rule less.hyps) (use True less.prems in simp_all)
    then show ?thesis using d less.prems True by (subst word_loop.simps) simp
  next
    case False
    then show ?thesis using d less.prems by (subst word_loop.simps) simp
  qed
qed

lemma exit_digits_three:
  assumes "100 \<le> code" and "code < 256"
  obtains a b c where "exit_digits code = [a, b, c]" "isdigit (uc c)"
proof -
  define n where "n = nat code"
  have "100 \<le> n" "n < 256" using assms by (simp_all add: n_def)
  then have "n \<noteq> 0" "n div 10 \<noteq> 0" "n div 10 div 10 \<noteq> 0" "n div 10 div 10 div 10 = 0"
    using div_le_mono [of 100 n 10] div_le_mono [of 100 n 100]
    by (simp_all add: div_mult2_eq [symmetric])
  then have "length (exit_digits code) = 3"
    by (simp add: exit_digits_def dec_digits_def n_def [symmetric] dec_loop.simps [of n]
      dec_loop.simps [of "n div 10"] dec_loop.simps [of "n div 10 div 10"] dec_loop.simps [of 0]
      del: div_mult2_eq)
  then obtain a b c where e: "exit_digits code = [a, b, c]"
    by (auto simp: length_Suc_conv numeral_3_eq_3)
  then have "c \<in> set (dec_digits (nat code))" by (metis exit_digits_def list.set_intros set_rev)
  then have "isdigit (uc c)" by (rule dec_digits_isdigit)
  then show ?thesis using that e by blast
qed

text \<open>With an exit status of three digits (127 after an unknown command, 130, 255), a word that
  begins with the exit status makes the writer overtake the reader: the last digit is copied
  over the rest of memory, and the tokenizer never comes back.\<close>

theorem exit_status_runaway:
  assumes "drop p b = ''$?'' @ rest" and "100 \<le> last_exit s" and "last_exit s < 256"
    and "length (items cl) < 63"
  shows "tokenize_loop b p cl s = None"
proof -
  have b: "p < length b" "b ! p = CHR ''$''" "Suc p < length b" "b ! Suc p = CHR ''?''"
    using assms(1) drop_eq_ConsD [of p b "CHR ''$''" "CHR ''?'' # rest"]
      drop_eq_ConsD [of "Suc p" b "CHR ''?''" rest] by simp_all
  obtain x y z where e: "exit_digits (last_exit s) = [x, y, z]" "isdigit (uc z)"
    using exit_digits_three [OF assms(2,3)] by blast
  have w: "word_loop (last_exit s) b p p 0 = None"
  proof (cases "p + 2 < length b")
    case True
    have "word_loop (last_exit s) (b[p := x, Suc p := y, Suc (Suc p) := z]) (Suc (Suc p)) (Suc (Suc (Suc p))) 0
        = None"
      by (rule word_loop_runaway) (use True e in simp_all)
    then show ?thesis using b e True
      by (subst word_loop.simps) (simp add: rd_def ends_word_def blank_def)
  next
    case False
    then show ?thesis using b e
      by (subst word_loop.simps) (simp add: rd_def ends_word_def blank_def)
  qed
  have "skip_blanks b p = Some p" using b by (subst skip_blanks.simps) (simp add: blank_def)
  then show ?thesis using b w assms(4) by (subst tokenize_loop.simps) simp
qed

theorem exit_status_runaway_witness:
  "tokenize_loop (''echo $?'' @ [NUL] @ replicate 100 NUL) 5 empty_cmdline (demo_shell\<lparr>last_exit := 127\<rparr>) = None"
  by (rule exit_status_runaway [of _ _ "NUL # replicate 100 NUL"]) (simp_all add: empty_cmdline_def)

end
