(* ===== verification/Shell_Line.thy ===== *)
theory Shell_Line
  imports Shell_Exec Tokenize_Spec
begin

text \<open>
  What the interpreter makes of a line.  The line is overwritten while it is executed; the first part shows how
  far (\<open>kept\<close>): a command writes only between its start and the terminator behind it.  The rest of the line is
  therefore read as it was typed, with one exception: the terminator of a segment may be written over the
  separator behind it.
\<close>

section \<open>What is kept of the line\<close>

definition kept :: "nat \<Rightarrow> nat \<Rightarrow> char list \<Rightarrow> char list \<Rightarrow> bool" where
  "kept lo hi b b' \<longleftrightarrow> length b' = length b \<and> (\<forall>i < length b. i < lo \<or> hi \<le> i \<longrightarrow> b' ! i = b ! i)"

lemma kept_refl [simp]: "kept lo hi b b"
  by (simp add: kept_def)

lemma kept_trans: "kept lo hi b b1 \<Longrightarrow> kept lo hi b1 b2 \<Longrightarrow> kept lo hi b b2"
  by (simp add: kept_def)

lemma kept_mono: "kept lo hi b b' \<Longrightarrow> lo' \<le> lo \<Longrightarrow> hi \<le> hi' \<Longrightarrow> kept lo' hi' b b'"
  by (auto simp: kept_def)

lemma kept_update: "lo \<le> i \<Longrightarrow> i < hi \<Longrightarrow> kept lo hi b (b[i := c])"
  by (auto simp: kept_def nth_list_update)

lemma kept_same: "b ! i = c \<Longrightarrow> kept lo hi b (b[i := c])"
  by (auto simp: kept_def nth_list_update)

lemma kept_length: "kept lo hi b b' \<Longrightarrow> length b' = length b"
  by (simp add: kept_def)

lemma kept_nth: "kept lo hi b b' \<Longrightarrow> hi \<le> i \<Longrightarrow> i < length b \<Longrightarrow> b' ! i = b ! i"
  by (simp add: kept_def)

lemma kept_drop: "kept lo hi b b' \<Longrightarrow> hi \<le> k \<Longrightarrow> drop k b' = drop k b"
  by (rule nth_equalityI) (auto simp: kept_def)

text \<open>The first NUL at or behind a position.\<close>

definition ends_at :: "char list \<Rightarrow> nat \<Rightarrow> nat \<Rightarrow> bool" where
  "ends_at b p e \<longleftrightarrow> p \<le> e \<and> e < length b \<and> b ! e = NUL \<and> (\<forall>i. p \<le> i \<and> i < e \<longrightarrow> b ! i \<noteq> NUL)"

lemma ends_at_later: "ends_at b p e \<Longrightarrow> p \<le> q \<Longrightarrow> q \<le> e \<Longrightarrow> ends_at b q e"
  by (auto simp: ends_at_def)

lemma ends_at_kept: "ends_at b p e \<Longrightarrow> kept lo p b b' \<Longrightarrow> ends_at b' p e"
  by (auto simp: ends_at_def kept_def)

lemma ends_at_reach: "ends_at b p e \<Longrightarrow> (\<And>i. p \<le> i \<Longrightarrow> i < q \<Longrightarrow> b ! i \<noteq> NUL) \<Longrightarrow> q \<le> e"
  by (meson ends_at_def not_le)

section \<open>The tokenizer\<close>

lemma skip_blanks_blank: "skip_blanks b p = Some q \<Longrightarrow> p \<le> i \<Longrightarrow> i < q \<Longrightarrow> blank (b ! i)"
proof (induction b p rule: skip_blanks.induct)
  case (1 b p)
  then show ?case by (subst (asm) (2) skip_blanks.simps) (cases "p = i"; auto split: if_splits)
qed

lemma target_end_text: "target_end b p = Some q \<Longrightarrow> p \<le> i \<Longrightarrow> i < q \<Longrightarrow> b ! i \<noteq> NUL"
proof (induction b p rule: target_end.induct)
  case (1 b p)
  then show ?case by (subst (asm) (2) target_end.simps) (cases "p = i"; auto split: if_splits)
qed

lemma not_blank_NUL [simp]: "\<not> blank NUL" "\<not> ends_word NUL"
  by (simp_all add: blank_def ends_word_def)

lemma skip_blanks_reach: "skip_blanks b p = Some q \<Longrightarrow> ends_at b p e \<Longrightarrow> q \<le> e"
  using skip_blanks_blank [of b p q] by (intro ends_at_reach) (auto, metis not_blank_NUL(1))

lemma redirect_reach:
  assumes "redirect b p cl = Some (p', cl')" and "ends_at b p e" and "b ! p \<noteq> NUL"
  shows "p \<le> p' \<and> p' \<le> e"
proof -
  define st where "st = (if b ! p = CHR ''>'' \<and> rd b (p + 1) = Some CHR ''>'' then p + 2 else p + 1)"
  obtain q r where q: "skip_blanks b st = Some q" "target_end b q = Some r" "p' = (if b ! r \<noteq> NUL then r + 1 else r)"
    using assms(1) by (auto simp: redirect_def rd_def st_def Let_def split: bind_splits if_splits)
  have "p < e" using assms(2,3) by (metis ends_at_def le_neq_implies_less)
  moreover have "rd b (p + 1) = Some CHR ''>'' \<Longrightarrow> p + 1 \<noteq> e" using assms(2) by (auto simp: ends_at_def rd_def)
  ultimately have st: "p < st" "st \<le> e" by (auto simp: st_def)
  have qe: "q \<le> e" "p \<le> q"
    using skip_blanks_reach [OF q(1) ends_at_later [OF assms(2)]] skip_blanks_ge [OF q(1)] st by auto
  have "r \<le> e"
    using target_end_text [OF q(2)] ends_at_reach [OF ends_at_later [OF assms(2) qe(2,1)]] by blast
  moreover have "b ! r \<noteq> NUL \<Longrightarrow> r \<noteq> e" using assms(2) by (auto simp: ends_at_def)
  ultimately show ?thesis using q(3) target_end_ge [OF q(2)] qe by auto
qed

text \<open>A writer in front of the reader, with nothing but digits between them, never lets it stop.\<close>

lemma word_loop_digits_ahead:
  "p < out \<Longrightarrow> out \<le> length b \<Longrightarrow> \<forall>i. p \<le> i \<and> i < out \<longrightarrow> isdigit (uc (b ! i)) \<Longrightarrow>
   word_loop code b p out 0 = None"
proof (induction "length b - p" arbitrary: b p out rule: less_induct)
  case less
  let ?d = "b ! p"
  have d: "?d \<noteq> NUL" "?d \<noteq> QUOTE" "?d \<noteq> DQUOTE" "\<not> ends_word ?d" "?d \<noteq> CHR ''$''"
    using less.prems by (auto simp: isdigit_def ends_word_def blank_def uc_def)
  show ?case
  proof (cases "out < length b")
    case True
    have "word_loop code (b[out := ?d]) (Suc p) (Suc out) 0 = None"
      by (rule less.hyps) (use True less.prems in \<open>auto simp: nth_list_update less_Suc_eq\<close>)
    then show ?thesis using d less.prems True by (subst word_loop.simps) simp
  next
    case False
    then show ?thesis using d less.prems by (subst word_loop.simps) simp
  qed
qed

lemma append_str_fits: "append_str b out t = Some (b', out') \<Longrightarrow> t = [] \<or> out + length t \<le> length b"
proof (induction b out t rule: append_str.induct)
  case (2 b out c t)
  then show ?case by (cases "t = []") (auto split: if_splits)
qed simp

lemma exit_digits_isdigit: "c \<in> set (exit_digits code) \<Longrightarrow> isdigit (uc c)"
  unfolding exit_digits_def set_rev by (rule dec_digits_isdigit)

lemma word_loop_kept:
  "word_loop code b p out q = Some (b', p', out') \<Longrightarrow> out \<le> p \<Longrightarrow>
   out \<le> out' \<and> out' \<le> p' \<and> p' < length b \<and> kept out p' b b' \<and> (\<forall>i. p \<le> i \<and> i < p' \<longrightarrow> b ! i \<noteq> NUL)"
proof (induction "length b - p" arbitrary: b p out q rule: less_induct)
  case less
  note st = less.prems(1) [unfolded word_loop.simps [of code b p out q]]
  have step: ?case
    if r: "word_loop code b1 (p + k) o1 q1 = Some (b', p', out')" and o1: "out \<le> o1" "o1 \<le> p + k" and k: "0 < k"
      and p: "p < length b" and b1: "kept out (p + k) b b1" and nz: "\<forall>i. p \<le> i \<and> i < p + k \<longrightarrow> b ! i \<noteq> NUL"
    for b1 k o1 q1
  proof -
    have l1: "length b1 = length b" using b1 by (rule kept_length)
    have ih: "o1 \<le> out' \<and> out' \<le> p' \<and> p' < length b1 \<and> kept o1 p' b1 b' \<and>
        (\<forall>i. p + k \<le> i \<and> i < p' \<longrightarrow> b1 ! i \<noteq> NUL)"
      by (rule less.hyps [OF _ r o1(2)]) (use p k l1 in simp)
    have pk: "p + k \<le> p'" using word_loop_props [OF r] by simp
    have kp: "kept out p' b b'"
      using kept_trans [OF kept_mono [OF b1 order_refl pk], of b'] ih kept_mono [of o1 p' b1 b' out p'] o1(1) by simp
    have "b ! i \<noteq> NUL" if "p \<le> i" "i < p'" for i
    proof (cases "i < p + k")
      case False
      then have "b1 ! i \<noteq> NUL" "b1 ! i = b ! i" using ih that kept_nth [OF b1, of i] l1 by auto
      then show ?thesis by simp
    qed (use nz that in simp)
    then show ?thesis using ih kp o1 l1 by auto
  qed
  show ?case
  proof (cases "q = 0 \<and> b ! p = CHR ''$'' \<and> rd b (p + 1) = Some CHR ''?'' \<and> p < length b")
    case True
    then have "b ! p \<noteq> NUL" "\<not> ends_word (b ! p)" by (auto simp: ends_word_def blank_def)
    with True st obtain b1 o1 where b1: "append_str b out (exit_digits code) = Some (b1, o1)"
      "word_loop code b1 (p + 2) o1 0 = Some (b', p', out')"
      by (auto split: option.splits)
    have p1: "Suc p < length b" "b ! Suc p = CHR ''?''" using True by (auto simp: rd_def split: if_splits)
    let ?n = "length (exit_digits code)"
    have fits: "out + ?n \<le> length b" using append_str_fits [OF b1(1)] less.prems(2) p1 by auto
    then have e: "b1 = take out b @ exit_digits code @ drop (out + ?n) b" "o1 = out + ?n"
      using b1(1) append_str_eq [of out "exit_digits code" b] by auto
    have l1: "length b1 = length b" using fits by (simp add: e(1))
    have n1: "b1 ! i = (if i < out then b ! i else if i < o1 then exit_digits code ! (i - out) else b ! i)"
      if "i < length b" for i
      using that fits by (auto simp: e nth_append)
    have "o1 \<le> p + 2"
    proof (rule ccontr)
      assume a: "\<not> o1 \<le> p + 2"
      have "isdigit (uc (b1 ! i))" if "p + 2 \<le> i" "i < o1" for i
        using that n1 [of i] fits e(2) less.prems(2) exit_digits_isdigit [of "exit_digits code ! (i - out)" code] by auto
      then have "word_loop code b1 (p + 2) o1 0 = None"
        using a fits l1 e(2) by (intro word_loop_digits_ahead) auto
      then show False using b1(2) by simp
    qed
    then have k: "kept out (p + 2) b b1" using l1 n1 by (auto simp: kept_def)
    have "b ! i \<noteq> NUL" if "p \<le> i" "i < p + 2" for i
    proof -
      have "i = p \<or> i = Suc p" using that by auto
      then show ?thesis using p1(2) \<open>b ! p \<noteq> NUL\<close> by auto
    qed
    then show ?thesis
      using step [OF b1(2) _ \<open>o1 \<le> p + 2\<close> _ _ k] True e(2) by simp
  next
    case False
    have pl: "p < length b" using st by (cases "p < length b") simp_all
    then have f: "\<not> (q = 0 \<and> b ! p = CHR ''$'' \<and> rd b (p + 1) = Some CHR ''?'')" using False by simp
    note st2 = st [unfolded if_not_P [OF f]]
    have "(b', p', out') = (b, p, out) \<or>
        b ! p \<noteq> NUL \<and> (\<exists>q1. word_loop code b (p + 1) out q1 = Some (b', p', out')) \<or>
        b ! p \<noteq> NUL \<and> word_loop code (b[out := b ! p]) (p + 1) (out + 1) q = Some (b', p', out')"
      using st2 pl by (fastforce split: if_splits)
    then consider (stop) "p < length b" "(b', p', out') = (b, p, out)"
      | (skip) q1 where "p < length b" "b ! p \<noteq> NUL" "word_loop code b (p + 1) out q1 = Some (b', p', out')"
      | (copy) "p < length b" "b ! p \<noteq> NUL"
          "word_loop code (b[out := b ! p]) (p + 1) (out + 1) q = Some (b', p', out')"
      using pl by blast
    then show ?thesis
    proof cases
      case stop
      then show ?thesis using less.prems(2) by auto
    next
      case skip
      then show ?thesis using step [OF skip(3) order_refl _ _ skip(1) kept_refl] less.prems(2)
        by (metis Suc_eq_plus1 le_SucI le_antisym less_Suc_eq_le zero_less_one)
    next
      case copy
      have "kept out (p + 1) b (b[out := b ! p])" using less.prems(2) by (intro kept_update) auto
      then show ?thesis using step [OF copy(3) _ _ _ copy(1)] less.prems(2) copy(2)
        by (metis Suc_eq_plus1 add_le_cancel_right le_add1 le_antisym less_Suc_eq_le zero_less_one)
    qed
  qed
qed

text \<open>A call of the tokenizer changes the line between its start and the end of the string, and the memory
  counter of the shell.\<close>

definition same_but_used :: "shell \<Rightarrow> shell \<Rightarrow> bool" where
  "same_but_used s s' \<longleftrightarrow> (\<exists>u. s' = s\<lparr>used := u\<rparr>)"

lemma same_but_used_refl [simp]: "same_but_used s s"
  by (auto simp: same_but_used_def intro: exI [of _ "used s"])

lemma same_but_used_trans: "same_but_used s s1 \<Longrightarrow> same_but_used s1 s2 \<Longrightarrow> same_but_used s s2"
  by (auto simp: same_but_used_def)

lemma kmalloc_same_but_used: "kmalloc n s = (r, s') \<Longrightarrow> same_but_used s s'"
  by (auto simp: kmalloc_def Let_def same_but_used_def intro: exI [of _ "used s"] split: if_splits)

lemma expand_tilde_same_but_used: "expand_tilde b p s = Some (it, s') \<Longrightarrow> same_but_used s s'"
  by (auto simp: expand_tilde_def Let_def split: option.splits if_splits prod.splits dest: kmalloc_same_but_used)

lemma tokenize_loop_kept:
  "tokenize_loop b p cl s = Some (b', cl', s') \<Longrightarrow> ends_at b p e \<Longrightarrow> kept p e b b' \<and> same_but_used s s'"
proof (induction b p cl s rule: tokenize_loop.induct)
  case (1 b p0 cl s)
  note st = "1.prems"(1) [unfolded tokenize_loop.simps [of b p0 cl s]]
  show ?case
  proof (cases "b ! p0 = NUL \<or> length (items cl) \<ge> 63")
    case True
    then show ?thesis using st by (auto split: if_splits)
  next
    case go: False
    then obtain p where p: "p0 < length b" "skip_blanks b p0 = Some p"
      using st by (auto split: if_splits option.splits)
    have pe: "p \<le> e" "p0 \<le> p" using skip_blanks_reach [OF p(2) "1.prems"(2)] skip_blanks_ge [OF p(2)] by auto
    have ea: "ends_at b p e" by (rule ends_at_later [OF "1.prems"(2) pe(2,1)])
    show ?thesis
    proof (cases "b ! p = NUL")
      case True
      then show ?thesis using st go p by auto
    next
      case nn: False
      show ?thesis
      proof (cases "b ! p = CHR ''>'' \<or> b ! p = CHR ''<''")
        case True
        then obtain p' cl1 where r: "redirect b p cl = Some (p', cl1)" "tokenize_loop b p' cl1 s = Some (b', cl', s')"
          using st go p nn by (auto split: option.splits)
        have p': "p \<le> p'" "p' \<le> e" using redirect_reach [OF r(1) ea nn] by auto
        have "kept p' e b b' \<and> same_but_used s s'"
          by (rule "1.IH"(1) [OF _ _ p(2) nn True r(1) refl r(2) ends_at_later [OF ea p']]) (use p go in auto)
        then show ?thesis using kept_mono [of p' e b b' p0 e] p' pe by auto
      next
        case notred: False
        then obtain b1 p1 out where w: "word_loop (last_exit s) b p p 0 = Some (b1, p1, out)"
          using st go p nn by (auto split: option.splits)
        note wk = word_loop_kept [OF w order_refl]
        have p1: "p1 \<le> e" "p \<le> p1" using ends_at_reach [OF ea, of p1] wk by auto
        have l1: "length b1 = length b" using wk kept_length by blast
        define b2 where "b2 = (if b1 ! p1 \<noteq> NUL then b1[p1 := NUL] else b1)"
        define p2 where "p2 = (if b1 ! p1 \<noteq> NUL then p1 + 1 else p1)"
        define b3 where "b3 = b2[out := NUL]"
        have same: "b1 ! p1 = b ! p1" using wk kept_nth by blast
        have p1e: "b1 ! p1 = NUL \<longleftrightarrow> p1 = e" using same ea p1 by (metis ends_at_def le_neq_implies_less)
        have p2: "p2 \<le> e" "p \<le> p2" using p1 p1e by (auto simp: p2_def)
        have k1: "kept p p2 b b1" using wk kept_mono [of p p1 b b1 p p2] by (auto simp: p2_def)
        have k2: "kept p p2 b1 b2" using kept_update [of p p1 p2 b1 NUL] p1 by (auto simp: b2_def p2_def)
        have k3: "kept p p2 b2 b3"
        proof (cases "out < p2")
          case True
          then show ?thesis using kept_update wk by (simp add: b3_def)
        next
          case False
          then have "b2 ! out = NUL" using wk by (auto simp: b2_def p2_def split: if_splits)
          then show ?thesis by (simp add: b3_def kept_same)
        qed
        have k: "kept p p2 b b3" using kept_trans [OF kept_trans [OF k1 k2] k3] .
        obtain it s1 where x: "expand_tilde b3 p s = Some (it, s1)"
          "tokenize_loop b3 p2 (cl\<lparr>items := items cl @ [it]\<rparr>) s1 = Some (b', cl', s')"
          using st go p nn notred w wk l1
          by (auto simp: b3_def b2_def p2_def rd_def Let_def split: option.splits if_splits)
        have "kept p2 e b3 b' \<and> same_but_used s1 s'"
          by (rule "1.IH"(2) [OF _ _ p(2) nn notred w refl refl _ b2_def p2_def _ b3_def x(1) refl x(2)
                ends_at_kept [OF ends_at_later [OF ea p2(2,1)] k]])
            (use p go wk l1 in \<open>auto simp: rd_def b2_def\<close>)
        then show ?thesis
          using kept_trans [OF kept_mono [OF k _ p2(1), of p0] kept_mono [of p2 e b3 b' p0 e]] pe p2
            same_but_used_trans [OF expand_tilde_same_but_used [OF x(1)]] by auto
      qed
    qed
  qed
qed

lemma tokenize_kept: "tokenize b p s = Some (b', cl, s') \<Longrightarrow> ends_at b p e \<Longrightarrow> kept p e b b'"
  using tokenize_loop_kept unfolding tokenize_def by blast

section \<open>Pipelines\<close>

lemma run_segment_kept:
  assumes "run_segment b seg d s = Some (r, b', s')" and "ends_at b seg e"
  shows "kept seg e b b'"
proof -
  obtain b1 cl s1 where t: "tokenize b seg s = Some (b1, cl, s1)"
    using assms(1) by (auto simp: run_segment_def split: bind_splits)
  then have "b' = b1"
    using assms(1) by (auto simp: run_segment_def Let_def split: bind_splits if_splits option.splits prod.splits)
  then show ?thesis using tokenize_kept [OF t assms(2)] by simp
qed

lemma pipeline_loop_kept:
  "pipeline_loop b seg p which s = Some (Some rc, b', s') \<Longrightarrow> ends_at b seg e \<Longrightarrow> seg \<le> p \<Longrightarrow> p \<le> e \<Longrightarrow>
   kept seg e b b'"
proof (induction "length b - p" arbitrary: b seg p which s rule: less_induct)
  case less
  have e: "e < length b" "b ! e = NUL" using less.prems(2) by (auto simp: ends_at_def)
  have p: "p < length b" "rd b p = Some (b ! p)" using less.prems(4) e by (auto simp: rd_def)
  note st = less.prems(1) [unfolded pipeline_loop.simps [of b seg p which s] p(2)]
  consider (nul) "b ! p = NUL" | (bar) "b ! p = CHR ''|''" "b ! p \<noteq> NUL" | (other) "b ! p \<noteq> NUL" "b ! p \<noteq> CHR ''|''"
    by auto
  then show ?case
  proof cases
    case nul
    then show ?thesis using st run_segment_kept [OF _ less.prems(2)] by (auto split: bind_splits)
  next
    case bar
    then have pe: "p < e" using e less.prems(4) by (metis le_neq_implies_less)
    let ?b0 = "b[p := NUL]"
    obtain rc1 b1 s1 where r: "run_segment ?b0 seg True (s\<lparr>pipe_writer := Some which\<rparr>) = Some (Some rc1, b1, s1)"
      and st2: "(case skip_blanks b1 (p + 1) of None \<Rightarrow> None
         | Some q \<Rightarrow> pipeline_loop b1 q q (\<not> which) (next_pipe which s1)) = Some (Some rc, b', s')"
      using st bar by (auto split: bind_splits option.splits if_splits)
    then obtain q where q: "skip_blanks b1 (p + 1) = Some q"
      "pipeline_loop b1 q q (\<not> which) (next_pipe which s1) = Some (Some rc, b', s')"
      by (auto split: option.splits)
    have "ends_at ?b0 seg p" using less.prems(2,3) p(1) pe by (auto simp: ends_at_def)
    then have "kept seg p ?b0 b1" by (rule run_segment_kept [OF r])
    then have k: "kept seg (p + 1) b b1"
      using kept_trans [OF kept_update [of seg p "p + 1" b NUL] kept_mono [of seg p ?b0 b1 seg "p + 1"]] less.prems(3)
      by simp
    have ea: "ends_at b1 (p + 1) e"
      by (rule ends_at_kept [OF ends_at_later [OF less.prems(2)] k]) (use less.prems(3) pe in auto)
    have qe: "q \<le> e" "p + 1 \<le> q" using skip_blanks_reach [OF q(1) ea] skip_blanks_ge [OF q(1)] by auto
    have "kept q e b1 b'"
      by (rule less.hyps [OF _ q(2) ends_at_later [OF ea qe(2,1)] order_refl qe(1)])
        (use k qe p(1) in \<open>auto dest: kept_length\<close>)
    then show ?thesis
      using kept_trans [OF kept_mono [OF k order_refl, of e] kept_mono [of q e b1 b' seg e]] qe pe less.prems(3) by simp
  next
    case other
    then have "p + 1 \<le> e" using e less.prems(4) by (metis Suc_eq_plus1 Suc_leI le_neq_implies_less)
    then show ?thesis
      using st other p(1) less.prems(2,3) by (intro less.hyps [of b "p + 1"]) auto
  qed
qed

lemma exec_pipeline_kept:
  assumes "exec_pipeline b line len s = Some (Some rc, b', s')"
    and "line + len < length b" and "\<forall>i. line \<le> i \<and> i < line + len \<longrightarrow> b ! i \<noteq> NUL"
  shows "kept line (line + len) (b[line + len := NUL]) b'"
proof (rule pipeline_loop_kept)
  show "pipeline_loop (b[line + len := NUL]) line line False (pipes_start s) = Some (Some rc, b', s')"
    using assms(1,2) by (simp add: exec_pipeline_def wr_def)
  show "ends_at (b[line + len := NUL]) line (line + len)" using assms(2,3) by (auto simp: ends_at_def)
qed simp_all

section \<open>Separators\<close>

text \<open>A text without separators and comments.\<close>

fun one_segment :: "string \<Rightarrow> bool" where
  "one_segment [] \<longleftrightarrow> True"
| "one_segment (c # x) \<longleftrightarrow>
     c \<notin> {NUL, CHR '';'', CHR ''#'', CHR ''&''} \<and> (c = CHR ''|'' \<longrightarrow> x \<noteq> [] \<and> hd x \<noteq> CHR ''|'') \<and> one_segment x"

text \<open>A command as it stands between separators: it begins and ends with a character that is not blank.\<close>

definition command_text :: "string \<Rightarrow> bool" where
  "command_text x \<longleftrightarrow> one_segment x \<and> x \<noteq> [] \<and> \<not> blank (hd x) \<and> \<not> blank (last x)"

lemma one_segment_no_NUL: "one_segment x \<Longrightarrow> NUL \<notin> set x"
  by (induction x) auto

lemma one_segment_blanks: "list_all blank bl \<Longrightarrow> one_segment bl"
  by (induction bl) (auto simp: blank_def)

lemma one_segment_append: "one_segment x \<Longrightarrow> one_segment y \<Longrightarrow> one_segment (x @ y)"
  by (induction x) (auto simp: hd_append)

lemma line_loop_scan:
  "one_segment x \<Longrightarrow> drop p b = x @ r \<Longrightarrow> line_loop b start p rc s = line_loop b start (p + length x) rc s"
proof (induction x arbitrary: p)
  case (Cons c x)
  have d: "p < length b" "b ! p = c" "drop (Suc p) b = x @ r"
    using drop_eq_ConsD [of p b c "x @ r"] Cons.prems(2) by simp_all
  have "c = CHR ''|'' \<Longrightarrow> rd b (p + 1) \<noteq> Some CHR ''|''"
    using Cons.prems(1) d(3) drop_eq_ConsD [of "Suc p" b "hd x" "tl x @ r"] by (cases x) (auto simp: rd_def)
  then have "is_separator b p = None" using d Cons.prems(1) by (auto simp: is_separator_def rd_def)
  then have "line_loop b start p rc s = line_loop b start (p + 1) rc s"
    using d Cons.prems(1) by (subst line_loop.simps) (simp add: rd_def)
  then show ?case using Cons.IH [OF _ d(3)] Cons.prems(1) by simp
qed simp

lemma trim_len_blanks:
  assumes "list_all blank bl" and "\<not> blank (last x)" and "x \<noteq> []" and "drop start b = x @ bl @ r"
  shows "trim_len b start (length x + length bl) = length x"
proof -
  have nth: "b ! (start + i) = (x @ bl @ r) ! i" if "i < length (x @ bl @ r)" for i
    using that assms(4) nth_drop [of start b i]
    by (metis length_drop less_imp_le_nat linorder_not_less diff_is_0_eq' list.size(3) not_less0 drop_eq_Nil)
  have "n \<le> length bl \<Longrightarrow> trim_len b start (length x + n) = length x" for n
  proof (induction n)
    case 0
    obtain m where m: "length x = Suc m" using assms(3) by (cases x) auto
    then have "b ! (start + m) = last x" using nth [of m] by (simp add: nth_append last_conv_nth assms(3))
    then show ?case using m assms(2) by simp
  next
    case (Suc n)
    then have "b ! (start + (length x + n)) = bl ! n" using nth [of "length x + n"] by (simp add: nth_append)
    then show ?case using Suc assms(1) by (simp add: list_all_length)
  qed
  then show ?thesis by simp
qed

text \<open>Running the command of \<open>n\<close> characters at \<open>p\<close>, with its exit code stored.\<close>

definition run_one :: "char list \<Rightarrow> nat \<Rightarrow> nat \<Rightarrow> shell \<Rightarrow> (int option \<times> char list \<times> shell) option" where
  "run_one b p n s = do {
     (r, b, s) \<leftarrow> exec_pipeline b p n s;
     case r of None \<Rightarrow> Some (None, b, s) | Some rc \<Rightarrow> Some (Some rc, b, sh_set_exit rc s) }"

lemma drop_less: "drop p b = x @ c # r \<Longrightarrow> p + length x < length b \<and> b ! (p + length x) = c"
proof (induction x arbitrary: p)
  case (Cons d x)
  then show ?case using drop_eq_ConsD [of p b d "x @ c # r"] by fastforce
qed (auto dest: drop_eq_ConsD)

lemma run_one_kept:
  assumes "run_one b p (length x) s = Some (Some rc, b', s')" and "drop p b = x @ c # r" and "NUL \<notin> set x"
  shows "length b' = length b" "b' ! (p + length x) = NUL" "drop (p + length x + 1) b' = r"
proof -
  have len: "p + length x < length b"
    using drop_less [OF assms(2)] by simp
  have nz: "b ! i \<noteq> NUL" if "p \<le> i" "i < p + length x" for i
  proof -
    have "b ! i = drop p b ! (i - p)" using that len by simp
    also have "i - p < length x" using that by arith
    then have "drop p b ! (i - p) = x ! (i - p)" by (simp add: assms(2) nth_append)
    finally show ?thesis using assms(3) \<open>i - p < length x\<close> by (metis nth_mem)
  qed
  obtain s1 where "exec_pipeline b p (length x) s = Some (Some rc, b', s1)"
    using assms(1) by (auto simp: run_one_def split: bind_splits option.splits)
  then have k: "kept p (p + length x) (b[p + length x := NUL]) b'"
    using exec_pipeline_kept len nz by blast
  then show "length b' = length b" "b' ! (p + length x) = NUL"
    using kept_length [OF k] kept_nth [OF k, of "p + length x"] len by auto
  have "drop (p + length x + 1) b' = drop (p + length x + 1) b" using kept_drop [OF k, of "p + length x + 1"] by simp
  also have "\<dots> = drop (length x + 1) (drop p b)" by (simp add: add.commute)
  also have "\<dots> = r" by (simp add: assms(2))
  finally show "drop (p + length x + 1) b' = r" .
qed

lemma end_segment_runs:
  "command_text x \<Longrightarrow> list_all blank bl \<Longrightarrow> drop start b = x @ bl @ r \<Longrightarrow>
   end_segment b start (start + (length x + length bl)) kind rc s =
     (if runs kind rc then run_one b start (length x) s else Some (Some rc, b, sh_set_exit rc s))"
  by (auto simp: end_segment_def run_one_def command_text_def trim_len_blanks split: option.splits)

lemma skip_blanks_text:
  assumes "list_all blank bl" and "\<not> blank c" and "drop p b = bl @ c # r"
  shows "skip_blanks b p = Some (p + length bl)"
  using assms(1,3)
proof (induction bl arbitrary: p)
  case (Cons d bl)
  then have "skip_blanks b (Suc p) = Some (Suc p + length bl)"
    using drop_eq_ConsD [of p b d "bl @ c # r"] by simp
  then show ?case using Cons.prems drop_eq_ConsD [of p b d "bl @ c # r"] by (subst skip_blanks.simps) simp
next
  case (Nil p)
  then show ?case using assms(2) drop_eq_ConsD [of p b c r] by (subst skip_blanks.simps) simp
qed

text \<open>The last command of a line.\<close>

lemma last_command:
  assumes "command_text x" and "drop p b = x @ NUL # r"
  shows "line_loop b p p rc s = run_one b p (length x) s"
proof -
  have x: "one_segment x" "NUL \<notin> set x" using assms(1) one_segment_no_NUL by (auto simp: command_text_def)
  have "line_loop b p p rc s = line_loop b p (p + length x) rc s" by (rule line_loop_scan [OF x(1) assms(2)])
  also have "\<dots> = do {
      (r, b, s) \<leftarrow> run_one b p (length x) s;
      case r of None \<Rightarrow> Some (None, b, s)
      | Some rc \<Rightarrow> do { c \<leftarrow> rd b (p + length x); if c = NUL then Some (Some rc, b, s) else do {
          q \<leftarrow> skip_blanks b (p + length x); line_loop b q q rc s } } }"
    using drop_less [OF assms(2)] end_segment_runs [OF assms(1), of "[]" p b "NUL # r" None rc s] assms(2)
    by (subst line_loop.simps) (simp add: rd_def runs_def cong: option.case_cong if_cong)
  also have "\<dots> = run_one b p (length x) s"
    using run_one_kept [OF _ assms(2) x(2)] drop_less [OF assms(2)]
    by (auto simp: rd_def split: bind_splits option.splits)
  finally show ?thesis .
qed

text \<open>One step of the line loop, for a command in front of a separator.\<close>

lemma separated_command:
  assumes x: "command_text x" and bl: "list_all blank bl" and d: "drop p b = x @ bl @ c # r"
    and sep: "is_separator b (p + length x + length bl) = Some (k, n)"
  shows "line_loop b p p rc s =
     (if runs (Some k) rc then do {
        (r, b, s) \<leftarrow> run_one b p (length x) s;
        case r of None \<Rightarrow> Some (None, b, s)
        | Some rc \<Rightarrow>
            if bl = [] then Some (Some rc, b, s)
            else do { q \<leftarrow> skip_blanks b (p + length x + length bl + n); line_loop b q q rc s } }
      else do { q \<leftarrow> skip_blanks b (p + length x + length bl + n); line_loop b q q rc (sh_set_exit rc s) })"
proof -
  let ?m = "p + length x + length bl"
  have x1: "one_segment (x @ bl)" "NUL \<notin> set x"
    using x bl one_segment_append one_segment_blanks one_segment_no_NUL by (auto simp: command_text_def)
  have c: "?m < length b" "b ! ?m = c" using drop_less [of p b "x @ bl" c r] d by (simp_all add: add.assoc)
  have cn: "c \<noteq> NUL" using sep c by (auto simp: is_separator_def rd_def split: if_splits)
  note es = end_segment_runs [OF x bl d, of "Some k" rc s, unfolded add.assoc [symmetric]]
  have "line_loop b p p rc s = line_loop b p ?m rc s"
    using line_loop_scan [OF x1(1), of p b "c # r" p rc s] d by (simp add: add.assoc)
  also have "\<dots> = do {
      (r, b, s) \<leftarrow> (if runs (Some k) rc then run_one b p (length x) s else Some (Some rc, b, sh_set_exit rc s));
      case r of None \<Rightarrow> Some (None, b, s)
      | Some rc \<Rightarrow> do { c \<leftarrow> rd b ?m; if c = NUL then Some (Some rc, b, s) else do {
          q \<leftarrow> skip_blanks b (?m + n); line_loop b q q rc s } } }"
    using c cn sep es by (subst line_loop.simps) (simp add: rd_def cong: option.case_cong if_cong)
  also have "\<dots> = (if runs (Some k) rc then do {
        (r, b, s) \<leftarrow> run_one b p (length x) s;
        case r of None \<Rightarrow> Some (None, b, s)
        | Some rc \<Rightarrow>
            if bl = [] then Some (Some rc, b, s)
            else do { q \<leftarrow> skip_blanks b (?m + n); line_loop b q q rc s } }
      else do { q \<leftarrow> skip_blanks b (?m + n); line_loop b q q rc (sh_set_exit rc s) })"
  proof -
    have "rd b' ?m = Some (if bl = [] then NUL else c)"
      if r: "run_one b p (length x) s = Some (Some rc', b', s')" for rc' b' s'
    proof (cases bl)
      case Nil
      then show ?thesis using run_one_kept(1,2) [OF r _ x1(2), of c r] d c(1) by (simp add: rd_def)
    next
      case (Cons e bl')
      have "drop (p + length x + 1) b' = bl' @ c # r" "length b' = length b"
        using run_one_kept(1,3) [OF r _ x1(2), of e "bl' @ c # r"] d Cons by simp_all
      then show ?thesis using drop_less [of "p + length x + 1" b' bl' c r] Cons by (simp add: rd_def)
    qed
    note after = this
    have rdc: "rd b ?m = Some c" using c by (simp add: rd_def)
    show ?thesis
    proof (cases "run_one b p (length x) s")
      case None
      then show ?thesis using rdc cn by simp
    next
      case (Some res)
      then obtain r' b' s' where r: "run_one b p (length x) s = Some (r', b', s')" by (cases res) auto
      then show ?thesis using rdc cn after [of _ b' s'] by (cases r') simp_all
    qed
  qed
  finally show ?thesis .
qed

text \<open>C7: a line of two commands.  Behind \<open>;\<close> and \<open>&&\<close> the second command runs whatever the exit code of the first
  one is, and it does not run at all when the separator follows the first command without a blank, for the
  terminator of the first command is then written over the separator and ends the line.  In front of \<open>||\<close> the
  first command never runs: the condition is tested with the exit code before it.\<close>

theorem two_commands:
  assumes "command_text x" and "command_text y" and "list_all blank bl" and "list_all blank bl2"
    and "sep \<in> {'';'', ''&&'', ''||''}" and "b = x @ bl @ sep @ bl2 @ y @ NUL # tail"
  shows "shell_exec_line b s =
     (if sep = ''||'' then run_one b (length (x @ bl @ sep @ bl2)) (length y) (sh_set_exit 0 s)
      else do {
        (r, b, s) \<leftarrow> run_one b 0 (length x) s;
        if r = None \<or> bl = [] then Some (r, b, s)
        else run_one b (length (x @ bl @ sep @ bl2)) (length y) s })"
proof -
  let ?q = "length (x @ bl @ sep @ bl2)"
  obtain c x' where x: "x = c # x'" "\<not> blank c" "c \<noteq> NUL" "c \<noteq> CHR ''#''"
    using assms(1) by (cases x) (auto simp: command_text_def)
  have "skip_blanks b 0 = Some 0" using x assms(6) by (subst skip_blanks.simps) simp
  then have start: "shell_exec_line b s = line_loop b 0 0 0 s" using x assms(6) by (simp add: shell_exec_line_def)
  let ?m = "length x + length bl"
  have dm: "drop ?m b = sep @ bl2 @ y @ NUL # tail" using assms(6) by simp
  have sepm: "is_separator b ?m = Some (if sep = ''||'' then CHR ''o'' else hd sep, length sep)"
    using assms(5)
  proof (elim insertE emptyE)
    assume s: "sep = '';''"
    then have "?m < length b \<and> b ! ?m = CHR '';''" using dm drop_eq_ConsD by fastforce
    then show ?thesis using s by (simp add: is_separator_def rd_def)
  next
    assume s: "sep = ''&&''"
    then have "?m < length b \<and> b ! ?m = CHR ''&''" "Suc ?m < length b \<and> b ! Suc ?m = CHR ''&''"
      using dm drop_eq_ConsD [of ?m b "CHR ''&''" "CHR ''&'' # bl2 @ y @ NUL # tail"]
        drop_eq_ConsD [of "Suc ?m" b "CHR ''&''" "bl2 @ y @ NUL # tail"] by simp_all
    then show ?thesis using s by (simp add: is_separator_def rd_def)
  next
    assume s: "sep = ''||''"
    then have "?m < length b \<and> b ! ?m = CHR ''|''" "Suc ?m < length b \<and> b ! Suc ?m = CHR ''|''"
      using dm drop_eq_ConsD [of ?m b "CHR ''|''" "CHR ''|'' # bl2 @ y @ NUL # tail"]
        drop_eq_ConsD [of "Suc ?m" b "CHR ''|''" "bl2 @ y @ NUL # tail"] by simp_all
    then show ?thesis using s by (simp add: is_separator_def rd_def)
  qed
  have hd: "sep = hd sep # tl sep" using assms(5) by auto
  define kind where "kind = (if sep = ''||'' then CHR ''o'' else hd sep)"
  have d: "drop 0 b = x @ bl @ hd sep # (tl sep @ bl2 @ y @ NUL # tail)"
    by (subst append_Cons [symmetric], subst hd [symmetric]) (simp add: assms(6))
  have "is_separator b (0 + length x + length bl) = Some (kind, length sep)" using sepm by (simp add: kind_def)
  note step = separated_command [OF assms(1,3) d this, of 0 s]
  have skip: "skip_blanks b' (0 + length x + length bl + length sep) = Some ?q \<and> drop ?q b' = y @ NUL # tail"
    if "drop (length (x @ bl @ sep)) b' = bl2 @ y @ NUL # tail" for b'
  proof -
    obtain e y' where y: "y = e # y'" "\<not> blank e" using assms(2) by (cases y) (auto simp: command_text_def)
    have "drop ?q b' = drop (length bl2) (drop (length (x @ bl @ sep)) b')" by (simp add: add_ac)
    also have "\<dots> = y @ NUL # tail" unfolding that by simp
    finally show ?thesis
      using skip_blanks_text [OF assms(4) y(2), of "length (x @ bl @ sep)" b' "y' @ NUL # tail"] that y(1)
      by (simp add: add.assoc)
  qed
  show ?thesis
  proof (cases "sep = ''||''")
    case True
    then have "runs (Some kind) 0 = False" by (simp add: runs_def kind_def)
    then show ?thesis
      using start step skip [of b] last_command [OF assms(2), of ?q b tail] assms(6) True by simp
  next
    case False
    then have run: "runs (Some kind) 0 = True" using assms(5) by (auto simp: runs_def kind_def)
    show ?thesis
    proof (cases "run_one b 0 (length x) s")
      case None
      then show ?thesis using start step run False by simp
    next
      case (Some res)
      then obtain r b' s' where r: "run_one b 0 (length x) s = Some (r, b', s')" by (cases res) auto
      show ?thesis
      proof (cases "r = None \<or> bl = []")
        case True
        then show ?thesis using start step run False r by (cases r) auto
      next
        case go: False
        then obtain rc e bl' where rc: "r = Some rc" "bl = e # bl'" by (cases r; cases bl) auto
        have "drop (0 + length x + 1) b' = bl' @ sep @ bl2 @ y @ NUL # tail"
          by (rule run_one_kept(3) [where c = e])
            (use r rc assms(1,6) one_segment_no_NUL in \<open>auto simp: command_text_def\<close>)
        then have "drop (length bl' + length sep) (drop (0 + length x + 1) b') = bl2 @ y @ NUL # tail" by simp
        then have "drop (length (x @ bl @ sep)) b' = bl2 @ y @ NUL # tail" using rc by (simp add: add_ac)
        from skip [OF this] last_command [OF assms(2), of ?q b' tail] show ?thesis
          using start step run False r rc by simp
      qed
    qed
  qed
qed

theorem two_commands_witness:
  "shell_exec_line (''true;false'' @ [NUL]) demo_shell =
     run_one (''true;false'' @ [NUL]) 0 (length ''true'') demo_shell"
  using two_commands [of "''true''" "''false''" "[]" "[]" "'';''" "''true;false'' @ [NUL]" "[]" demo_shell]
  by (simp add: command_text_def blank_def option.map_ident)

end
