(* ===== verification/Shell_Out.thy ===== *)
theory Shell_Out
  imports Shell_Exec Demo
begin

text \<open>
  Where the output of a command goes.  \<open>out_raw\<close> has three targets: the console, the pipe to the next command
  and a file.  What they promise is one contract (locale \<open>char_sink\<close>): as long as there is room, a character
  that is put arrives behind those that are there.  The lemmas on strings are proved once, and hold for each
  of the targets by interpretation.
\<close>

section \<open>The contract\<close>

locale char_sink =
  fixes put :: "char \<Rightarrow> 's \<Rightarrow> 's option"
    and got :: "'s \<Rightarrow> 'c list"
    and enc :: "char \<Rightarrow> 'c list"
    and room :: "nat \<Rightarrow> 's \<Rightarrow> bool"
  assumes put_room: "room (Suc n) s \<Longrightarrow> \<exists>s'. put c s = Some s' \<and> got s' = got s @ enc c \<and> room n s'"
begin

lemma put_all:
  "room (length t + n) s \<Longrightarrow>
   \<exists>s'. for_each put t s = Some s' \<and> got s' = got s @ concat (map enc t) \<and> room n s'"
proof (induction t arbitrary: s)
  case (Cons c t)
  then obtain s1 where "put c s = Some s1" "got s1 = got s @ enc c" "room (length t + n) s1"
    using put_room [of "length t + n" s c] by auto
  then show ?case using Cons.IH [of s1] by auto
qed simp

lemma put_lines:
  assumes "room (length (concat ts) + n) s"
  shows "\<exists>s'. for_each (for_each put) ts s = Some s' \<and> got s' = got s @ concat (map enc (concat ts)) \<and> room n s'"
  using assms
proof (induction ts arbitrary: s)
  case (Cons t ts)
  then obtain s1 where "for_each put t s = Some s1" "got s1 = got s @ concat (map enc t)"
      "room (length (concat ts) + n) s1"
    using put_all [of t "length (concat ts) + n" s] by (auto simp: add.assoc)
  then show ?case using Cons.IH [of s1] by auto
qed simp

end

lemma for_each_single [simp]: "for_each f [x] = f x"
proof
  fix s show "for_each f [x] s = f x s" by (cases "f x s") auto
qed

lemma out_all_for_each: "out_all t = for_each out_raw t"
  by (induction t) (auto intro!: ext)

lemma put_line_for_each: "put_line l = for_each out_raw (l @ [LF])"
proof
  fix s
  have "for_each out_raw (l @ [LF]) s = do { s \<leftarrow> for_each out_raw l s; for_each out_raw [LF] s }"
    by (rule for_each_append)
  then show "put_line l s = for_each out_raw (l @ [LF]) s"
    unfolding for_each_single by (simp add: put_line_def sh_puts_def sh_putc_def out_all_for_each)
qed

lemma sh_puts_for_each: "sh_puts t = for_each out_raw t" "sh_write t = for_each out_raw t"
  by (auto simp: sh_puts_def sh_write_def out_all_for_each)

section \<open>The console\<close>

definition to_console :: "nat \<Rightarrow> shell \<Rightarrow> bool" where
  "to_console n s \<longleftrightarrow> out_file s = None \<and> \<not> pipe_writing s"

interpretation console: char_sink out_raw line_out serial_bytes to_console
  by unfold_locales (auto simp: to_console_def out_raw_def console_putc_def)

section \<open>The pipe\<close>

lemma get_put_pipe [simp]: "get_pipe w (put_pipe v p s) = (if v = w then p else get_pipe w s)"
  by (simp add: get_pipe_def put_pipe_def)

lemma put_pipe_sel [simp]:
  "out_file (put_pipe w p s) = out_file s" "pipe_writing (put_pipe w p s) = pipe_writing s"
  "pipe_writer (put_pipe w p s) = pipe_writer s" "pipe_reader (put_pipe w p s) = pipe_reader s"
  "pipe_in_off (put_pipe w p s) = pipe_in_off s" "in_file (put_pipe w p s) = in_file s"
  "used (put_pipe w p s) = used s" "total (put_pipe w p s) = total s" "nodes (put_pipe w p s) = nodes s"
  by (simp_all add: put_pipe_def)

lemma put_pipe_twice [simp]: "put_pipe w p (put_pipe w q s) = put_pipe w p s"
  by (simp add: put_pipe_def)

text \<open>Two states that differ in the pipe only.\<close>

definition same_but_pipe :: "bool \<Rightarrow> shell \<Rightarrow> shell \<Rightarrow> bool" where
  "same_but_pipe w s0 s \<longleftrightarrow> put_pipe w (get_pipe w s0) s = s0"

lemma same_but_pipe_sel:
  assumes "same_but_pipe w s0 s"
  shows "out_file s = out_file s0" "pipe_writing s = pipe_writing s0" "pipe_writer s = pipe_writer s0"
    "in_file s = in_file s0" "used s = used s0" "total s = total s0"
  by (metis assms same_but_pipe_def put_pipe_sel)+

definition to_pipe :: "bool \<Rightarrow> shell \<Rightarrow> nat \<Rightarrow> shell \<Rightarrow> bool" where
  "to_pipe w s0 n s \<longleftrightarrow> out_file s = None \<and> pipe_writing s \<and> pipe_writer s = Some w \<and>
     allocated (get_pipe w s) \<and> length (pbytes (get_pipe w s)) + n \<le> PIPE_MAX \<and> same_but_pipe w s0 s"

interpretation pipe: char_sink out_raw "\<lambda>s. pbytes (get_pipe w s)" "\<lambda>c. [c]" "to_pipe w s0"
proof
  fix n s c
  assume "to_pipe w s0 (Suc n) s"
  then show "\<exists>s'. out_raw c s = Some s' \<and> pbytes (get_pipe w s') = pbytes (get_pipe w s) @ [c] \<and> to_pipe w s0 n s'"
    by (auto simp: to_pipe_def out_raw_def pipe_writer_add_def Let_def same_but_pipe_def)
qed

text \<open>A full pipe drops what is written to it.\<close>

lemma out_raw_full:
  assumes "out_file s = None" and "pipe_writing s" and "pipe_writer s = Some w"
    and "PIPE_MAX \<le> length (pbytes (get_pipe w s))"
  shows "for_each out_raw t s = Some s"
  by (induction t) (use assms in \<open>simp_all add: out_raw_def pipe_writer_add_def Let_def\<close>)

section \<open>A file\<close>

text \<open>The fields of the shell are behind those of the file system, which no file operation touches.\<close>

lemma shell_more_sel:
  assumes "fs.more s' = fs.more s"
  shows "out_file s' = out_file s" "in_file s' = in_file s" "in_off s' = in_off s" "pipe_writing s' = pipe_writing s"
    "pipe_writer s' = pipe_writer s" "pipe_reader s' = pipe_reader s" "pipe_in_off s' = pipe_in_off s"
    "pipe0 s' = pipe0 s" "pipe1 s' = pipe1 s" "screen s' = screen s" "line_out s' = line_out s"
    "keys s' = keys s" "last_exit s' = last_exit s" "history s' = history s"
  using assms by (cases s; cases s'; simp)+

text \<open>The state is that of \<open>s0\<close> but for the file \<open>f\<close> and the memory it takes.\<close>

definition only_file :: "u64 \<Rightarrow> shell \<Rightarrow> shell \<Rightarrow> bool" where
  "only_file f s0 s \<longleftrightarrow> same_tree s0 s \<and> fs.more s = fs.more s0 \<and> (\<forall>m. m \<noteq> f \<longrightarrow> node s m = node s0 m)"

lemma only_file_step: "only_file f s0 s \<Longrightarrow> file_step s f x s' \<Longrightarrow> only_file f s0 s'"
  using file_step_same_tree [of s f x s'] file_step_frame(2,10) [of s f x s']
  by (auto simp: only_file_def same_tree_def)

text \<open>What \<open>n\<close> more characters in the file may cost: the block doubles, so a file of at most \<open>X\<close> bytes has taken at
  most twice as much beyond the block it has now.\<close>

definition to_file_room :: "u64 \<Rightarrow> shell \<Rightarrow> nat \<Rightarrow> shell \<Rightarrow> bool" where
  "to_file_room f s0 n s \<longleftrightarrow> out_file s = Some f \<and> fs_ok s \<and> nodes s f \<noteq> None \<and> is_file s f \<and>
     only_file f s0 s \<and> 16 dvd fcap (node s f) \<and>
     (\<exists>X. 64 \<le> X \<and> fsize (node s f) + n + 1 \<le> X \<and> frontier s + 4 * X \<le> heap_end s + 2 * fcap (node s f))"

lemma append_cap_double:
  assumes "need \<le> c + 1" and "c < need" and "16 dvd c"
  shows "append_cap c need = (if c = 0 then 64 else 2 * c)"
proof (cases "c = 0")
  case True
  then show ?thesis using assms(1) by (simp add: append_cap_def while_unfold)
next
  case False
  then show ?thesis using assms by (simp add: append_cap_def while_unfold [of _ _ c] while_unfold [of _ _ "c * 2"])
qed

lemma append_in_place:
  assumes ok: "fs_ok s" and v: "nodes s f = Some v" "vtype v = FS_TYPE_FILE" and fits: "fsize v + 2 \<le> fcap v"
    and ap: "vfs_append_file (Some f) [c] s = (r, s')"
  shows "r" "fsize (node s' f) = fsize v + 1" "fcap (node s' f) = fcap v" "used s' = used s" "total s' = total s"
  using assms by (auto simp: vfs_append_file_def Let_def)

lemma append_grown:
  assumes ok: "fs_ok s" and v: "nodes s f = Some v" "vtype v = FS_TYPE_FILE" and full: "fcap v < fsize v + 2"
    and cap: "16 dvd fcap v"
    and room: "frontier s + (if fcap v = 0 then 64 else 2 * fcap v) \<le> heap_end s"
    and ap: "vfs_append_file (Some f) [c] s = (r, s')"
  defines "nc \<equiv> (if fcap v = 0 then 64 else 2 * fcap v)"
  shows "r" "fsize (node s' f) = fsize v + 1" "fcap (node s' f) = nc" "frontier s' = frontier s + nc"
    "heap_end s' = heap_end s"
proof -
  have sz: "fsize v + 2 \<le> fcap v + 1 \<or> fcap v = 0 \<and> fsize v = 0"
    using file_node(1) [OF ok v(1)] by (auto simp: data_ok_def split: option.splits)
  have ac: "append_cap (fcap v) (fsize v + 2) = nc"
  proof (cases "fcap v = 0")
    case True
    then show ?thesis using sz by (simp add: nc_def append_cap_def while_unfold)
  next
    case False
    then show ?thesis using sz full cap append_cap_double [of "fsize v + 2" "fcap v"] by (auto simp: nc_def)
  qed
  have small: "nc \<le> 33554432"
    using file_node(3) [OF ok v(1)] by (auto simp: nc_def)
  then have u: "unat (of_nat nc :: u64) = nc" by (simp add: unat_of_nat)
  have up: "up16 nc = nc" using cap by (auto simp: nc_def up16_def elim!: dvdE)
  note k = kmalloc_room [OF fs_okD(1) [OF ok], of "of_nat nc"]
  have k1: "kmalloc (of_nat nc) s = (Some (HEAP_START + used s), s\<lparr>used := used s + align_up (of_nat nc) 16\<rparr>)"
    and k2: "unat (used s + align_up (of_nat nc) 16) = unat (used s) + nc"
    using k small room up u by (simp_all add: nc_def)
  have "r = True" "s' = set_node f (v\<lparr>data := Some (content v @ [c] @ [NUL]), fsize := fsize v + 1, fcap := nc\<rparr>)
      (s\<lparr>used := used s + align_up (of_nat nc) 16\<rparr>)"
    using ap v full by (simp_all add: vfs_append_file_def Let_def ac [simplified] k1)
  then show "r" "fsize (node s' f) = fsize v + 1" "fcap (node s' f) = nc" "frontier s' = frontier s + nc"
    "heap_end s' = heap_end s"
    using k2 by (simp_all add: frontier_def heap_end_def)
qed

interpretation to_file: char_sink out_raw "\<lambda>s. content (node s f)" "\<lambda>c. [c]" "to_file_room f s0"
proof
  fix n s c
  assume a: "to_file_room f s0 (Suc n) s"
  then obtain v X where s: "out_file s = Some f" "fs_ok s" "nodes s f = Some v" "vtype v = FS_TYPE_FILE"
      "16 dvd fcap v" "64 \<le> X" "fsize v + Suc n + 1 \<le> X" "frontier s + 4 * X \<le> heap_end s + 2 * fcap v"
    by (auto simp: to_file_room_def)
  obtain r s' where ap: "vfs_append_file (Some f) [c] s = (r, s')" by (cases "vfs_append_file (Some f) [c] s")
  have len: "length [c] < 2 ^ 61" by simp
  have sz: "r \<and> fsize (node s' f) = fsize v + 1 \<and> 16 dvd fcap (node s' f) \<and>
      frontier s' + 4 * X \<le> heap_end s' + 2 * fcap (node s' f)"
  proof (cases "fsize v + 2 \<le> fcap v")
    case True
    then show ?thesis using append_in_place [OF s(2-4) True ap] s(5,8) by (simp add: frontier_def heap_end_def)
  next
    case False
    have le: "fcap v \<le> X" using False s(7) by simp
    have "frontier s + (if fcap v = 0 then 64 else 2 * fcap v) \<le> heap_end s" using s(6,8) le by auto
    then show ?thesis
      using append_grown [OF s(2-4) _ s(5) _ ap] False s(5,8) by (auto simp: split: if_splits)
  qed
  have st: "file_step s f (content v @ [c]) s'" using vfs_append_file_cases [OF s(2-4) len ap] sz by auto
  have ne: "nodes s f \<noteq> None" using s(3) by simp
  have "to_file_room f s0 n s'"
    unfolding to_file_room_def
  proof (intro conjI)
    show "out_file s' = Some f" using shell_more_sel(1) [OF file_step_frame(10) [OF st]] s(1) by simp
    show "fs_ok s'" by (rule fs_ok_file_step [OF s(2) ne st])
    show "nodes s' f \<noteq> None" using file_step_frame(11) [OF st ne, of f] ne by simp
    show "is_file s' f" using file_step_frame(5) [OF st, of f] s(3,4) by simp
    show "only_file f s0 s'" using a by (intro only_file_step [OF _ st]) (simp add: to_file_room_def)
    show "\<exists>X. 64 \<le> X \<and> fsize (node s' f) + n + 1 \<le> X \<and> frontier s' + 4 * X \<le> heap_end s' + 2 * fcap (node s' f)"
      using sz s(6,7) by (intro exI [of _ X]) auto
  qed (use sz in auto)
  then show "\<exists>s'. out_raw c s = Some s' \<and> content (node s' f) = content (node s f) @ [c] \<and> to_file_room f s0 n s'"
    using ap s(1,3) file_step_frame(1) [OF st] by (simp add: out_raw_def)
qed

section \<open>Standard input\<close>

text \<open>The other side: what a command reads from a file or a pipe, up to its end.\<close>

locale char_source =
  fixes rest :: "shell \<Rightarrow> string" and ok :: "shell \<Rightarrow> bool"
  assumes at_end: "ok s \<Longrightarrow> rest s = [] \<Longrightarrow> sh_getc s = Some (- 1, s)"
    and next_char: "ok s \<Longrightarrow> rest s = c # cs \<Longrightarrow>
      \<exists>s'. sh_getc s = Some (uc c, s') \<and> rest s' = cs \<and> ok s' \<and> used s' = used s \<and> total s' = total s"
    and alloc: "ok s \<Longrightarrow> ok (s\<lparr>used := u\<rparr>) \<and> rest (s\<lparr>used := u\<rparr>) = rest s"
begin

text \<open>Room for a buffer of at most \<open>X\<close> bytes that has been doubled up to its present size.\<close>

definition buf_room :: "nat \<Rightarrow> buffer \<Rightarrow> shell \<Rightarrow> bool" where
  "buf_room n b s \<longleftrightarrow> heap_ok s \<and> 16 dvd bcap b \<and> length (bdata b) \<le> bcap b \<and> (bcap b = 0 \<longrightarrow> bdata b = []) \<and>
     (\<exists>X. 256 \<le> X \<and> length (bdata b) + n + 1 \<le> X \<and> frontier s + 4 * X \<le> heap_end s + 2 * bcap b)"

lemma buf_putc_room:
  assumes "buf_room (Suc n) b s"
  obtains u b' where "buf_putc c b s = (b', s\<lparr>used := u\<rparr>)" "bdata b' = bdata b @ [c]" "bcap b' \<noteq> 0"
    "buf_room n b' (s\<lparr>used := u\<rparr>)"
proof (cases "length (bdata b) + 1 \<ge> bcap b")
  case False
  have "buf_putc c b s = (b\<lparr>bdata := bdata b @ [c]\<rparr>, s\<lparr>used := used s\<rparr>)"
    using False by (simp add: buf_putc_def)
  moreover have "buf_room n (b\<lparr>bdata := bdata b @ [c]\<rparr>) (s\<lparr>used := used s\<rparr>)"
    using assms False by (auto simp: buf_room_def)
  ultimately show ?thesis using that False by fastforce
next
  case True
  define nc where "nc = (if bcap b \<noteq> 0 then bcap b * 2 else 256)"
  obtain X where X: "256 \<le> X" "length (bdata b) + Suc n + 1 \<le> X" "frontier s + 4 * X \<le> heap_end s + 2 * bcap b"
    and ok: "heap_ok s" "16 dvd bcap b"
    using assms by (auto simp: buf_room_def)
  have cap: "bcap b \<le> X" using True X(2) by simp
  have fits: "frontier s + nc \<le> heap_end s" using X cap by (auto simp: nc_def)
  have "heap_end s \<le> 33554432" using ok(1) by (simp add: heap_end_def heap_ok_def)
  then have small: "nc \<le> 33554432" using fits by simp
  have u: "unat (of_nat nc :: u64) = nc" using small by (simp add: unat_of_nat)
  have up: "up16 nc = nc" using ok(2) by (auto simp: nc_def up16_def elim!: dvdE)
  define u' where "u' = used s + align_up (of_nat nc) 16"
  have k: "kmalloc (of_nat nc) s = (Some (HEAP_START + used s), s\<lparr>used := u'\<rparr>)"
    and k2: "unat u' = unat (used s) + nc"
    using kmalloc_room [OF ok(1), of "of_nat nc"] small fits up u by (simp_all add: u'_def)
  have "buf_putc c b s = (\<lparr>bdata = bdata b @ [c], bcap = nc\<rparr>, s\<lparr>used := u'\<rparr>)"
    using True k by (auto simp: buf_putc_def nc_def)
  moreover have "heap_ok (s\<lparr>used := u'\<rparr>)"
    using heap_ok_kmalloc [OF ok(1), of "of_nat nc"] k small u by simp
  then have "buf_room n \<lparr>bdata = bdata b @ [c], bcap = nc\<rparr> (s\<lparr>used := u'\<rparr>)"
    using assms X ok cap k2
    by (auto simp: buf_room_def frontier_def heap_end_def nc_def intro!: exI [of _ X])
  ultimately show ?thesis using that by (auto simp: nc_def)
qed

lemma read_loop:
  assumes "ok s" and "buf_room (length (rest s)) b s"
  shows "\<exists>b' s'. read_stdin_loop b s = Some (b', s') \<and> bdata b' = bdata b @ rest s \<and>
    (bcap b' = 0 \<longleftrightarrow> bcap b = 0 \<and> rest s = [])"
  using assms
proof (induction "rest s" arbitrary: b s)
  case Nil
  then show ?case using at_end [of s] by (subst read_stdin_loop.simps) simp
next
  case (Cons c cs)
  obtain s1 where s1: "sh_getc s = Some (uc c, s1)" "rest s1 = cs" "ok s1" "used s1 = used s" "total s1 = total s"
    using next_char [of s c cs] Cons by metis
  have "buf_room (Suc (length cs)) b s1"
    using Cons(2,4) s1 by (simp add: buf_room_def heap_ok_def frontier_def heap_end_def flip: Cons(2))
  then obtain u b1 where b1: "buf_putc c b s1 = (b1, s1\<lparr>used := u\<rparr>)" "bdata b1 = bdata b @ [c]" "bcap b1 \<noteq> 0"
      "buf_room (length cs) b1 (s1\<lparr>used := u\<rparr>)"
    by (rule buf_putc_room)
  have "ok (s1\<lparr>used := u\<rparr>)" "rest (s1\<lparr>used := u\<rparr>) = cs" using alloc [OF s1(3)] s1(2) by simp_all
  then obtain b' s' where "read_stdin_loop b1 (s1\<lparr>used := u\<rparr>) = Some (b', s')" "bdata b' = bdata b1 @ cs"
      "bcap b' \<noteq> 0"
    using Cons(1) [of "s1\<lparr>used := u\<rparr>" b1] b1 by auto
  moreover have "read_stdin_loop b s = read_stdin_loop b1 (s1\<lparr>used := u\<rparr>)"
    unfolding read_stdin_loop.simps [of b s] s1(1) using b1(1) by (simp add: not_less [THEN iffD2, OF uc_nonneg])
  moreover have "rest s = c # cs" using Cons(2) by simp
  ultimately show ?case using b1(2) by auto
qed

lemma read_all:
  assumes "ok s" and "heap_ok s" and "frontier s + 4 * max 256 (length (rest s) + 1) \<le> heap_end s"
  shows "\<exists>s'. read_all_stdin s = Some (if rest s = [] then None else Some (rest s), s')"
proof -
  have "buf_room (length (rest s)) buf_init s"
    using assms(2,3) by (auto simp: buf_room_def buf_init_def intro!: exI [of _ "max 256 (length (rest s) + 1)"])
  then obtain b' s' where "read_stdin_loop buf_init s = Some (b', s')" "bdata b' = rest s" "bcap b' = 0 \<longleftrightarrow> rest s = []"
    using read_loop [OF assms(1), of buf_init] by (auto simp: buf_init_def)
  then show ?thesis by (auto simp: read_all_stdin_def)
qed

end

definition reads_pipe :: "bool \<Rightarrow> shell \<Rightarrow> bool" where
  "reads_pipe r s \<longleftrightarrow> in_file s = None \<and> pipe_reader s = Some r"

lemma get_pipe_used [simp]: "get_pipe w (s\<lparr>used := u\<rparr>) = get_pipe w s" "get_pipe w (s\<lparr>pipe_in_off := i\<rparr>) = get_pipe w s"
  by (simp_all add: get_pipe_def)

interpretation pipe_in: char_source "\<lambda>s. drop (pipe_in_off s) (pbytes (get_pipe r s))" "reads_pipe r"
proof
  fix s c cs
  assume a: "reads_pipe r s" "drop (pipe_in_off s) (pbytes (get_pipe r s)) = c # cs"
  then have "pipe_in_off s < length (pbytes (get_pipe r s)) \<and> pbytes (get_pipe r s) ! pipe_in_off s = c \<and>
      drop (Suc (pipe_in_off s)) (pbytes (get_pipe r s)) = cs"
    by (metis Cons_nth_drop_Suc drop_all linorder_not_less list.distinct(1) list.inject)
  then show "\<exists>s'. sh_getc s = Some (uc c, s') \<and> drop (pipe_in_off s') (pbytes (get_pipe r s')) = cs \<and> reads_pipe r s' \<and>
      used s' = used s \<and> total s' = total s"
    using a(1) by (auto simp: reads_pipe_def sh_getc_def)
qed (auto simp: reads_pipe_def sh_getc_def)

definition reads_file :: "u64 \<Rightarrow> shell \<Rightarrow> bool" where
  "reads_file f s \<longleftrightarrow> in_file s = Some f \<and> data_ok (node s f)"

lemma content_length: "data_ok v \<Longrightarrow> length (content v) = fsize v"
  by (auto simp: data_ok_def content_def split: option.splits)

lemma node_used [simp]: "node (s\<lparr>used := u\<rparr>) = node s" "node (s\<lparr>in_off := i\<rparr>) = node s"
  by (auto simp: node_def)

interpretation file_in: char_source "\<lambda>s. drop (in_off s) (content (node s f))" "reads_file f"
proof
  fix s c cs
  assume a: "reads_file f s" "drop (in_off s) (content (node s f)) = c # cs"
  then have "in_off s < length (content (node s f)) \<and> content (node s f) ! in_off s = c \<and>
      drop (Suc (in_off s)) (content (node s f)) = cs"
    by (metis Cons_nth_drop_Suc drop_all linorder_not_less list.distinct(1) list.inject)
  then show "\<exists>s'. sh_getc s = Some (uc c, s') \<and> drop (in_off s') (content (node s' f)) = cs \<and> reads_file f s' \<and>
      used s' = used s \<and> total s' = total s"
    using a(1) by (auto simp: reads_file_def sh_getc_def content_length)
qed (auto simp: reads_file_def sh_getc_def content_length)

end
