(* ===== verification/Line_Props.thy ===== *)
theory Line_Props
  imports Shell_Line Shell_Out
begin

text \<open>
  Lines executed from the first character to the last: the tokenizer, the redirections and the pipes of theory
  \<open>Shell_Exec\<close>, a command of theory \<open>Cmd_Text\<close>, and the file system together.
\<close>

section \<open>Segments\<close>

text \<open>The state in which the redirections of a segment are applied.\<close>

definition prepared :: "bool \<Rightarrow> shell \<Rightarrow> shell" where
  "prepared d s =
     (let s = s\<lparr>pipe_writing := d\<rparr>
      in if d then (case pipe_writer s of
             None \<Rightarrow> s
           | Some w \<Rightarrow> put_pipe w ((get_pipe w s)\<lparr>pbytes := []\<rparr>) s)
         else s)"

lemma segment_runs:
  assumes d: "drop p b = x @ NUL # tail" and x: "NUL \<notin> set x"
    and ts: "tokens_spec (exit_digits (last_exit s)) x empty_spec = Some sl"
    and ws: "words sl \<noteq> []" "length (words sl) < 32"
    and le: "0 \<le> last_exit s" "last_exit s < 100"
    and heap: "heap_ok s" "frontier s + 32 * length x \<le> heap_end s"
  obtains b' cl s1 where "heap_grew (32 * length x) s s1" "redirs_ok cl sl" "length b' = length b"
    "take p b' = take p b" "drop (p + length x) b' = NUL # tail"
    "run_segment b p k s = do {
       (ok, s2) \<leftarrow> apply_redirs cl (prepared k s1);
       if \<not> ok then Some (Some 1, b', (restore_redirs s2)\<lparr>pipe_writing := False\<rparr>)
       else do {
         (rc, s3) \<leftarrow> shell_run_builtin (words sl) s2;
         Some (rc, b', if rc = None then s3 else (restore_redirs s3)\<lparr>pipe_writing := False\<rparr>) } }"
proof -
  have "tokens_done b p x tail empty_cmdline s (tokens_spec (exit_digits (last_exit s)) x empty_spec)"
    by (rule tokenize_loop_spec [OF d x refl])
      (use exit_digits_two [OF le] heap in \<open>simp_all add: empty_cmdline_def empty_spec_def redirs_ok_def\<close>)
  then obtain b' cl s1 where t: "tokenize_loop b p empty_cmdline s = Some (b', cl, s1)"
      "map (item_string b') (items cl) = words sl" "redirs_ok cl sl" "length b' = length b" "take p b' = take p b"
      "drop (p + length x) b' = NUL # tail" "heap_grew (32 * length x) s s1"
    by (auto simp: tokens_done_def ts)
  have its: "items cl \<noteq> []" "length (items cl) < 32" using t(2) ws by (auto simp flip: t(2))
  have "run_segment b p k s = do {
       (ok, s2) \<leftarrow> apply_redirs cl (prepared k s1);
       if \<not> ok then Some (Some 1, b', (restore_redirs s2)\<lparr>pipe_writing := False\<rparr>)
       else do {
         (rc, s3) \<leftarrow> shell_run_builtin (words sl) s2;
         Some (rc, b', if rc = None then s3 else (restore_redirs s3)\<lparr>pipe_writing := False\<rparr>) } }"
    using its t(1,2) unfolding run_segment_def tokenize_def
    by (auto simp: prepared_def Let_def split: bind_splits prod.splits)
  then show ?thesis using that t by blast
qed

section \<open>Pipelines of one and of two commands\<close>

lemma pipeline_scan:
  "drop p b = x @ r \<Longrightarrow> NUL \<notin> set x \<Longrightarrow> CHR ''|'' \<notin> set x \<Longrightarrow>
   pipeline_loop b seg p which s = pipeline_loop b seg (p + length x) which s"
proof (induction x arbitrary: p)
  case (Cons c x)
  have d: "p < length b" "b ! p = c" "drop (Suc p) b = x @ r"
    using drop_eq_ConsD [of p b c "x @ r"] Cons.prems(1) by simp_all
  have "pipeline_loop b seg p which s = pipeline_loop b seg (Suc p) which s"
    using d Cons.prems by (subst pipeline_loop.simps) (auto simp: rd_def)
  then show ?case using Cons.IH [OF d(3)] Cons.prems by simp
qed simp

lemma pipeline_last:
  assumes d: "drop p b = x @ NUL # tail" and x: "NUL \<notin> set x" "CHR ''|'' \<notin> set x"
  shows "pipeline_loop b p p which s = do {
      (rc, b, s) \<leftarrow> run_segment b p False (s\<lparr>pipe_writer := None\<rparr>);
      Some (rc, b, if rc = None then s else pipes_end s) }"
  unfolding pipeline_scan [OF d x] using drop_less [OF d] by (subst pipeline_loop.simps) (simp add: rd_def)

lemma wr_same: "i < length b \<Longrightarrow> b ! i = c \<Longrightarrow> wr b i c = Some b"
  by (metis list_update_id wr_def)

lemma exec_one:
  assumes d: "drop p b = x @ NUL # tail" and x: "NUL \<notin> set x" "CHR ''|'' \<notin> set x"
  shows "exec_pipeline b p (length x) s = do {
      (rc, b, s) \<leftarrow> run_segment b p False ((pipes_start s)\<lparr>pipe_writer := None\<rparr>);
      Some (rc, b, if rc = None then s else pipes_end s) }"
proof -
  have "wr b (p + length x) NUL = Some b" using drop_less [OF d] by (simp add: wr_same)
  then show ?thesis using pipeline_last [OF d x, of False "pipes_start s"] by (simp add: exec_pipeline_def)
qed

lemma drop_update_split:
  "drop p b = x @ c # r \<Longrightarrow> drop p (b[p + length x := d]) = x @ d # r"
  using drop_less [of p b x c r] by (simp add: drop_update_swap list_update_append)

lemma exec_two:
  assumes d: "drop p b = x @ CHR ''|'' # bl @ y @ NUL # tail"
    and x: "NUL \<notin> set x" "CHR ''|'' \<notin> set x" and y: "NUL \<notin> set y" "CHR ''|'' \<notin> set y"
    and bl: "list_all blank bl" and ny: "y \<noteq> []" "\<not> blank (hd y)"
    and run: "run_segment (b[p + length x := NUL]) p True ((pipes_start s)\<lparr>pipe_writer := Some False\<rparr>) =
      Some (Some rc, b1, s1)"
    and b1: "drop (p + length x) b1 = NUL # bl @ y @ NUL # tail"
  defines "q \<equiv> p + length x + 1 + length bl"
  shows "exec_pipeline b p (length (x @ CHR ''|'' # bl @ y)) s = do {
      (rc, b, s) \<leftarrow> run_segment b1 q False ((next_pipe False s1)\<lparr>pipe_writer := None\<rparr>);
      Some (rc, b, if rc = None then s else pipes_end s) }"
    and "drop q b1 = y @ NUL # tail"
proof -
  have e: "p + length (x @ CHR ''|'' # bl @ y) < length b" "b ! (p + length (x @ CHR ''|'' # bl @ y)) = NUL"
    using drop_less [of p b "x @ CHR ''|'' # bl @ y" NUL tail] d by simp_all
  then have w: "wr b (p + length (x @ CHR ''|'' # bl @ y)) NUL = Some b"
    by (simp add: wr_same)
  have m: "p + length x < length b" "b ! (p + length x) = CHR ''|''" using drop_less [OF d] by simp_all
  obtain c y' where c: "y = c # y'" "\<not> blank c" using ny by (cases y) auto
  have d1: "drop (p + length x + 1) b1 = bl @ y @ NUL # tail" using drop_eq_ConsD [OF b1] by simp
  have "drop q b1 = drop (length bl) (drop (p + length x + 1) b1)" by (simp add: q_def add_ac)
  then show dq: "drop q b1 = y @ NUL # tail" unfolding d1 by simp
  have "skip_blanks b1 (p + length x + 1) = Some q"
    using skip_blanks_text [OF bl c(2), of "p + length x + 1" b1 "y' @ NUL # tail"] d1 c(1) by (simp add: q_def)
  moreover have "pipeline_loop b p p False (pipes_start s) = pipeline_loop b p (p + length x) False (pipes_start s)"
    by (rule pipeline_scan [OF d x])
  ultimately have "pipeline_loop b p p False (pipes_start s) = pipeline_loop b1 q q True (next_pipe False s1)"
    using m run by (subst (asm) (2) pipeline_loop.simps) (simp add: rd_def)
  then show "exec_pipeline b p (length (x @ CHR ''|'' # bl @ y)) s = do {
      (rc, b, s) \<leftarrow> run_segment b1 q False ((next_pipe False s1)\<lparr>pipe_writer := None\<rparr>);
      Some (rc, b, if rc = None then s else pipes_end s) }"
    using w pipeline_last [OF dq y, of True "next_pipe False s1"] by (simp add: exec_pipeline_def)
qed

section \<open>The pipes\<close>

lemma pipe_data_room:
  assumes "heap_ok s" and "frontier s + PIPE_MAX \<le> heap_end s"
  shows "\<exists>u. pipe_data w s = put_pipe w ((get_pipe w s)\<lparr>allocated := True\<rparr>) (s\<lparr>used := u\<rparr>) \<and>
    heap_grew PIPE_MAX s (s\<lparr>used := u\<rparr>)"
proof (cases "allocated (get_pipe w s)")
  case True
  then have "(get_pipe w s)\<lparr>allocated := True\<rparr> = get_pipe w s" by (cases "get_pipe w s") simp
  then have "put_pipe w ((get_pipe w s)\<lparr>allocated := True\<rparr>) (s\<lparr>used := used s\<rparr>) = s"
    by (simp add: put_pipe_def get_pipe_def)
  then have "pipe_data w s = put_pipe w ((get_pipe w s)\<lparr>allocated := True\<rparr>) (s\<lparr>used := used s\<rparr>)"
    using True by (simp add: pipe_data_def)
  moreover have "heap_grew PIPE_MAX s (s\<lparr>used := used s\<rparr>)" using heap_grew_refl [OF assms(1)] by simp
  ultimately show ?thesis by blast
next
  case False
  have n: "unat (of_nat PIPE_MAX :: u64) = 65536" by (simp add: PIPE_MAX_def)
  have k: "kmalloc (of_nat PIPE_MAX) s = (Some (HEAP_START + used s), s\<lparr>used := used s + align_up (of_nat PIPE_MAX) 16\<rparr>)"
      "unat (used s + align_up (of_nat PIPE_MAX) 16) = unat (used s) + 65536"
    using kmalloc_room [OF assms(1), of "of_nat PIPE_MAX"] assms(2) n by (simp_all add: PIPE_MAX_def up16_def)
  have "heap_ok (s\<lparr>used := used s + align_up (of_nat PIPE_MAX) 16\<rparr>)"
    using heap_ok_kmalloc [OF assms(1), of "of_nat PIPE_MAX"] k n by simp
  then show ?thesis
    using False k by (auto simp: pipe_data_def heap_grew_def frontier_def PIPE_MAX_def get_pipe_def)
qed

text \<open>The state in which the first command of a line starts.\<close>

lemma pipes_start_room:
  assumes "heap_ok s" and "frontier s + 131072 \<le> heap_end s"
  shows "\<exists>u. pipes_start s = s\<lparr>used := u, pipe0 := \<lparr>allocated = True, pbytes = []\<rparr>,
      pipe1 := \<lparr>allocated = True, pbytes = []\<rparr>, pipe_in_off := 0, pipe_writing := False, pipe_reader := None,
      pipe_writer := None\<rparr> \<and> heap_grew 131072 s (s\<lparr>used := u\<rparr>)"
proof -
  obtain u where u: "pipe_data False s = put_pipe False ((get_pipe False s)\<lparr>allocated := True\<rparr>) (s\<lparr>used := u\<rparr>)"
      "heap_grew PIPE_MAX s (s\<lparr>used := u\<rparr>)"
    using pipe_data_room [OF assms(1), of False] assms(2) by (auto simp: PIPE_MAX_def)
  let ?s = "pipe_data False s"
  have s1: "heap_ok ?s" "frontier ?s = frontier (s\<lparr>used := u\<rparr>)" "heap_end ?s = heap_end s"
    using u by (auto simp: heap_grew_def heap_ok_def frontier_def heap_end_def)
  obtain v where v: "pipe_data True ?s = put_pipe True ((get_pipe True ?s)\<lparr>allocated := True\<rparr>) (?s\<lparr>used := v\<rparr>)"
      "heap_grew PIPE_MAX ?s (?s\<lparr>used := v\<rparr>)"
    using pipe_data_room [OF s1(1), of True] s1 u(2) assms(2) by (auto simp: PIPE_MAX_def heap_grew_def)
  have "heap_grew 131072 s (s\<lparr>used := v\<rparr>)"
    using u v(2) unfolding u(1) by (auto simp: heap_grew_def heap_ok_def frontier_def put_pipe_def PIPE_MAX_def)
  moreover have "pipes_start s = s\<lparr>used := v, pipe0 := \<lparr>allocated = True, pbytes = []\<rparr>,
      pipe1 := \<lparr>allocated = True, pbytes = []\<rparr>, pipe_in_off := 0, pipe_writing := False, pipe_reader := None,
      pipe_writer := None\<rparr>"
    unfolding pipes_start_def v(1) unfolding u(1) by (simp add: put_pipe_def get_pipe_def Let_def)
  ultimately show ?thesis by blast
qed

section \<open>\<open>echo\<close>\<close>

fun joined :: "string list \<Rightarrow> string" where
  "joined [] = []"
| "joined [w] = w"
| "joined (w # ws) = w @ CHR '' '' # joined ws"

lemma for_each_concat:
  "for_each (\<lambda>x. for_each f (g x)) xs = for_each f (concat (map g xs))"
proof (induction xs)
  case (Cons x xs)
  show ?case by (rule ext) (simp add: for_each_append Cons)
qed (simp add: fun_eq_iff)

lemma joined_enumerate:
  "concat (map (\<lambda>(i, w). (if i > 0 then '' '' else []) @ w) (List.enumerate 0 ws)) = joined ws"
proof -
  have later: "0 < k \<Longrightarrow> concat (map (\<lambda>(i, w). (if i > 0 then '' '' else []) @ w) (List.enumerate k ws)) =
      (if ws = [] then [] else CHR '' '' # joined ws)" for k ws
  proof (induction ws arbitrary: k)
    case (Cons w ws)
    then show ?case by (cases ws) simp_all
  qed simp
  show ?thesis
  proof (cases ws)
    case (Cons w ws')
    then show ?thesis using later [of 1 ws'] by (cases ws') simp_all
  qed simp
qed

lemma cmd_echo_text:
  assumes "arg (w # ws) 1 \<noteq> Some ''-n''"
  shows "cmd_echo (w # ws) s = do { s \<leftarrow> for_each out_raw (joined ws @ [LF]) s; Some (0, s) }"
proof -
  have *: "(\<lambda>(i, w) s. do { s \<leftarrow> (if 0 < i then sh_putc CHR '' '' s else Some s); sh_puts w s }) =
      (\<lambda>x. for_each out_raw (case x of (i :: nat, w) \<Rightarrow> (if i > 0 then '' '' else []) @ w))"
    by (rule ext) (auto simp: sh_puts_for_each sh_putc_def for_each_append intro!: ext)
  show ?thesis
    using assms unfolding cmd_echo_def Let_def * for_each_concat joined_enumerate
    by (cases "for_each out_raw (joined ws) s") (simp_all add: for_each_append sh_putc_def)
qed

lemma lookup_here: "find (\<lambda>e. fst e = nm) ((nm, v) # xs) = Some (nm, v)"
  by simp

lemma lookup_step: "k \<noteq> nm \<Longrightarrow> find (\<lambda>e. fst e = nm) xs = r \<Longrightarrow> find (\<lambda>e. fst e = nm) ((k, v) # xs) = r"
  by simp

lemma lookup_echo: "cmd_lookup ''echo'' = Some (returns cmd_echo)"
proof -
  have "find (\<lambda>e. fst e = ''echo'') commands = Some (''echo'', returns cmd_echo, ''print text'')"
    unfolding commands_def by (rule lookup_here | (rule lookup_step, simp))+
  then show ?thesis by (simp only: cmd_lookup_def option.case fst_conv snd_conv)
qed

lemma lookup_cat: "cmd_lookup ''cat'' = Some (returns cmd_cat)"
proof -
  have "\<exists>h. find (\<lambda>e. fst e = ''cat'') commands = Some (''cat'', returns cmd_cat, h)"
    unfolding commands_def by (rule exI) (rule lookup_here | (rule lookup_step, simp))+
  then show ?thesis by (auto simp only: cmd_lookup_def option.case fst_conv snd_conv)
qed

lemma run_echo:
  assumes "arg (''echo'' # ws) 1 \<noteq> Some ''-n''"
  shows "shell_run_builtin (''echo'' # ws) s = do { s \<leftarrow> for_each out_raw (joined ws @ [LF]) s; Some (Some 0, s) }"
  by (cases "for_each out_raw (joined ws @ [LF]) s")
     (simp_all only: shell_run_builtin_def nth_Cons_0 lookup_echo option.case returns_def cmd_echo_text [OF assms]
        Option.bind.simps case_prod_conv)

text \<open>A state that differs from another in the fields of the shell and by memory that was taken.\<close>

definition same_files :: "shell \<Rightarrow> shell \<Rightarrow> bool" where
  "same_files s s' \<longleftrightarrow> nodes s' = nodes s \<and> vfs_root s' = vfs_root s \<and> vfs_cwd s' = vfs_cwd s \<and> vfs_pwd s' = vfs_pwd s \<and>
     total s' = total s \<and> ram s' = ram s"

lemma same_files_node: "same_files s s' \<Longrightarrow> node s' m = node s m"
  by (simp add: same_files_def node_def)

lemma same_files_tree: "same_files s s' \<Longrightarrow> same_tree s s'"
  by (simp only: same_tree_def same_files_node [of s s'] simp_thms) (simp add: same_files_def)

lemma same_files_resolve: "same_files s s' \<Longrightarrow> vfs_resolve s' p = vfs_resolve s p"
  by (rule vfs_resolve_same_tree [OF same_files_tree])

lemma same_files_ok:
  assumes "same_files s s'" and "fs_ok s" and "frontier s \<le> frontier s'" and "heap_ok s'"
  shows "fs_ok s'"
proof -
  have eqs: "nodes s' = nodes s" "vfs_root s' = vfs_root s" "vfs_cwd s' = vfs_cwd s" "node s' = node s"
    using assms(1) same_files_node [OF assms(1)] by (auto simp: same_files_def)
  have "unat (used s) \<le> unat (used s')" using assms(3) by (simp add: frontier_def)
  then have "node_ok s' a v" if "node_ok s a v" for a v
    using that assms(3) unfolding node_ok_def eqs by (meson order_trans)
  then show ?thesis
    using assms(2,4) unfolding fs_ok_def eqs by blast
qed

text \<open>The whole line, up to the command.\<close>

lemma line_start:
  assumes x: "command_text x"
  shows "shell_exec_line (x @ NUL # tail) s = do {
      (rc, b, s) \<leftarrow> exec_pipeline (x @ NUL # tail) 0 (length x) s;
      case rc of None \<Rightarrow> Some (None, b, s) | Some c \<Rightarrow> Some (Some c, b, sh_set_exit c s) }"
proof -
  obtain c x' where c: "x = c # x'" "\<not> blank c" "c \<noteq> NUL" "c \<noteq> CHR ''#''"
    using x by (cases x) (auto simp: command_text_def)
  have "skip_blanks (x @ NUL # tail) 0 = Some 0" using c by (subst skip_blanks.simps) simp
  then have "shell_exec_line (x @ NUL # tail) s = line_loop (x @ NUL # tail) 0 0 0 s"
    using c by (simp add: shell_exec_line_def)
  also have "\<dots> = run_one (x @ NUL # tail) 0 (length x) s" by (rule last_command [OF x]) simp
  finally show ?thesis by (simp add: run_one_def)
qed

lemma line_one:
  assumes x: "command_text x" "CHR ''|'' \<notin> set x"
  shows "shell_exec_line (x @ NUL # tail) s = do {
      (rc, b, s) \<leftarrow> run_segment (x @ NUL # tail) 0 False ((pipes_start s)\<lparr>pipe_writer := None\<rparr>);
      case rc of None \<Rightarrow> Some (None, b, s) | Some c \<Rightarrow> Some (Some c, b, sh_set_exit c (pipes_end s)) }"
proof -
  have "exec_pipeline (x @ NUL # tail) 0 (length x) s = do {
      (rc, b, s) \<leftarrow> run_segment (x @ NUL # tail) 0 False ((pipes_start s)\<lparr>pipe_writer := None\<rparr>);
      Some (rc, b, if rc = None then s else pipes_end s) }"
    by (rule exec_one) (use x one_segment_no_NUL in \<open>auto simp: command_text_def\<close>)
  then show ?thesis by (auto simp: line_start [OF x(1)] split: bind_splits option.splits)
qed

text \<open>The state in which a segment of a line begins: files and exit code are those of \<open>s\<close>, memory may be taken.\<close>

definition starts_from :: "nat \<Rightarrow> shell \<Rightarrow> shell \<Rightarrow> bool" where
  "starts_from n s s' \<longleftrightarrow> same_files s s' \<and> last_exit s' = last_exit s \<and> line_out s' = line_out s \<and>
     screen s' = screen s \<and> heap_ok s' \<and> frontier s \<le> frontier s' \<and> frontier s' \<le> frontier s + n"

lemma starts_from_grew:
  "starts_from n s s1 \<Longrightarrow> heap_grew m s1 s2 \<Longrightarrow> starts_from (n + m) s s2"
  by (auto simp: starts_from_def heap_grew_def same_files_def)

lemma starts_from_room: "starts_from n s s1 \<Longrightarrow> heap_end s1 = heap_end s"
  by (simp add: starts_from_def same_files_def heap_end_def)

lemma starts_from_pipes_start:
  assumes "heap_ok s" and "frontier s + 131072 \<le> heap_end s"
  shows "starts_from 131072 s (pipes_start s)" "pipe0 (pipes_start s) = \<lparr>allocated = True, pbytes = []\<rparr>"
    "pipe1 (pipes_start s) = \<lparr>allocated = True, pbytes = []\<rparr>" "pipe_in_off (pipes_start s) = 0"
    "pipe_reader (pipes_start s) = None"
proof -
  obtain u where u: "pipes_start s = s\<lparr>used := u, pipe0 := \<lparr>allocated = True, pbytes = []\<rparr>,
      pipe1 := \<lparr>allocated = True, pbytes = []\<rparr>, pipe_in_off := 0, pipe_writing := False, pipe_reader := None,
      pipe_writer := None\<rparr>" "heap_grew 131072 s (s\<lparr>used := u\<rparr>)"
    using pipes_start_room [OF assms] by blast
  show "starts_from 131072 s (pipes_start s)"
    using u(2) unfolding u(1) starts_from_def same_files_def
    by (simp add: heap_grew_def heap_ok_def frontier_def)
  show "pipe0 (pipes_start s) = \<lparr>allocated = True, pbytes = []\<rparr>"
    "pipe1 (pipes_start s) = \<lparr>allocated = True, pbytes = []\<rparr>" "pipe_in_off (pipes_start s) = 0"
    "pipe_reader (pipes_start s) = None"
    by (simp_all add: u(1))
qed

lemma starts_from_more:
  assumes "starts_from n s s1" and "heap.truncate s2 = heap.truncate s1" and "fs.truncate s2 = fs.truncate s1"
    and "last_exit s2 = last_exit s1" and "line_out s2 = line_out s1" and "screen s2 = screen s1"
  shows "starts_from n s s2"
  using assms by (cases s1; cases s2) (simp add: starts_from_def same_files_def fs.truncate_def heap_ok_def frontier_def)

lemma starts_from_ok: "starts_from n s s' \<Longrightarrow> fs_ok s \<Longrightarrow> fs_ok s'"
  by (auto simp: starts_from_def intro: same_files_ok)

lemma file_at_only_file:
  assumes "only_file n s s'" and "is_file s n"
  shows "file_at s' g = (if vfs_resolve s (Some g) = Some n then Some (content (node s' n)) else file_at s g)"
proof -
  have st: "same_tree s s'" and nd: "m \<noteq> n \<Longrightarrow> node s' m = node s m" for m
    using assms(1) by (auto simp: only_file_def)
  have "vtype (node s' m) = vtype (node s m)" for m using st by (simp add: same_tree_def)
  then show ?thesis
    using vfs_resolve_same_tree [OF st] nd assms(2) by (auto simp: file_at_def split: option.split)
qed

lemma file_at_same_files: "same_files s s' \<Longrightarrow> file_at s' g = file_at s g"
  by (simp only: file_at_def same_files_resolve [of s s'] same_files_node [of s s'])

text \<open>Opening the target of an output redirection.\<close>

lemma open_target:
  assumes st: "starts_from k s s1" and ok: "fs_ok s" and cl: "redirs_ok cl sl" "to_file sl = Some (app, f)"
      "from_file sl = None"
    and f: "vfs_resolve s (Some f) = Some n" "is_file s n" "16 dvd fcap (node s n)"
    and room: "frontier s + k + 4 * max 64 (fsize (node s n) + m + 1) \<le> heap_end s"
  obtains s3 t where "apply_redirs cl s1 = Some (True, t)" "to_file_room n s3 m t" "starts_from k s s3"
    "content (node t n) = (if app then content (node s n) else [])"
proof -
  define s2 where "s2 = s1\<lparr>out_file := None, in_file := None, in_off := 0\<rparr>"
  define s3 where "s3 = s2\<lparr>out_file := Some n, out_append := app\<rparr>"
  define t where "t = (if app then s3 else vfs_truncate (Some n) s3)"
  have s2: "starts_from k s s2" and s3: "starts_from k s s3"
    by (rule starts_from_more [OF st]; simp add: s2_def s3_def fs.truncate_def heap.truncate_def)+
  have sf: "same_files s s2" "same_files s s3" using s2 s3 by (simp_all add: starts_from_def)
  have c: "has_out cl" "cl_out cl = f" "cl_out_append cl = app" "\<not> has_in cl"
    using cl by (simp_all add: redirs_ok_def)
  have "redirect_out cl s2 = Some (True, t)"
    using c f(1,2) same_files_resolve [OF sf(1)] same_files_node [OF sf(1)]
    by (simp add: redirect_out_def t_def s3_def Let_def)
  then have "apply_redirs cl s1 = Some (True, t)" using c(4) by (simp add: apply_redirs_def s2_def redirect_in_def)
  moreover have ok3: "fs_ok s3" by (rule starts_from_ok [OF s3 ok])
  obtain v where v: "nodes s3 n = Some v" "vtype v = FS_TYPE_FILE" "node s n = v"
    using vfs_resolve_valid [OF ok f(1)] f(2) sf(2) by (auto simp: same_files_def)
  have "frontier s3 \<le> frontier s + k" "heap_end s3 = heap_end s"
    using s3 starts_from_room by (simp_all add: starts_from_def)
  then have r3: "frontier s3 + 4 * max 64 (fsize v + m + 1) \<le> heap_end s3" using room v(3) by simp
  have "to_file_room n s3 m t \<and> content (node t n) = (if app then content (node s n) else [])"
  proof (cases app)
    case True
    have "only_file n s3 s3" by (simp add: only_file_def same_tree_def)
    moreover have "out_file s3 = Some n" by (simp add: s3_def)
    ultimately show ?thesis
      using True ok3 v f(3) r3 by (auto simp: to_file_room_def t_def intro!: exI [of _ "max 64 (fsize v + m + 1)"])
  next
    case False
    have fs: "file_step s3 n [] t" using vfs_truncate_step [OF ok3 v(1,2)] False by (simp add: t_def)
    have tn: "node t n = v\<lparr>data := map_option (\<lambda>b. NUL # drop 1 b) (data v), fsize := 0\<rparr>" "frontier t = frontier s3"
      "heap_end t = heap_end s3" "nodes t n \<noteq> None" "out_file t = Some n"
      using False v(1,2) by (simp_all add: t_def vfs_truncate_def Let_def frontier_def heap_end_def set_node_def s3_def)
    have "only_file n s3 t"
      by (rule only_file_step [OF _ fs]) (simp add: only_file_def same_tree_def)
    moreover have "fs_ok t" by (rule fs_ok_file_step [OF ok3 _ fs]) (use v in simp)
    moreover have "frontier t + 4 * max 64 (m + 1) \<le> heap_end t + 2 * fcap v"
      using r3 tn(2,3) by (auto simp: max_def split: if_splits)
    ultimately have "to_file_room n s3 m t"
      using tn v f(3) by (auto simp: to_file_room_def intro!: exI [of _ "max 64 (m + 1)"])
    then show ?thesis using file_step_frame(1) [OF fs] False by simp
  qed
  ultimately show ?thesis using that s3 by blast
qed

text \<open>C9: \<open>echo\<close> with a redirection, from the line to the file: the words go into the file that the path names,
  separated by blanks and closed with a line feed, in place of its contents or, with \<open>>>\<close>, behind them; every other
  file and the console stay as they are, and the exit status is 0.\<close>

theorem echo_redirect:
  assumes ok: "fs_ok s" and le: "0 \<le> last_exit s" "last_exit s < 100"
    and x: "command_text x" "CHR ''|'' \<notin> set x"
    and ts: "tokens_spec (exit_digits (last_exit s)) x empty_spec =
      Some \<lparr>words = ''echo'' # ws, to_file = Some (app, f), from_file = None\<rparr>"
    and ws: "length ws < 31" "arg (''echo'' # ws) 1 \<noteq> Some ''-n''"
    and f: "vfs_resolve s (Some f) = Some n" "is_file s n" "16 dvd fcap (node s n)"
    and room: "frontier s + 131072 + 32 * length x + 4 * max 64 (fsize (node s n) + length (joined ws) + 2) \<le> heap_end s"
  shows "\<exists>b' s'. shell_exec_line (x @ NUL # tail) s = Some (Some 0, b', s') \<and> fs_ok s' \<and> last_exit s' = 0 \<and>
    line_out s' = line_out s \<and>
    (\<forall>g. file_at s' g = (if vfs_resolve s (Some g) = Some n
       then Some ((if app then content (node s n) else []) @ joined ws @ [LF]) else file_at s g))"
proof -
  let ?s0 = "(pipes_start s)\<lparr>pipe_writer := None\<rparr>"
  have hok: "heap_ok s" using ok by (rule fs_okD(1))
  have s0: "starts_from 131072 s ?s0"
    by (rule starts_from_more [OF starts_from_pipes_start(1) [OF hok]]) (use room in \<open>simp_all add: fs.truncate_def heap.truncate_def\<close>)
  have le0: "last_exit ?s0 = last_exit s" using s0 by (simp add: starts_from_def)
  have x0: "NUL \<notin> set x" using x(1) one_segment_no_NUL by (auto simp: command_text_def)
  show ?thesis
  proof (rule segment_runs [of 0 "x @ NUL # tail" x tail ?s0 _ False])
    show "tokens_spec (exit_digits (last_exit ?s0)) x empty_spec =
        Some \<lparr>words = ''echo'' # ws, to_file = Some (app, f), from_file = None\<rparr>"
      unfolding le0 by (rule ts)
    show "heap_ok ?s0" "frontier ?s0 + 32 * length x \<le> heap_end ?s0"
      using s0 room starts_from_room [OF s0] by (auto simp: starts_from_def)
  next
    fix b' cl s1
    assume g: "heap_grew (32 * length x) ?s0 s1"
      and cl: "redirs_ok cl \<lparr>words = ''echo'' # ws, to_file = Some (app, f), from_file = None\<rparr>"
      and run: "run_segment (x @ NUL # tail) 0 False ?s0 = do {
        (ok, s2) \<leftarrow> apply_redirs cl (prepared False s1);
        if \<not> ok then Some (Some 1, b', (restore_redirs s2)\<lparr>pipe_writing := False\<rparr>)
        else do {
          (rc, s3) \<leftarrow> shell_run_builtin (words \<lparr>words = ''echo'' # ws, to_file = Some (app, f), from_file = None\<rparr>) s2;
          Some (rc, b', if rc = None then s3 else (restore_redirs s3)\<lparr>pipe_writing := False\<rparr>) } }"
    have s1: "starts_from (131072 + 32 * length x) s (prepared False s1)"
      by (rule starts_from_more [OF starts_from_grew [OF s0 g]])
        (simp_all add: prepared_def fs.truncate_def heap.truncate_def)
    show ?thesis
    proof (rule open_target [OF s1 ok cl _ _ f, of app "length (joined ws @ [LF])"])
      show "frontier s + (131072 + 32 * length x) + 4 * max 64 (fsize (node s n) + length (joined ws @ [LF]) + 1)
          \<le> heap_end s" using room by simp
    next
      fix s3 t
      assume t: "apply_redirs cl (prepared False s1) = Some (True, t)" "to_file_room n s3 (length (joined ws @ [LF])) t"
        "content (node t n) = (if app then content (node s n) else [])"
        and s3: "starts_from (131072 + 32 * length x) s s3"
      obtain t' where t': "for_each out_raw (joined ws @ [LF]) t = Some t'" "to_file_room n s3 0 t'"
          "content (node t' n) = (if app then content (node s n) else []) @ joined ws @ [LF]"
        using to_file.put_all [of n s3 "joined ws @ [LF]" 0 t] t(2,3) by auto
      define fin where "fin = sh_set_exit 0 (pipes_end ((restore_redirs t')\<lparr>pipe_writing := False\<rparr>))"
      have "shell_exec_line (x @ NUL # tail) s = Some (Some 0, b', fin)"
        unfolding line_one [OF x] run using t(1) t'(1) run_echo [OF ws(2)] by (simp add: fin_def)
      moreover have sf: "same_files t' fin" "heap_ok fin = heap_ok t'" "frontier fin = frontier t'"
        by (simp_all add: fin_def same_files_def sh_set_exit_def pipes_end_def restore_redirs_def heap_ok_def frontier_def)
      have o: "only_file n s3 t'" "fs_ok t'" using t'(2) by (simp_all add: to_file_room_def)
      have "fs_ok fin" using same_files_ok [OF sf(1) o(2)] sf fs_okD(1) [OF o(2)] by simp
      moreover have "last_exit fin = 0" by (simp add: fin_def sh_set_exit_def)
      moreover have "line_out fin = line_out s"
        using shell_more_sel(11) [of t' s3] o(1) s3
        by (simp add: only_file_def starts_from_def fin_def sh_set_exit_def pipes_end_def restore_redirs_def)
      moreover have "same_files s s3" using s3 by (simp add: starts_from_def)
      note same = file_at_same_files [OF this] same_files_resolve [OF this] same_files_node [OF this]
      have "is_file s3 n" using f(2) same(3) by simp
      then have "file_at fin g = (if vfs_resolve s (Some g) = Some n
          then Some ((if app then content (node s n) else []) @ joined ws @ [LF]) else file_at s g)" for g
        using file_at_only_file [OF o(1), of g] file_at_same_files [OF sf(1), of g] same t'(3) by simp
      ultimately show ?thesis by blast
    qed simp_all
  qed (use x0 ws le le0 in simp_all)
qed

section \<open>A pipe between two commands\<close>

lemma pipe_fill:
  assumes "out_file s = None" and "pipe_writing s" and "pipe_writer s = Some w" and "allocated (get_pipe w s)"
    and "pbytes (get_pipe w s) = []"
  shows "\<exists>s'. for_each out_raw t s = Some s' \<and> pbytes (get_pipe w s') = take PIPE_MAX t \<and> same_but_pipe w s s'"
proof -
  let ?n = "length (take PIPE_MAX t)"
  have "to_pipe w s (?n + 0) s" using assms by (simp add: to_pipe_def same_but_pipe_def put_pipe_def get_pipe_def)
  from pipe.put_all [OF this] obtain s1 where s1: "for_each out_raw (take PIPE_MAX t) s = Some s1"
      "pbytes (get_pipe w s1) = take PIPE_MAX t" "to_pipe w s 0 s1"
    using assms(5) by auto
  have b: "same_but_pipe w s s1" using s1(3) by (simp add: to_pipe_def)
  have "for_each out_raw t s = (case for_each out_raw (take PIPE_MAX t) s of None \<Rightarrow> None
      | Some s1 \<Rightarrow> for_each out_raw (drop PIPE_MAX t) s1)"
    using for_each_append [of out_raw "take PIPE_MAX t" "drop PIPE_MAX t" s]
    by (simp split: option.splits)
  moreover have "for_each out_raw (drop PIPE_MAX t) s1 = Some s1"
  proof (cases "length t \<le> PIPE_MAX")
    case False
    then show ?thesis using s1 by (intro out_raw_full [where w = w]) (simp_all add: to_pipe_def)
  qed simp
  ultimately show ?thesis using s1 b by auto
qed

text \<open>What reading leaves alone.\<close>

definition reads_only :: "shell \<Rightarrow> shell \<Rightarrow> bool" where
  "reads_only s s' \<longleftrightarrow> out_file s' = out_file s \<and> pipe_writing s' = pipe_writing s \<and> line_out s' = line_out s \<and>
     screen s' = screen s"

lemma sh_getc_reads_only: "sh_getc s = Some (c, s') \<Longrightarrow> reads_only s s'"
  by (auto simp: sh_getc_def next_key_def reads_only_def split: option.splits if_splits list.splits bind_splits)

lemma buf_putc_reads_only: "buf_putc c b s = (b', s') \<Longrightarrow> reads_only s s'"
  by (auto simp: buf_putc_def reads_only_def kmalloc_def Let_def split: if_splits option.splits prod.splits)

lemma read_stdin_reads_only: "read_stdin_loop b s = Some r \<Longrightarrow> reads_only s (snd r)"
proof (rule read_stdin_loop.raw_induct [of "\<lambda>b s r. reads_only s (snd r)"])
  fix loop b s r
  assume ih: "\<And>b s r. loop b s = Some r \<Longrightarrow> reads_only s (snd r)"
    and st: "sh_getc s \<bind> (\<lambda>(c, s). if c < 0 then Some (b, s)
      else let (b, s) = buf_putc (to_char c) b s in loop b s) = Some r"
  obtain c s1 where g: "sh_getc s = Some (c, s1)" using st by (auto split: bind_splits)
  show "reads_only s (snd r)"
  proof (cases "c < 0")
    case True
    then show ?thesis using st g sh_getc_reads_only by auto
  next
    case False
    obtain b1 s2 where b: "buf_putc (to_char c) b s1 = (b1, s2)" by (cases "buf_putc (to_char c) b s1")
    then have "reads_only s2 (snd r)" using st g False ih by simp
    then show ?thesis
      using sh_getc_reads_only [OF g] buf_putc_reads_only [OF b] by (simp add: reads_only_def)
  qed
qed

lemma cmd_cat_stdin:
  assumes "reads_pipe r s" and "pipe_in_off s = 0" and "heap_ok s" and "to_console 0 s"
    and "pbytes (get_pipe r s) \<noteq> []" and "frontier s + 4 * max 256 (length (pbytes (get_pipe r s)) + 1) \<le> heap_end s"
  shows "\<exists>s'. cmd_cat [w] s = Some (0, s') \<and>
    line_out s' = line_out s @ concat (map serial_bytes (pbytes (get_pipe r s)))"
proof -
  obtain s1 where s1: "read_all_stdin s = Some (Some (pbytes (get_pipe r s)), s1)"
    using pipe_in.read_all [of r s] assms by auto
  then have "reads_only s s1"
    by (auto simp: read_all_stdin_def split: bind_splits dest: read_stdin_reads_only)
  then have "to_console (length (pbytes (get_pipe r s)) + 0) s1" "line_out s1 = line_out s"
    using assms(4) by (simp_all add: reads_only_def to_console_def)
  then show ?thesis
    using console.put_all [of "pbytes (get_pipe r s)" 0 s1] s1 by (auto simp: cmd_cat_def sh_puts_for_each)
qed

lemma run_cat: "shell_run_builtin [''cat''] s = do { (rc, s) \<leftarrow> cmd_cat [''cat''] s; Some (Some rc, s) }"
  by (simp only: shell_run_builtin_def nth_Cons_0 lookup_cat option.case returns_def)

lemma no_redirs:
  "redirs_ok cl sl \<Longrightarrow> to_file sl = None \<Longrightarrow> from_file sl = None \<Longrightarrow>
   apply_redirs cl s = Some (True, s\<lparr>out_file := None, in_file := None, in_off := 0\<rparr>)"
  by (simp add: apply_redirs_def redirect_out_def redirect_in_def redirs_ok_def)

lemma put_get_pipe [simp]: "put_pipe w (get_pipe w s) s = s"
  by (simp add: put_pipe_def get_pipe_def)

lemma same_but_pipe_eq: "same_but_pipe w s0 s \<Longrightarrow> s = put_pipe w (get_pipe w s) s0"
  unfolding same_but_pipe_def by (metis get_put_pipe put_pipe_twice put_get_pipe)

text \<open>C10: a pipe between two commands, from the line to the console: \<open>cat\<close> prints what \<open>echo\<close> wrote, up to the 65536
  bytes that the pipe holds; what is beyond them is lost.\<close>

theorem echo_pipe_cat:
  assumes ok: "heap_ok s" and le: "0 \<le> last_exit s" "last_exit s < 100"
    and w: "command_text (x @ CHR ''|'' # bl @ y)" and x: "CHR ''|'' \<notin> set x"
    and y: "CHR ''|'' \<notin> set y" "y \<noteq> []" "\<not> blank (hd y)" and bl: "list_all blank bl"
    and tx: "tokens_spec (exit_digits (last_exit s)) x empty_spec =
      Some \<lparr>words = ''echo'' # ws, to_file = None, from_file = None\<rparr>"
    and ty: "tokens_spec (exit_digits (last_exit s)) y empty_spec =
      Some \<lparr>words = [''cat''], to_file = None, from_file = None\<rparr>"
    and ws: "length ws < 31" "arg (''echo'' # ws) 1 \<noteq> Some ''-n''"
    and room: "frontier s + 131072 + 32 * (length x + length y) + 4 * max 256 (length (joined ws) + 2) \<le> heap_end s"
  shows "\<exists>b' s'. shell_exec_line (x @ CHR ''|'' # bl @ y @ NUL # tail) s = Some (Some 0, b', s') \<and> last_exit s' = 0 \<and>
    line_out s' = line_out s @ concat (map serial_bytes (take PIPE_MAX (joined ws @ [LF])))"
proof -
  let ?b = "x @ CHR ''|'' # bl @ y @ NUL # tail" and ?t = "take PIPE_MAX (joined ws @ [LF])"
  let ?s0 = "(pipes_start s)\<lparr>pipe_writer := Some False\<rparr>"
  have nul: "NUL \<notin> set x" "NUL \<notin> set y"
    using w one_segment_no_NUL [of "x @ CHR ''|'' # bl @ y"] by (simp_all add: command_text_def)
  have start: "starts_from 131072 s (pipes_start s)"
    by (rule starts_from_pipes_start(1) [OF ok]) (use room in simp)
  have s0: "starts_from 131072 s ?s0"
    by (rule starts_from_more [OF start]) (simp_all add: fs.truncate_def heap.truncate_def)
  have le0: "last_exit ?s0 = last_exit s" using s0 by (simp add: starts_from_def)
  show ?thesis
  proof (rule segment_runs [of 0 "x @ NUL # bl @ y @ NUL # tail" x "bl @ y @ NUL # tail" ?s0 _ True])
    show "tokens_spec (exit_digits (last_exit ?s0)) x empty_spec =
        Some \<lparr>words = ''echo'' # ws, to_file = None, from_file = None\<rparr>"
      unfolding le0 by (rule tx)
    show "heap_ok ?s0" "frontier ?s0 + 32 * length x \<le> heap_end ?s0"
      using s0 room starts_from_room [OF s0] by (auto simp: starts_from_def)
  next
    fix b1 cl s1
    assume g: "heap_grew (32 * length x) ?s0 s1"
      and cl: "redirs_ok cl \<lparr>words = ''echo'' # ws, to_file = None, from_file = None\<rparr>"
      and b1: "drop (0 + length x) b1 = NUL # bl @ y @ NUL # tail"
      and run: "run_segment (x @ NUL # bl @ y @ NUL # tail) 0 True ?s0 = do {
        (ok, s2) \<leftarrow> apply_redirs cl (prepared True s1);
        if \<not> ok then Some (Some 1, b1, (restore_redirs s2)\<lparr>pipe_writing := False\<rparr>)
        else do {
          (rc, s3) \<leftarrow> shell_run_builtin (words \<lparr>words = ''echo'' # ws, to_file = None, from_file = None\<rparr>) s2;
          Some (rc, b1, if rc = None then s3 else (restore_redirs s3)\<lparr>pipe_writing := False\<rparr>) } }"
    define t0 where "t0 = (prepared True s1)\<lparr>out_file := None, in_file := None, in_off := 0\<rparr>"
    obtain v where v: "s1 = ?s0\<lparr>used := v\<rparr>" using g by (auto simp: heap_grew_def)
    note p = starts_from_pipes_start(2-5) [OF ok]
    have t0: "out_file t0 = None" "pipe_writing t0" "pipe_writer t0 = Some False" "allocated (get_pipe False t0)"
        "pbytes (get_pipe False t0) = []"
      using p room by (simp_all add: t0_def v prepared_def put_pipe_def get_pipe_def Let_def)
    obtain t1 where t1: "for_each out_raw (joined ws @ [LF]) t0 = Some t1" "pbytes (get_pipe False t1) = ?t"
        "same_but_pipe False t0 t1"
      using pipe_fill [OF t0] by blast
    obtain P where P: "t1 = t0\<lparr>pipe0 := P\<rparr>" "pbytes P = ?t"
      using same_but_pipe_eq [OF t1(3)] t1(2) by (auto simp: put_pipe_def)
    define s2 where "s2 = (restore_redirs t1)\<lparr>pipe_writing := False\<rparr>"
    define u where "u = (next_pipe False s2)\<lparr>pipe_writer := None\<rparr>"
    have seg1: "run_segment (?b[0 + length x := NUL]) 0 True ?s0 = Some (Some 0, b1, s2)"
      using run no_redirs [OF cl] run_echo [OF ws(2)] t1(1) by (simp add: t0_def s2_def list_update_append)
    have ust: "starts_from (131072 + 32 * length x) s u"
      by (rule starts_from_more [OF starts_from_grew [OF s0 g]])
        (simp_all add: u_def s2_def P(1) t0_def prepared_def next_pipe_def restore_redirs_def put_pipe_def
          get_pipe_def Let_def v fs.truncate_def heap.truncate_def)
    have leu: "last_exit u = last_exit s" using ust by (simp add: starts_from_def)
    have up: "pipe_reader u = Some False" "pipe_in_off u = 0" "pbytes (pipe0 u) = ?t"
      by (simp_all add: u_def s2_def P next_pipe_def restore_redirs_def put_pipe_def)
    note two = exec_two [of 0 ?b x bl y tail, OF _ nul(1) x nul(2) y(1) bl y(2,3) seg1 b1]
    show ?thesis
    proof (rule segment_runs [of "0 + length x + 1 + length bl" b1 y tail u _ False])
      show "drop (0 + length x + 1 + length bl) b1 = y @ NUL # tail" by (rule two(2)) simp
      show "tokens_spec (exit_digits (last_exit u)) y empty_spec =
          Some \<lparr>words = [''cat''], to_file = None, from_file = None\<rparr>"
        unfolding leu by (rule ty)
      show "heap_ok u" "frontier u + 32 * length y \<le> heap_end u"
        using ust room starts_from_room [OF ust] by (auto simp: starts_from_def)
    next
      fix b2 cl2 u1
      assume g2: "heap_grew (32 * length y) u u1"
        and cl2: "redirs_ok cl2 \<lparr>words = [''cat''], to_file = None, from_file = None\<rparr>"
        and run2: "run_segment b1 (0 + length x + 1 + length bl) False u = do {
          (ok, s2) \<leftarrow> apply_redirs cl2 (prepared False u1);
          if \<not> ok then Some (Some 1, b2, (restore_redirs s2)\<lparr>pipe_writing := False\<rparr>)
          else do {
            (rc, s3) \<leftarrow> shell_run_builtin (words \<lparr>words = [''cat''], to_file = None, from_file = None\<rparr>) s2;
            Some (rc, b2, if rc = None then s3 else (restore_redirs s3)\<lparr>pipe_writing := False\<rparr>) } }"
      define u2 where "u2 = (prepared False u1)\<lparr>out_file := None, in_file := None, in_off := 0\<rparr>"
      obtain v2 where v2: "u1 = u\<lparr>used := v2\<rparr>" using g2 by (auto simp: heap_grew_def)
      have u2st: "starts_from (131072 + 32 * length x + 32 * length y) s u2"
        by (rule starts_from_more [OF starts_from_grew [OF ust g2]])
          (simp_all add: u2_def prepared_def fs.truncate_def heap.truncate_def)
      have u2: "reads_pipe False u2" "pipe_in_off u2 = 0" "to_console 0 u2" "pbytes (get_pipe False u2) = ?t"
        using up by (simp_all add: u2_def prepared_def v2 reads_pipe_def to_console_def get_pipe_def)
      have "frontier u2 + 4 * max 256 (length ?t + 1) \<le> heap_end u2"
      proof -
        have "length ?t + 1 \<le> length (joined ws) + 2" by simp
        then have "4 * max 256 (length ?t + 1) \<le> 4 * max 256 (length (joined ws) + 2)"
          by (intro mult_le_mono2 max.mono) simp_all
        then show ?thesis using u2st room starts_from_room [OF u2st] by (simp add: starts_from_def)
      qed
      then obtain u3 where u3: "cmd_cat [''cat''] u2 = Some (0, u3)"
          "line_out u3 = line_out u2 @ concat (map serial_bytes ?t)"
        using cmd_cat_stdin [OF u2(1,2) _ u2(3), of "''cat''"] u2st u2(4)
        by (auto simp: starts_from_def PIPE_MAX_def take_Cons')
      define fin where "fin = sh_set_exit 0 (pipes_end ((restore_redirs u3)\<lparr>pipe_writing := False\<rparr>))"
      have "shell_exec_line ?b s = Some (Some 0, b2, fin)"
        using line_start [OF w, of tail s] two(1) run2 no_redirs [OF cl2] run_cat u3(1)
        by (simp add: fin_def u2_def u_def)
      moreover have "last_exit fin = 0" by (simp add: fin_def sh_set_exit_def)
      moreover have "line_out fin = line_out s @ concat (map serial_bytes ?t)"
        using u3(2) u2st
        by (simp add: fin_def sh_set_exit_def pipes_end_def restore_redirs_def starts_from_def)
      ultimately show ?thesis by blast
    qed (use nul le leu in simp_all)
  qed (use nul ws le le0 in simp_all)
qed

section \<open>Witnesses\<close>

text \<open>The demo state with a heap that has room for the pipes.\<close>

definition demo_big :: shell where
  "demo_big = demo_shell\<lparr>total := 1000000\<rparr>"

lemma demo_big_sel [simp]:
  "used demo_big = 576" "total demo_big = 1000000" "nodes demo_big = nodes demo_fs" "last_exit demo_big = 0"
  "vfs_root demo_big = 16777216" "line_out demo_big = []"
  by (simp_all add: demo_big_def)

lemma fs_ok_demo_big [simp]: "fs_ok demo_big"
proof -
  have "node_ok demo_big a v = node_ok demo_shell a v" for a v
    by (simp add: node_ok_def demo_big_def frontier_def node_def)
  then show ?thesis
    using fs_ok_demo_shell by (simp add: fs_ok_def demo_big_def heap_ok_def)
qed

lemma demo_big_file:
  "vfs_resolve demo_big (Some ''/tmp/a'') = Some 16777600" "node demo_big 16777600 = demo_a"
proof -
  have c: "child_of demo_big (Some 16777216) ''tmp'' = Some 16777408"
    "child_of demo_big (Some 16777408) ''a'' = Some 16777600"
    by (simp_all add: child_of_def node_def) (simp_all add: demo_simps)
  have "vfs_resolve demo_big (Some (path_of [''tmp'', ''a''])) = Some 16777600"
    by (subst vfs_resolve_path_of) (simp_all add: c)
  then show "vfs_resolve demo_big (Some ''/tmp/a'') = Some 16777600" by simp
  show "node demo_big 16777600 = demo_a" by (simp add: node_def) (simp add: demo_simps)
qed

theorem echo_redirect_witness:
  "\<exists>b s. shell_exec_line (''echo  the end >> /tmp/a'' @ [NUL]) demo_big = Some (Some 0, b, s) \<and>
     file_at s ''/tmp/a'' = Some (''hithe end'' @ [LF])"
proof -
  let ?x = "''echo  the end >> /tmp/a''"
  have ts: "tokens_spec (exit_digits 0) ?x empty_spec =
      Some \<lparr>words = [''echo'', ''the'', ''end''], to_file = Some (True, ''/tmp/a''), from_file = None\<rparr>"
    by code_simp
  have x: "command_text ?x" "CHR ''|'' \<notin> set ?x" by (simp_all add: command_text_def blank_def)
  have f: "is_file demo_big 16777600" "16 dvd fcap (node demo_big 16777600)" "content (node demo_big 16777600) = ''hi''"
    "fsize (node demo_big 16777600) = 2"
    by (simp_all add: demo_big_file demo_a_def content_def)
  have "\<exists>b' s'. shell_exec_line (?x @ NUL # []) demo_big = Some (Some 0, b', s') \<and> fs_ok s' \<and> last_exit s' = 0 \<and>
    line_out s' = line_out demo_big \<and>
    (\<forall>g. file_at s' g = (if vfs_resolve demo_big (Some g) = Some 16777600
       then Some ((if True then content (node demo_big 16777600) else []) @ joined [''the'', ''end''] @ [LF])
       else file_at demo_big g))"
    by (rule echo_redirect [OF fs_ok_demo_big _ _ x _ _ _ demo_big_file(1) f(1,2)])
      (simp_all add: ts f arg_def frontier_def heap_end_def)
  then show ?thesis using demo_big_file(1) f(3) by fastforce
qed

theorem echo_pipe_cat_witness:
  "\<exists>b s. shell_exec_line (''echo hi | cat'' @ [NUL]) demo_big = Some (Some 0, b, s) \<and>
     line_out s = concat (map serial_bytes (''hi'' @ [LF]))"
proof -
  have tx: "tokens_spec (exit_digits 0) ''echo hi '' empty_spec =
      Some \<lparr>words = [''echo'', ''hi''], to_file = None, from_file = None\<rparr>" by code_simp
  have ty: "tokens_spec (exit_digits 0) ''cat'' empty_spec =
      Some \<lparr>words = [''cat''], to_file = None, from_file = None\<rparr>" by code_simp
  have "\<exists>b' s'. shell_exec_line (''echo hi '' @ CHR ''|'' # '' '' @ ''cat'' @ NUL # []) demo_big = Some (Some 0, b', s') \<and>
    last_exit s' = 0 \<and>
    line_out s' = line_out demo_big @ concat (map serial_bytes (take PIPE_MAX (joined [''hi''] @ [LF])))"
    by (rule echo_pipe_cat [OF fs_okD(1) [OF fs_ok_demo_big]])
      (simp_all add: tx ty command_text_def blank_def arg_def frontier_def heap_end_def)
  then show ?thesis by (auto simp: PIPE_MAX_def)
qed

end
