(* ===== verification/Text_Props.thy ===== *)
theory Text_Props
  imports Cmd_Sys Demo
begin

text \<open>
  What the text commands print.  The loops of \<open>sort\<close> are proved correct once, for any comparison that
  agrees with a strict weak order (locale \<open>line_order\<close>), and used for the plain, the reverse and the numeric
  order; the other loops are compared with the list functions they stand for.
\<close>

section \<open>Sorting\<close>

locale line_order =
  fixes cmp :: "string \<Rightarrow> string \<Rightarrow> int option"
    and lt :: "string \<Rightarrow> string \<Rightarrow> bool"
    and good :: "string \<Rightarrow> bool"
  assumes cmp_lt: "good x \<Longrightarrow> good y \<Longrightarrow> \<exists>c. cmp x y = Some c \<and> (c < 0 \<longleftrightarrow> lt x y)"
    and asym: "lt x y \<Longrightarrow> \<not> lt y x"
    and neg_trans: "\<not> lt y x \<Longrightarrow> \<not> lt z y \<Longrightarrow> \<not> lt z x"
begin

text \<open>The sorted part, last line first.\<close>

definition descending :: "string list \<Rightarrow> bool" where
  "descending p \<longleftrightarrow> sorted_wrt (\<lambda>x y. \<not> lt x y) p"

lemma shift_in_ok:
  assumes "good key" and "\<forall>l \<in> set p. good l" and "descending p"
  shows "\<exists>p'. shift_in cmp key p = Some p' \<and> mset p' = add_mset key (mset p) \<and> descending p'"
  using assms(2,3)
proof (induction p)
  case Nil
  then show ?case by (simp add: descending_def)
next
  case (Cons l p)
  obtain c where c: "cmp key l = Some c" "c < 0 \<longleftrightarrow> lt key l" using cmp_lt [of key l] assms(1) Cons.prems by auto
  obtain p' where p': "shift_in cmp key p = Some p'" "mset p' = add_mset key (mset p)" "descending p'"
    using Cons.IH Cons.prems by (auto simp: descending_def)
  have s: "set p' = insert key (set p)" using p'(2) by (metis set_mset_add_mset_insert set_mset_mset)
  show ?case
  proof (cases "c < 0")
    case True
    then have "descending (l # p')" using p'(3) s Cons.prems asym c(2) by (auto simp: descending_def)
    then show ?thesis using c True p' by simp
  next
    case False
    have "\<not> lt key x" if "x \<in> set p" for x
      using that Cons.prems neg_trans [of l x key] False c(2) by (auto simp: descending_def)
    then have "descending (key # l # p)" using Cons.prems False c(2) by (auto simp: descending_def)
    then show ?thesis using c False by simp
  qed
qed

lemma sort_loop_ok:
  assumes "\<forall>l \<in> set p \<union> set ls. good l" and "descending p"
  shows "\<exists>ls'. sort_loop cmp p ls = Some ls' \<and> mset ls' = mset p + mset ls \<and> descending (rev ls')"
  using assms
proof (induction ls arbitrary: p)
  case (Cons key ls)
  obtain p' where p': "shift_in cmp key p = Some p'" "mset p' = add_mset key (mset p)" "descending p'"
    using shift_in_ok [of key p] Cons.prems by auto
  have s: "set p' = insert key (set p)" using p'(2) by (metis set_mset_add_mset_insert set_mset_mset)
  obtain ls' where "sort_loop cmp p' ls = Some ls'" "mset ls' = mset p' + mset ls" "descending (rev ls')"
    using Cons.IH [of p'] Cons.prems p'(3) s by auto
  then show ?case using p' by simp
qed simp

lemma sort_lines:
  assumes "\<forall>l \<in> set ls. good l"
  obtains ls' where "sort_loop cmp [] ls = Some ls'" "mset ls' = mset ls"
    "sorted_wrt (\<lambda>x y. \<not> lt y x) ls'"
  using sort_loop_ok [of "[]" ls] assms by (auto simp: descending_def sorted_wrt_rev)

end

definition no_nul :: "string \<Rightarrow> bool" where
  "no_nul l \<longleftrightarrow> NUL \<notin> set l"

text \<open>The value \<open>atoi\<close> reads, and the strings on which it does not overflow.\<close>

definition num_value :: "string \<Rightarrow> int" where
  "num_value l = (case atoi_str l of Some v \<Rightarrow> v | None \<Rightarrow> 0)"

definition num_ok :: "string \<Rightarrow> bool" where
  "num_ok l \<longleftrightarrow> no_nul l \<and> atoi_str l \<noteq> None"

definition num_less :: "string \<Rightarrow> string \<Rightarrow> bool" where
  "num_less x y \<longleftrightarrow> num_value x < num_value y \<or> num_value x = num_value y \<and> x < y"

lemma sort_cmp_plain:
  "no_nul x \<Longrightarrow> no_nul y \<Longrightarrow> \<exists>c. sort_cmp False False x y = Some c \<and> (c < 0 \<longleftrightarrow> x < y)"
  using str_cmp_neg [of x y] by (simp add: sort_cmp_def cmp_str_eq no_nul_def)

lemma sort_cmp_reverse:
  "no_nul x \<Longrightarrow> no_nul y \<Longrightarrow> \<exists>c. sort_cmp False True x y = Some c \<and> (c < 0 \<longleftrightarrow> y < x)"
  using str_cmp_neg [of y x] str_cmp_antisym [of x y] by (simp add: sort_cmp_def cmp_str_eq no_nul_def)

lemma sort_cmp_numeric:
  assumes "num_ok x" and "num_ok y"
  shows "\<exists>c. sort_cmp True False x y = Some c \<and> (c < 0 \<longleftrightarrow> num_less x y)"
proof -
  obtain a b where "atoi_str x = Some a" "atoi_str y = Some b" "no_nul x" "no_nul y"
    using assms by (auto simp: num_ok_def)
  then show ?thesis
    using str_cmp_neg [of x y]
    by (auto simp: sort_cmp_def cmp_str_num_def num_less_def num_value_def cmp_str_eq no_nul_def)
qed

interpretation plain: line_order "sort_cmp False False" "(<)" no_nul
  by unfold_locales (use sort_cmp_plain in auto)

interpretation reverse: line_order "sort_cmp False True" "(>)" no_nul
  by unfold_locales (use sort_cmp_reverse in auto)

interpretation numeric: line_order "sort_cmp True False" num_less num_ok
  by unfold_locales (use sort_cmp_numeric in \<open>auto simp: num_less_def\<close>)

lemma sort_loop_plain:
  assumes "\<forall>l \<in> set ls. no_nul l"
  shows "sort_loop (sort_cmp False False) [] ls = Some (sort ls)"
proof -
  obtain ls' where ls': "sort_loop (sort_cmp False False) [] ls = Some ls'" "mset ls' = mset ls"
      "sorted_wrt (\<lambda>x y. \<not> y < x) ls'"
    by (rule plain.sort_lines [OF assms])
  then have "sorted ls'" by (simp add: not_less)
  then show ?thesis using properties_for_sort [of ls' ls] ls' by simp
qed

lemma sort_loop_reverse:
  assumes "\<forall>l \<in> set ls. no_nul l"
  shows "sort_loop (sort_cmp False True) [] ls = Some (rev (sort ls))"
proof -
  obtain ls' where ls': "sort_loop (sort_cmp False True) [] ls = Some ls'" "mset ls' = mset ls"
      "sorted_wrt (\<lambda>x y. \<not> x < y) ls'"
    by (rule reverse.sort_lines [OF assms])
  then have "sorted (rev ls')" by (simp add: sorted_wrt_rev not_less)
  then have "sort ls = rev ls'" using properties_for_sort [of "rev ls'" ls] ls' by simp
  then show ?thesis using ls' by simp
qed

text \<open>\<open>sort -u\<close> leaves one line of each run, which in a sorted text is one of each.\<close>

lemma drop_repeats_remdups: "drop_repeats (Some x) ls = tl (remdups_adj (x # ls))"
  by (induction ls arbitrary: x) auto

lemma drop_repeats_eq: "drop_repeats None ls = remdups_adj ls"
  by (cases ls) (simp_all add: drop_repeats_remdups)

section \<open>Input files and lines\<close>

text \<open>Opening a file that is there gives its content.\<close>

lemma open_input_file:
  "vfs_resolve s (Some f) = Some n \<Longrightarrow> is_file s n \<Longrightarrow>
   open_input (Some f) s = Some (Some (content (node s n)), s)"
  by (simp add: open_input_def)

lemma split_lines_no_nul: "split_lines t s = Some (ls, s') \<Longrightarrow> l \<in> set ls \<Longrightarrow> no_nul l"
  by (auto simp: no_nul_def dest!: split_lines_text)

section \<open>\<open>sort\<close>\<close>

text \<open>C13: \<open>sort\<close> on a file prints its lines in the byte order of the strings, or backwards with \<open>-r\<close>, and each
  line once with \<open>-u\<close>; whatever follows the file name, options included, is ignored.\<close>

theorem sort_command:
  assumes "take_opts (tl a) = (fl, f # rest)" and "CHR ''n'' \<notin> set fl"
    and "vfs_resolve s (Some f) = Some n" and "is_file s n"
  shows "cmd_sort a s = do {
      (ls, s) \<leftarrow> split_lines (content (node s n)) s;
      let ls = (if CHR ''r'' \<in> set fl then rev (sort ls) else sort ls);
      s \<leftarrow> for_each put_line (if CHR ''u'' \<in> set fl then remdups_adj ls else ls) s;
      Some (0, s) }"
proof (cases "split_lines (content (node s n)) s")
  case None
  then show ?thesis using assms by (simp add: cmd_sort_def arg_def open_input_file)
next
  case (Some r)
  obtain ls s1 where r: "r = (ls, s1)" by (cases r)
  have g: "\<forall>l \<in> set ls. no_nul l" using split_lines_no_nul Some r by blast
  show ?thesis
    using assms Some r sort_loop_plain [OF g] sort_loop_reverse [OF g]
    by (simp add: cmd_sort_def arg_def open_input_file drop_repeats_eq)
qed

section \<open>\<open>uniq\<close>\<close>

definition expand_runs :: "(nat \<times> string) list \<Rightarrow> string list" where
  "expand_runs rs = concat (map (\<lambda>(n, l). replicate n l) rs)"

lemma uniq_runs_Cons: "uniq_runs k (l # ls) = (n, x) # r \<Longrightarrow> x = l \<and> n > k"
proof (induction k "l # ls" arbitrary: ls rule: uniq_runs.induct)
  case (3 run m ls')
  then show ?case by (force split: if_splits)
qed auto

lemma uniq_runs_nonempty: "ls \<noteq> [] \<Longrightarrow> uniq_runs k ls \<noteq> []"
  by (induction k ls rule: uniq_runs.induct) auto

lemma expand_uniq_runs: "ls \<noteq> [] \<Longrightarrow> expand_runs (uniq_runs k ls) = replicate k (hd ls) @ ls"
  by (induction k ls rule: uniq_runs.induct)
    (auto simp: expand_runs_def replicate_append_same [symmetric] simp del: replicate_append_same)

lemma uniq_runs_adj: "distinct_adj (map snd (uniq_runs k ls))"
proof (induction k ls rule: uniq_runs.induct)
  case (3 run l m ls)
  obtain n x r where "uniq_runs 0 (m # ls) = (n, x) # r"
    using uniq_runs_nonempty [of "m # ls" 0] by (cases "uniq_runs 0 (m # ls)") auto
  then show ?case using 3 uniq_runs_Cons [of 0 m ls n x r] by auto
qed auto

text \<open>C30: \<open>uniq\<close> groups the lines into runs of equal lines: expanding the counted lines gives the input back,
  no two neighbours that are printed are equal, and every count is positive.\<close>

theorem uniq_runs_encode:
  "expand_runs (uniq_runs 0 ls) = ls \<and> distinct_adj (map snd (uniq_runs 0 ls)) \<and>
   list_all (\<lambda>r. fst r > 0) (uniq_runs 0 ls)"
proof -
  have "expand_runs (uniq_runs 0 ls) = ls"
    using expand_uniq_runs [of ls 0] by (cases "ls = []") (simp_all add: expand_runs_def)
  moreover have "list_all (\<lambda>r. fst r > 0) (uniq_runs k ls)" for k
    by (induction k ls rule: uniq_runs.induct) auto
  ultimately show ?thesis using uniq_runs_adj by blast
qed

section \<open>\<open>grep\<close>\<close>

definition lower :: "string \<Rightarrow> int list" where
  "lower t = map (\<lambda>c. tolower (uc c)) t"

definition occurs :: "bool \<Rightarrow> string \<Rightarrow> string \<Rightarrow> bool" where
  "occurs ci pat l \<longleftrightarrow> (if ci then sublist (lower pat) (lower l) else sublist pat l)"

lemma grep_here_prefix:
  "grep_here ci pat l \<longleftrightarrow> (if ci then prefix (lower pat) (lower l) else prefix pat l)"
  by (induction ci pat l rule: grep_here.induct) (auto simp: lower_def)

lemma grep_match_occurs: "grep_match ci pat l \<longleftrightarrow> occurs ci pat l"
proof (induction ci pat l rule: grep_match.induct)
  case (1 ci pat)
  then show ?case by (auto simp: occurs_def lower_def)
next
  case (2 ci pat x l)
  have len: "occurs ci pat (x # l) \<Longrightarrow> length pat \<le> length (x # l)"
    by (auto simp: occurs_def lower_def dest: sublist_length_le split: if_splits)
  have step: "occurs ci pat (x # l) \<longleftrightarrow> grep_here ci pat (x # l) \<or> occurs ci pat l"
    by (simp add: occurs_def grep_here_prefix sublist_Cons_right lower_def)
  show ?case
    using 2 len step by (auto simp: occurs_def lower_def)
qed

text \<open>C29: \<open>grep\<close> on a file prints exactly the lines in which the pattern occurs (those in which it does not with
  \<open>-v\<close>), up to case with \<open>-i\<close>, in their order, and its exit code tells whether there was one.\<close>

theorem grep_command:
  assumes "take_opts (tl a) = (fl, pat # f # rest)"
    and "vfs_resolve s (Some f) = Some n" and "is_file s n"
  shows "cmd_grep a s = do {
      (ls, s) \<leftarrow> split_lines (content (node s n)) s;
      let hits = filter (\<lambda>l. occurs (CHR ''i'' \<in> set fl) pat l \<longleftrightarrow> CHR ''v'' \<notin> set fl) ls;
      s \<leftarrow> for_each put_line hits s;
      Some (if hits \<noteq> [] then 0 else 1, s) }"
proof -
  have "(\<lambda>l. grep_match (CHR ''i'' \<in> set fl) pat l \<noteq> (CHR ''v'' \<in> set fl)) =
      (\<lambda>l. occurs (CHR ''i'' \<in> set fl) pat l \<longleftrightarrow> CHR ''v'' \<notin> set fl)"
    by (auto simp: grep_match_occurs)
  then show ?thesis using assms by (simp add: cmd_grep_def arg_def open_input_file)
qed

section \<open>\<open>wc\<close>\<close>

text \<open>The positions at which a word begins: a character that is not blank behind a blank or at the start.\<close>

definition word_starts :: "string \<Rightarrow> nat set" where
  "word_starts t = {i. i < length t \<and> \<not> wc_blank (t ! i) \<and> (i = 0 \<or> wc_blank (t ! (i - 1)))}"

definition starts_after :: "bool \<Rightarrow> string \<Rightarrow> nat set" where
  "starts_after inw t = {i. i < length t \<and> \<not> wc_blank (t ! i) \<and> (if i = 0 then \<not> inw else wc_blank (t ! (i - 1)))}"

lemma starts_after_Cons:
  "starts_after inw (c # t) = (if wc_blank c \<or> inw then {} else {0}) \<union> Suc ` starts_after (\<not> wc_blank c) t"
proof -
  have "i \<in> starts_after inw (c # t) \<longleftrightarrow>
      i \<in> (if wc_blank c \<or> inw then {} else {0}) \<union> Suc ` starts_after (\<not> wc_blank c) t" for i
  proof (cases i)
    case (Suc j)
    then show ?thesis by (cases j) (auto simp: starts_after_def)
  qed (auto simp: starts_after_def)
  then show ?thesis by blast
qed

lemma finite_starts_after [simp]: "finite (starts_after inw t)"
  by (rule finite_subset [of _ "{..<length t}"]) (auto simp: starts_after_def)

lemma card_starts_after_Cons:
  "card (starts_after inw (c # t)) = (if wc_blank c \<or> inw then 0 else 1) + card (starts_after (\<not> wc_blank c) t)"
proof -
  have "card (Suc ` A) = card A" for A :: "nat set" by (rule card_image) simp
  moreover have "0 \<notin> Suc ` starts_after (\<not> wc_blank c) t" by auto
  ultimately show ?thesis by (simp add: starts_after_Cons)
qed

lemma wc_loop_counts:
  "wc_loop t (ls, ws, inw) = (ls + count_list t LF, ws + card (starts_after inw t))"
proof (induction t arbitrary: ls ws inw)
  case Nil
  then show ?case by (simp add: starts_after_def)
next
  case (Cons c t)
  then show ?case by (simp add: card_starts_after_Cons wc_blank_def)
qed

text \<open>\<open>wc\<close> counts the line feeds and the words of a text.\<close>

theorem wc_counts:
  "wc_loop t (0, 0, False) = (count_list t LF, card (word_starts t))"
proof -
  have "starts_after False t = word_starts t" by (auto simp: starts_after_def word_starts_def)
  then show ?thesis by (simp add: wc_loop_counts)
qed

section \<open>\<open>head\<close> and \<open>tail\<close>\<close>

definition unlines :: "string list \<Rightarrow> string" where
  "unlines ls = concat (map (\<lambda>l. l @ [LF]) ls)"

lemma unlines_simps [simp]:
  "unlines [] = []" "unlines (l # ls) = l @ LF # unlines ls" "unlines (xs @ ys) = unlines xs @ unlines ys"
  by (simp_all add: unlines_def)

lemma head_text_line: "LF \<notin> set l \<Longrightarrow> 0 < n \<Longrightarrow> head_text n (l @ LF # t) = l @ LF # head_text (n - 1) t"
  by (induction l) auto

lemma head_text_0 [simp]: "head_text 0 t = []"
  by (cases t) auto

lemma head_text_unlines:
  "\<forall>l \<in> set ls. LF \<notin> set l \<Longrightarrow> head_text n (unlines ls) = unlines (take n ls)"
proof (induction ls arbitrary: n)
  case (Cons l ls)
  then show ?case by (cases n) (simp_all add: head_text_line)
qed simp

text \<open>The scan from the end, in terms of the lines that it passes.\<close>

lemma tail_start_plain:
  "LF \<notin> set x \<Longrightarrow> tail_start n k (rev x @ r) = tail_start n k r"
proof -
  have "LF \<notin> set y \<Longrightarrow> tail_start n k (y @ r) = tail_start n k r" for y
    by (induction y) auto
  then show "LF \<notin> set x \<Longrightarrow> ?thesis" by simp
qed

lemma tail_start_unlines:
  assumes "\<forall>l \<in> set ls. LF \<notin> set l" and "k < n"
  shows "tail_start n k (rev (unlines ls)) =
    (if n - k \<le> int (length ls) then length (unlines (take (length ls - nat (n - k) + 1) ls)) else 0)"
  using assms
proof (induction ls arbitrary: k rule: rev_induct)
  case (snoc l ls)
  have step: "tail_start n k (rev (unlines (ls @ [l]))) =
      (if k + 1 = n then length (unlines (ls @ [l])) else tail_start n (k + 1) (rev (unlines ls)))"
    using snoc.prems(1) tail_start_plain [of l n "k + 1" "rev (unlines ls)"] by simp
  show ?case
  proof (cases "k + 1 = n")
    case True
    then show ?thesis using step by simp
  next
    case False
    then have ih: "tail_start n (k + 1) (rev (unlines ls)) =
        (if n - (k + 1) \<le> int (length ls) then length (unlines (take (length ls - nat (n - (k + 1)) + 1) ls)) else 0)"
      using snoc by simp
    have e: "n - (k + 1) \<le> int (length ls) \<longleftrightarrow> n - k \<le> int (length (ls @ [l]))"
    proof -
      have "int (length (ls @ [l])) = int (length ls) + 1" by simp
      then show ?thesis by linarith
    qed
    show ?thesis
    proof (cases "n - k \<le> int (length (ls @ [l]))")
      case True
      have "length ls - nat (n - (k + 1)) + 1 = length (ls @ [l]) - nat (n - k) + 1"
        "length (ls @ [l]) - nat (n - k) + 1 \<le> length ls"
        using True False snoc.prems(2) by auto
      then show ?thesis using step ih e True False by simp
    next
      case no: False
      then show ?thesis using step ih e False by simp
    qed
  qed
qed simp

text \<open>C38: on a text of complete lines \<open>head\<close> prints the first \<open>n\<close> lines, but \<open>tail\<close> prints one line too few when
  the text has \<open>n\<close> lines or more: the scan counts the line feed at the end of the text as well.  Where the
  last line is not terminated, \<open>tail\<close> prints the last \<open>n\<close>.\<close>

theorem head_tail_lines:
  assumes "\<forall>l \<in> set ls. LF \<notin> set l" and "LF \<notin> set x" and "0 < n"
  shows "head_text n (unlines ls) = unlines (take n ls) \<and>
    tail_text (int n) (unlines ls) = unlines (if n \<le> length ls then drop (length ls - (n - 1)) ls else ls) \<and>
    tail_text (int n) (unlines ls @ x) = unlines (drop (length ls - (n - 1)) ls) @ x"
proof -
  let ?k = "length ls - n + 1"
  have split: "unlines ls = unlines (take k ls) @ unlines (drop k ls)" for k
    by (metis append_take_drop_id unlines_simps(3))
  have st: "tail_start (int n) 0 (rev (unlines ls)) = (if n \<le> length ls then length (unlines (take ?k ls)) else 0)"
    using tail_start_unlines [OF assms(1), of 0 "int n"] assms(3) by simp
  have "drop (length (unlines (take ?k ls))) (unlines ls @ y) = unlines (drop ?k ls) @ y" for y
    by (subst split [of ?k]) simp
  note dr = this this [of "[]", simplified]
  have stx: "tail_start (int n) 0 (rev x @ rev (unlines ls)) = tail_start (int n) 0 (rev (unlines ls))"
    using tail_start_plain [OF assms(2)] by simp
  have k: "n \<le> length ls \<Longrightarrow> ?k = length ls - (n - 1)" "\<not> n \<le> length ls \<Longrightarrow> length ls - (n - 1) = 0"
    using assms(3) by simp_all
  show ?thesis
    using head_text_unlines [OF assms(1)] k dr by (auto simp: tail_text_def st stx)
qed

section \<open>Wildcards\<close>

text \<open>The strings a pattern stands for.\<close>

fun glob_lang :: "string \<Rightarrow> string set" where
  "glob_lang [] = {[]}"
| "glob_lang (p # ps) =
     (if p = CHR ''*'' then {u @ v | u v. v \<in> glob_lang ps}
      else if p = CHR ''?'' then {c # v | c v. v \<in> glob_lang ps}
      else {p # v | v. v \<in> glob_lang ps})"

lemma star_lang_Cons:
  "c # t \<in> {u @ v | u v. v \<in> L} \<longleftrightarrow> c # t \<in> L \<or> t \<in> {u @ v | u v. v \<in> L}"
  by (auto simp: Cons_eq_append_conv)

text \<open>C31: the matcher of \<open>find -name\<close> accepts exactly the strings the pattern stands for, a star any string
  and a question mark any character.\<close>

theorem glob_match_lang: "glob_match pat t \<longleftrightarrow> t \<in> glob_lang pat"
proof (induction pat t rule: glob_match.induct)
  case (3 p ps c t)
  show ?case
  proof (cases "p = CHR ''*''")
    case True
    then have "glob_match (p # ps) (c # t) \<longleftrightarrow> c # t \<in> glob_lang ps \<or> t \<in> glob_lang (p # ps)"
      using 3 by simp
    then show ?thesis using True star_lang_Cons [of c t "glob_lang ps"] by simp
  qed (use 3 in auto)
qed auto

section \<open>Witnesses\<close>

text \<open>The demo state with a text of four lines in \<open>/tmp/a\<close>.\<close>

definition demo_lines :: shell where
  "demo_lines = set_node 16777600
     (demo_a\<lparr>data := Some (''b'' @ [LF] @ ''a'' @ [LF] @ ''b'' @ [LF, NUL]), fsize := 6\<rparr>) demo_shell"

lemma demo_lines_sel [simp]:
  "nodes demo_lines = (nodes demo_fs)(16777600 \<mapsto>
     (demo_a\<lparr>data := Some (''b'' @ [LF] @ ''a'' @ [LF] @ ''b'' @ [LF, NUL]), fsize := 6\<rparr>))"
  "vfs_root demo_lines = 16777216" "used demo_lines = 576" "total demo_lines = 65536"
  "out_file demo_lines = None" "pipe_writing demo_lines = False" "line_out demo_lines = []"
  by (simp_all add: demo_lines_def set_node_def)

lemma demo_lines_file [simp]:
  "vfs_resolve demo_lines (Some (path_of [''tmp'', ''a''])) = Some 16777600" "is_file demo_lines 16777600"
  "content (node demo_lines 16777600) = ''b'' @ [LF] @ ''a'' @ [LF] @ ''b'' @ [LF]"
proof -
  have c: "child_of demo_lines (Some 16777216) ''tmp'' = Some 16777408"
    "child_of demo_lines (Some 16777408) ''a'' = Some 16777600"
    by (simp_all add: child_of_def node_def) (simp_all add: demo_simps)
  show "vfs_resolve demo_lines (Some (path_of [''tmp'', ''a''])) = Some 16777600"
    by (subst vfs_resolve_path_of) (simp_all add: c)
  show "is_file demo_lines 16777600" "content (node demo_lines 16777600) = ''b'' @ [LF] @ ''a'' @ [LF] @ ''b'' @ [LF]"
    by (simp_all add: node_def content_def) (simp add: demo_simps)
qed

lemma demo_lines_split:
  "split_lines (content (node demo_lines 16777600)) demo_lines =
     Some ([''b'', ''a'', ''b''], demo_lines\<lparr>used := 656\<rparr>)"
  unfolding demo_lines_file(3)
  by (simp add: split_lines_def must_alloc_def kmalloc_def Let_def align_up_def count_lines_def)

lemma demo_lines_resolve: "vfs_resolve demo_lines (Some ''/tmp/a'') = Some 16777600"
  using demo_lines_file(1) by simp

theorem sort_command_witness:
  "cmd_sort [''sort'', ''-ru'', ''/tmp/a'', ''-n''] demo_lines =
     do { s \<leftarrow> for_each put_line [''b'', ''a''] (demo_lines\<lparr>used := 656\<rparr>); Some (0, s) }"
proof -
  have "take_opts (tl [''sort'', ''-ru'', ''/tmp/a'', ''-n'']) = (''ru'', [''/tmp/a'', ''-n''])" by simp
  note r = sort_command [OF this _ demo_lines_resolve demo_lines_file(2), unfolded demo_lines_split]
  show ?thesis by (subst r) simp_all
qed

theorem grep_command_witness:
  "cmd_grep [''grep'', ''-iv'', ''B'', ''/tmp/a''] demo_lines =
     do { s \<leftarrow> for_each put_line [''a''] (demo_lines\<lparr>used := 656\<rparr>); Some (0, s) }"
proof -
  have "take_opts (tl [''grep'', ''-iv'', ''B'', ''/tmp/a'']) = (''iv'', [''B'', ''/tmp/a''])" by simp
  note r = grep_command [OF this demo_lines_resolve demo_lines_file(2), unfolded demo_lines_split]
  have "filter (\<lambda>l. occurs (CHR ''i'' \<in> set ''iv'') ''B'' l \<longleftrightarrow> CHR ''v'' \<notin> set ''iv'') [''b'', ''a'', ''b''] = [''a'']"
    by code_simp
  then show ?thesis by (subst r) simp
qed

theorem head_tail_lines_witness:
  "tail_text 2 (''a'' @ [LF] @ ''b'' @ [LF] @ ''c'' @ [LF]) = ''c'' @ [LF]"
  using head_tail_lines [of "[''a'', ''b'', ''c'']" "[]" 2] by simp

end
