(* ===== verification/Cmd_Props.thy ===== *)
theory Cmd_Props
  imports Line_Props
begin

text \<open>
  Copying and moving: the commands \<open>cp\<close> and \<open>mv\<close> of \<open>src/cmds.c\<close> on the files that paths name.
\<close>

lemma cp_to_file:
  assumes "vfs_resolve s (Some f) = Some n" and "is_file s n" and "vfs_resolve s (Some g) = Some m" and "is_file s m"
  shows "cmd_cp [w, f, g] s = Some (0, snd (vfs_write_file (Some m) (content (node s n)) s))"
  using assms by (simp add: cmd_cp_def)

text \<open>C18: \<open>cp\<close> onto a file makes every path to it read what is read through the source; what is read through any
  other path stays the same.\<close>

theorem cp_copies:
  assumes ok: "fs_ok s" and f: "vfs_resolve s (Some f) = Some n" "is_file s n"
    and g: "vfs_resolve s (Some g) = Some m" "is_file s m"
    and room: "frontier s + max (max (fcap (node s m)) 64) (2 * length (content (node s n))) + 15 \<le> heap_end s"
  shows "\<exists>s'. cmd_cp [w, f, g] s = Some (0, s') \<and> fs_ok s' \<and>
    (\<forall>p. file_at s' p = (if vfs_resolve s (Some p) = Some m then file_at s f else file_at s p))"
proof -
  let ?d = "content (node s n)"
  obtain v u where v: "nodes s n = Some v" "nodes s m = Some u" using vfs_resolve_valid [OF ok] f g by blast
  have "length ?d \<le> 16777216" using file_node [OF ok v(1)] length_content [of v] v(1) f(2) by fastforce
  then have d: "length ?d < 2 ^ 61" by simp
  obtain s' where w: "vfs_write_file (Some m) ?d s = (True, s')"
    using write_file_succeeds [OF ok g d room] by blast
  have st: "file_step s m ?d s'" using vfs_write_file_cases [OF ok v(2) _ d w] g(2) v(2) by simp
  have "file_at s f = Some ?d" using f by (simp add: file_at_def)
  then show ?thesis
    using cp_to_file [OF f g, of w] w fs_ok_file_step [OF ok _ st] v(2) file_at_file_step [OF st g(2)] by simp
qed

text \<open>C39: Moving a file onto itself removes it: \<open>mv\<close> copies it in place and then unlinks the only entry.\<close>

theorem mv_itself_removes:
  assumes ok: "fs_ok s" and nms: "\<forall>x \<in> set nms. plain x" "plain nm"
    and f: "vfs_resolve s (Some (path_of (nms @ [nm]))) = Some n" "is_file s n"
  shows "\<exists>s'. cmd_mv [w, path_of (nms @ [nm]), path_of (nms @ [nm])] s = Some (0, s') \<and> fs_ok s' \<and>
    vfs_resolve s' (Some (path_of (nms @ [nm]))) = None"
proof -
  let ?d = "content (node s n)" and ?f = "path_of (nms @ [nm])"
  obtain v where v: "nodes s n = Some v" using vfs_resolve_valid [OF ok] f by blast
  have "length ?d \<le> 16777216" using file_node [OF ok v] length_content [of v] v f(2) by fastforce
  then have d: "length ?d < 2 ^ 61" by simp
  obtain b s1 where w: "vfs_write_file (Some n) ?d s = (b, s1)" by (cases "vfs_write_file (Some n) ?d s")
  have st: "file_step s n ?d s1 \<or> s1 = s" using vfs_write_file_cases [OF ok v _ d w] f(2) v by auto
  then have ok1: "fs_ok s1" using fs_ok_file_step [OF ok] v ok by auto
  have "same_tree s s1" using st file_step_same_tree by (auto simp: same_tree_def)
  then have r1: "vfs_resolve s1 (Some ?f) = Some n" "is_file s1 n"
    using vfs_resolve_same_tree [of s s1] f by (simp_all add: same_tree_def)
  obtain s' where "vfs_rm ?f s1 = (True, s')" "fs_ok s'" "vfs_resolve s' (Some ?f) = None"
    using rm_plain [OF ok1 nms r1(1)] r1(2) by auto
  then show ?thesis using cp_to_file [OF f f, of w] w by (simp add: cmd_mv_def)
qed

section \<open>Witnesses\<close>

text \<open>The demo tree with an empty file \<open>/tmp/b\<close> beside \<open>/tmp/a\<close>.\<close>

definition demo_b :: vnode where
  "demo_b = \<lparr>vtype = FS_TYPE_FILE, name = ''b'', parent = Some 16777408, children = [],
     child_cap = 0, data = None, fsize = 0, fcap = 0\<rparr>"

definition demo_two :: shell where
  "demo_two = demo_big\<lparr>used := 704,
     nodes := [16777216 \<mapsto> demo_root, 16777408 \<mapsto> demo_tmp\<lparr>children := [16777600, 16777792]\<rparr>, 16777600 \<mapsto> demo_a,
       16777792 \<mapsto> demo_b]\<rparr>"

lemma demo_two_sel [simp]:
  "used demo_two = 704" "total demo_two = 1000000" "vfs_root demo_two = 16777216" "vfs_cwd demo_two = 16777216"
  "node demo_two 16777216 = demo_root" "node demo_two 16777408 = demo_tmp\<lparr>children := [16777600, 16777792]\<rparr>"
  "node demo_two 16777600 = demo_a" "node demo_two 16777792 = demo_b"
  by (simp_all add: demo_two_def node_def demo_big_def)

lemma fs_ok_demo_two: "fs_ok demo_two"
proof -
  have n: "nodes demo_two = [16777216 \<mapsto> demo_root, 16777408 \<mapsto> demo_tmp\<lparr>children := [16777600, 16777792]\<rparr>,
      16777600 \<mapsto> demo_a, 16777792 \<mapsto> demo_b]" by (simp add: demo_two_def)
  have "node_ok demo_two a v" if "nodes demo_two a = Some v" for a v
    using that unfolding n
    by (auto simp: node_ok_def frontier_def data_ok_def n demo_root_def demo_tmp_def demo_a_def demo_b_def split: if_splits
        intro!: exI [of _ "16777408 :: u64"])
  moreover have "heap_ok demo_two" by (simp add: heap_ok_def)
  ultimately show ?thesis by (auto simp: fs_ok_def n demo_root_def)
qed

lemma demo_two_resolve:
  "vfs_resolve demo_two (Some (path_of [''tmp'', ''a''])) = Some 16777600"
  "vfs_resolve demo_two (Some (path_of [''tmp'', ''b''])) = Some 16777792"
proof -
  have "child_of demo_two (Some 16777216) ''tmp'' = Some 16777408"
    "child_of demo_two (Some 16777408) ''a'' = Some 16777600" "child_of demo_two (Some 16777408) ''b'' = Some 16777792"
    by (simp_all add: child_of_def) (simp_all add: demo_root_def demo_tmp_def demo_a_def demo_b_def)
  then show "vfs_resolve demo_two (Some (path_of [''tmp'', ''a''])) = Some 16777600"
    "vfs_resolve demo_two (Some (path_of [''tmp'', ''b''])) = Some 16777792"
    by (subst vfs_resolve_path_of; simp)+
qed

theorem cp_copies_witness:
  "\<exists>s'. cmd_cp [''cp'', path_of [''tmp'', ''a''], path_of [''tmp'', ''b'']] demo_two = Some (0, s') \<and>
     file_at s' (path_of [''tmp'', ''b'']) = Some ''hi''"
proof -
  have "is_file demo_two 16777600" "is_file demo_two 16777792" by (simp_all add: demo_a_def demo_b_def)
  from cp_copies [OF fs_ok_demo_two demo_two_resolve(1) this(1) demo_two_resolve(2) this(2), of "''cp''"]
  have "\<exists>s'. cmd_cp [''cp'', path_of [''tmp'', ''a''], path_of [''tmp'', ''b'']] demo_two = Some (0, s') \<and>
     file_at s' (path_of [''tmp'', ''b'']) = file_at demo_two (path_of [''tmp'', ''a''])"
    by (auto simp: demo_two_resolve demo_a_def demo_b_def content_def frontier_def heap_end_def simp del: path_of_simps)
  moreover have "file_at demo_two (path_of [''tmp'', ''a'']) = Some ''hi''"
    by (simp add: file_at_def demo_two_resolve demo_a_def content_def del: path_of_simps)
  ultimately show ?thesis by simp
qed

theorem mv_itself_removes_witness:
  "\<exists>s'. cmd_mv [''mv'', path_of ([''tmp''] @ [''a'']), path_of ([''tmp''] @ [''a''])] demo_two = Some (0, s') \<and>
     vfs_resolve s' (Some (path_of ([''tmp''] @ [''a'']))) = None"
proof -
  have "is_file demo_two 16777600" by (simp add: demo_a_def)
  then show ?thesis
    using mv_itself_removes [OF fs_ok_demo_two, of "[''tmp'']" "''a''" 16777600 "''mv''"] demo_two_resolve(1)
    by (auto simp del: path_of_simps)
qed

end
