(* ===== verification/Diff_Props.thy ===== *)
theory Diff_Props
  imports Text_Props Cmd_Props
begin

text \<open>
  \<open>diff\<close>: its table is the edit distance of the rests of the two files, kept in 16 bits, and its script
  turns the first file into the second one.
\<close>

section \<open>The table\<close>

text \<open>The least number of replaced, deleted and inserted lines.\<close>

fun edits :: "string list \<Rightarrow> string list \<Rightarrow> nat" where
  "edits [] ys = length ys"
| "edits (x # xs) [] = length (x # xs)"
| "edits (x # xs) (y # ys) =
     min (edits xs ys + (if x \<noteq> y then 1 else 0)) (min (edits xs (y # ys) + 1) (edits (x # xs) ys + 1))"

lemma edits_Nil2 [simp]: "edits xs [] = length xs"
  by (cases xs) auto

lemma edits_le: "edits xs ys \<le> length xs + length ys"
  by (induction xs ys rule: edits.induct) auto

lemma edits_0: "edits xs ys = 0 \<longleftrightarrow> xs = ys"
  by (induction xs ys rule: edits.induct) (auto simp: min_def)

lemma u16_nat: "n < 65536 \<Longrightarrow> uint (of_nat n :: u16) = int n"
  by (simp add: unsigned_of_nat take_bit_nat_eq_self)

lemma best_of_three:
  "(let best = int a + (if P then 1 else 0);
        best = (if int b + 1 < best then int b + 1 else best)
    in if int c + 1 < best then int c + 1 else best) =
   int (min (a + (if P then 1 else 0)) (min (b + 1) (c + 1)))"
  by (auto simp: Let_def min_def)

lemma diff_row_edits:
  assumes "length xs + length ys < 65535"
  shows "diff_row x ys (map (\<lambda>j. of_nat (edits xs (drop j ys))) [0..<length ys + 1]) (of_nat (length xs + 1)) =
    map (\<lambda>j. of_nat (edits (x # xs) (drop j ys))) [0..<length ys + 1]"
  using assms
proof (induction ys)
  case (Cons y ys)
  have up: "[0..<length (y # ys) + 1] = 0 # map Suc [0..<length ys + 1]"
    by (simp add: map_Suc_upt upt_conv_Cons del: upt_Suc)
  have shift: "map (\<lambda>j. of_nat (edits zs (drop j (y # ys))) :: u16) [0..<length (y # ys) + 1] =
      of_nat (edits zs (y # ys)) # map (\<lambda>j. of_nat (edits zs (drop j ys))) [0..<length ys + 1]" for zs
    unfolding up by (simp del: upt_Suc)
  have hd: "map (\<lambda>j. of_nat (edits zs (drop j ys)) :: u16) [0..<length ys + 1] ! 0 = of_nat (edits zs ys)"
    "hd (map (\<lambda>j. of_nat (edits zs (drop j ys)) :: u16) [0..<length ys + 1]) = of_nat (edits zs ys)" for zs
    by (simp_all add: hd_map nth_append upt_conv_Cons del: upt_Suc)
  have u: "uint (of_nat (edits xs ys) :: u16) = int (edits xs ys)"
    "uint (of_nat (edits xs (y # ys)) :: u16) = int (edits xs (y # ys))"
    "uint (of_nat (edits (x # xs) ys) :: u16) = int (edits (x # xs) ys)"
    using edits_le [of xs ys] edits_le [of xs "y # ys"] edits_le [of "x # xs" ys] Cons.prems
    by (simp_all add: u16_nat)
  have ih: "diff_row x ys (map (\<lambda>j. of_nat (edits xs (drop j ys))) [0..<length ys + 1]) (of_nat (length xs + 1)) =
      map (\<lambda>j. of_nat (edits (x # xs) (drop j ys))) [0..<length ys + 1]"
    using Cons by simp
  have best: "word_of_int (let best = int (edits xs ys) + (if x \<noteq> y then 1 else 0);
        best = (if int (edits xs (y # ys)) + 1 < best then int (edits xs (y # ys)) + 1 else best)
        in if int (edits (x # xs) ys) + 1 < best then int (edits (x # xs) ys) + 1 else best) =
      (of_nat (edits (x # xs) (y # ys)) :: u16)"
    unfolding best_of_three by simp
  have row: "diff_row x (y # ys) (a0 # nx) e =
      word_of_int (let best = uint (nx ! 0) + (if x \<noteq> y then 1 else 0);
          best = (if uint a0 + 1 < best then uint a0 + 1 else best)
        in if uint (hd (diff_row x ys nx e)) + 1 < best then uint (hd (diff_row x ys nx e)) + 1 else best)
      # diff_row x ys nx e" for a0 nx e
    by (simp add: Let_def)
  show ?case
    unfolding shift row ih hd u best ..
qed simp

lemma diff_table_edits:
  assumes "length xs + length ys < 65536"
  shows "diff_table xs ys =
    map (\<lambda>i. map (\<lambda>j. of_nat (edits (drop i xs) (drop j ys))) [0..<length ys + 1]) [0..<length xs + 1]"
  using assms
proof (induction xs)
  case (Cons x xs)
  have up: "[0..<length (x # xs) + 1] = 0 # map Suc [0..<length xs + 1]"
    by (simp add: map_Suc_upt upt_conv_Cons del: upt_Suc)
  have ih: "diff_table xs ys =
      map (\<lambda>i. map (\<lambda>j. of_nat (edits (drop i xs) (drop j ys))) [0..<length ys + 1]) [0..<length xs + 1]"
    using Cons by simp
  have "hd (diff_table xs ys) = map (\<lambda>j. of_nat (edits xs (drop j ys))) [0..<length ys + 1]"
    unfolding ih by (simp add: hd_map upt_conv_Cons del: upt_Suc)
  then show ?case
    unfolding up using diff_row_edits [of xs ys x] Cons.prems ih by (simp add: Let_def del: upt_Suc)
qed simp

section \<open>Properties of \<open>diff\<close>\<close>

lemma diff_table_entry:
  assumes "length la + length lb < 65536" and "i \<le> length la" and "j \<le> length lb"
  shows "uint (diff_table la lb ! i ! j) = int (edits (drop i la) (drop j lb))"
proof -
  have "diff_table la lb ! i ! j = of_nat (edits (drop i la) (drop j lb))"
    unfolding diff_table_edits [OF assms(1)] using assms(2,3) by (simp del: upt_Suc add: nth_map)
  moreover have "edits (drop i la) (drop j lb) < 65536"
    using edits_le [of "drop i la" "drop j lb"] assms(1) by simp
  ultimately show ?thesis by (simp add: u16_nat)
qed

lemma diff_table_zero:
  assumes "length la + length lb < 65536"
  shows "diff_table la lb ! 0 ! 0 = 0 \<longleftrightarrow> la = lb"
proof -
  have "uint (diff_table la lb ! 0 ! 0) = int (edits la lb)" using diff_table_entry [OF assms, of 0 0] by simp
  then show ?thesis using edits_0 [of la lb] by (metis of_nat_eq_0_iff uint_0_iff)
qed

text \<open>C15: for files of less than 65536 lines together the table of \<open>diff\<close> holds the least numbers of
  edits between the rests of the files, so \<open>diff\<close> reports identical files exactly when their lines are
  equal.  The entries have 16 bits: 65536 empty lines count as identical to an empty file.\<close>

theorem diff_table_distance:
  "(length la + length lb < 65536 \<longrightarrow>
     (\<forall>i \<le> length la. \<forall>j \<le> length lb.
        uint (diff_table la lb ! i ! j) = int (edits (drop i la) (drop j lb))) \<and>
     (diff_table la lb ! 0 ! 0 = 0 \<longleftrightarrow> la = lb)) \<and>
   diff_table (replicate 65536 []) [] ! 0 ! 0 = 0"
proof -
  have w: "diff_table (replicate (Suc n) []) [] ! 0 ! 0 = of_nat (Suc n)" for n
    by (simp add: Let_def)
  have "diff_table (replicate 65536 []) [] ! 0 ! 0 = 0"
  proof -
    have "(65536 :: nat) = Suc 65535" by simp
    then have "diff_table (replicate 65536 []) [] ! 0 ! 0 = of_nat (Suc 65535)" using w by metis
    then show ?thesis by simp
  qed
  then show ?thesis using diff_table_entry diff_table_zero by blast
qed

lemma diff_script_cases:
  assumes "i < length la \<or> j < length lb"
  shows "(i < length la \<and> j < length lb \<and> la ! i = lb ! j \<and>
       diff_script d la lb i j = diff_script d la lb (i + 1) (j + 1)) \<or>
     (j < length lb \<and> diff_script d la lb i j = (True, lb ! j) # diff_script d la lb i (j + 1)) \<or>
     (i < length la \<and> diff_script d la lb i j = (False, la ! i) # diff_script d la lb (i + 1) j) \<or>
     (i < length la \<and> j < length lb \<and> diff_script d la lb i j =
        (False, la ! i) # (True, lb ! j) # diff_script d la lb (i + 1) (j + 1))"
  using assms unfolding diff_script.simps [of d la lb i j] by auto

text \<open>A rest of two files, and a script for it.\<close>

definition patches :: "string list \<Rightarrow> string list \<Rightarrow> (bool \<times> string) list \<Rightarrow> bool" where
  "patches xs ys sc \<longleftrightarrow>
     (\<exists>common. xs \<in> shuffles (map snd (filter (\<lambda>e. \<not> fst e) sc)) common \<and>
               ys \<in> shuffles (map snd (filter fst sc)) common)"

lemma patches_simps:
  "patches [] [] []"
  "patches xs ys sc \<Longrightarrow> patches (x # xs) (x # ys) sc"
  "patches xs ys sc \<Longrightarrow> patches xs (y # ys) ((True, y) # sc)"
  "patches xs ys sc \<Longrightarrow> patches (x # xs) ys ((False, x) # sc)"
  unfolding patches_def
  by (auto intro: Cons_in_shuffles_leftI) (metis Cons_in_shuffles_rightI)

lemma diff_script_patches_from: "patches (drop i la) (drop j lb) (diff_script d la lb i j)"
proof (induction "(length la - i) + (length lb - j)" arbitrary: i j rule: less_induct)
  case less
  have a: "i < length la \<Longrightarrow> drop i la = la ! i # drop (i + 1) la"
    and b: "j < length lb \<Longrightarrow> drop j lb = lb ! j # drop (j + 1) lb"
    by (simp_all add: Cons_nth_drop_Suc)
  show ?case
  proof (cases "i < length la \<or> j < length lb")
    case False
    then show ?thesis by (simp add: diff_script.simps [of d la lb i j] patches_simps(1))
  next
    case True
    note ih = less.hyps [of "i + 1" "j + 1"] less.hyps [of i "j + 1"] less.hyps [of "i + 1" j]
    from diff_script_cases [OF True, of d] show ?thesis
      by (elim disjE conjE) (use ih a b in \<open>auto intro!: patches_simps(2-4)\<close>)
  qed
qed

lemma diff_script_patches: "patches la lb (diff_script d la lb 0 0)"
  using diff_script_patches_from [of 0 la 0 lb d] by simp

section \<open>The command\<close>

text \<open>Splitting a text into lines costs at most this much of the heap.\<close>

definition split_room :: "string \<Rightarrow> nat" where
  "split_room t = 24 * length t + 48"

lemma must_alloc_room:
  fixes s :: shell
  assumes "heap_ok s" and "frontier s + n + 15 \<le> heap_end s"
  obtains s' where "must_alloc n s = Some s'" "kmalloc (of_nat n) s = (Some (HEAP_START + used s), s')"
    "heap_grew (n + 15) s s'"
proof -
  have e: "heap_end s \<le> 33554432" using assms(1) by (simp add: heap_ok_def heap_end_def)
  then have u: "unat (of_nat n :: u64) = n" using assms(2) by (simp add: unat_of_nat)
  have up: "up16 n \<le> n + 15" using up16_less [of n] by simp
  define s' where "s' = s\<lparr>used := used s + align_up (of_nat n) 16\<rparr>"
  have k: "kmalloc (of_nat n) s = (Some (HEAP_START + used s), s')"
      "unat (used s + align_up (of_nat n) 16) = unat (used s) + up16 n"
    using kmalloc_room [OF assms(1), of "of_nat n"] assms(2) e u up by (simp_all add: s'_def)
  have "heap_ok s'" using heap_ok_kmalloc [OF assms(1), of "of_nat n"] k(1) assms(2) e u by simp
  then have "heap_grew (n + 15) s s'" using k(2) up by (auto simp: heap_grew_def s'_def frontier_def)
  with k(1) show ?thesis by (intro that [of s']) (simp_all add: must_alloc_def)
qed

lemma heap_grew_mono: "heap_grew m s s' \<Longrightarrow> m \<le> n \<Longrightarrow> heap_grew n s s'"
  by (auto simp: heap_grew_def)

lemma heap_grew_room:
  "heap_grew m s s' \<Longrightarrow> frontier s + (m + n) \<le> heap_end s \<Longrightarrow> heap_ok s' \<and> frontier s' + n \<le> heap_end s'"
  using heap_grew_end [of m s s'] by (simp add: heap_grew_def)

lemma split_scan_room:
  fixes s :: shell
  assumes "heap_ok s" and "frontier s + (length cur + 16 * length d + 16) \<le> heap_end s"
  shows "\<exists>s'. split_scan cur d s = Some (map cstr (lines_of cur d), s') \<and>
    heap_grew (length cur + 16 * length d + 16) s s'"
  using assms
proof (induction cur d arbitrary: s rule: lines_of.induct)
  case (1 cur)
  show ?case
  proof (cases "cur = []")
    case True
    then show ?thesis using heap_grew_refl [OF 1(1)] by simp
  next
    case False
    obtain s1 where "must_alloc (length cur + 1) s = Some s1" "heap_grew (length cur + 1 + 15) s s1"
      using must_alloc_room [OF 1(1), of "length cur + 1"] 1(2) by auto
    then show ?thesis using False heap_grew_mono [of "length cur + 1 + 15" s s1 "length cur + 16"] by simp
  qed
next
  case (2 cur c d)
  show ?case
  proof (cases "c = LF")
    case True
    obtain s1 where s1: "must_alloc (length cur + 1) s = Some s1" "heap_grew (length cur + 1 + 15) s s1"
      by (rule must_alloc_room [OF 2(3), of "length cur + 1"]) (use 2(4) in simp_all)
    have r: "heap_ok s1" "frontier s1 + (length ([] :: string) + 16 * length d + 16) \<le> heap_end s1"
      using heap_grew_room [OF s1(2), of "16 * length d + 16"] 2(4) by simp_all
    obtain s2 where s2: "split_scan [] d s1 = Some (map cstr (lines_of [] d), s2)" "heap_grew (length ([] :: string) + 16 * length d + 16) s1 s2"
      using "2.IH"(1) [OF True r] by blast
    have "heap_grew (length cur + 16 * length (c # d) + 16) s s2"
      by (rule heap_grew_mono [OF heap_grew_trans [OF s1(2) s2(2)]]) simp
    then show ?thesis using True s1(1) s2(1) by simp
  next
    case False
    have r: "frontier s + (length (cur @ [c]) + 16 * length d + 16) \<le> heap_end s" using 2(4) by simp
    obtain s2 where s2: "split_scan (cur @ [c]) d s = Some (map cstr (lines_of (cur @ [c]) d), s2)"
        "heap_grew (length (cur @ [c]) + 16 * length d + 16) s s2"
      using "2.IH"(2) [OF False 2(3) r] by blast
    have "heap_grew (length cur + 16 * length (c # d) + 16) s s2" by (rule heap_grew_mono [OF s2(2)]) simp
    then show ?thesis using False s2(1) by simp
  qed
qed

lemma split_lines_room:
  fixes s :: shell
  assumes "heap_ok s" and "frontier s + split_room d \<le> heap_end s"
  obtains s' where "split_lines d s = Some (map cstr (text_lines d), s')" "heap_grew (split_room d) s s'"
proof (cases "d = []")
  case True
  obtain s1 where s1: "kmalloc (of_nat 8) s = (Some (HEAP_START + used s), s1)" "heap_grew (8 + 15) s s1"
    by (rule must_alloc_room [OF assms(1), of 8]) (use assms(2) in \<open>simp_all add: split_room_def\<close>)
  have "heap_grew (split_room d) s s1" by (rule heap_grew_mono [OF s1(2)]) (simp add: split_room_def)
  moreover have "split_lines d s = Some (map cstr (text_lines d), s1)"
    using True s1(1) by (simp add: split_lines_def text_lines_def)
  ultimately show ?thesis using that by blast
next
  case False
  let ?k = "8 * (count_lines d + 1)"
  have c: "count_lines d \<le> length d + 1" using count_le_length [of d LF] by (simp add: count_lines_def)
  obtain s1 where s1: "must_alloc ?k s = Some s1" "heap_grew (?k + 15) s s1"
    by (rule must_alloc_room [OF assms(1), of ?k]) (use assms(2) c in \<open>simp_all add: split_room_def\<close>)
  have r: "heap_ok s1" "frontier s1 + (length ([] :: string) + 16 * length d + 16) \<le> heap_end s1"
    using heap_grew_room [OF s1(2), of "16 * length d + 16"] assms(2) c by (simp_all add: split_room_def)
  obtain s2 where s2: "split_scan [] d s1 = Some (map cstr (lines_of [] d), s2)"
      "heap_grew (length ([] :: string) + 16 * length d + 16) s1 s2"
    using split_scan_room [OF r] by blast
  have "split_lines d s = Some (map cstr (text_lines d), s2)"
    using False s1(1) s2(1) by (simp add: split_lines_def text_lines_def)
  moreover have "heap_grew (split_room d) s s2"
    by (rule heap_grew_mono [OF heap_grew_trans [OF s1(2) s2(2)]]) (use c in \<open>simp add: split_room_def\<close>)
  ultimately show ?thesis using that by blast
qed

text \<open>What is printed for an entry of the script.\<close>

definition diff_line :: "bool \<times> string \<Rightarrow> string" where
  "diff_line e = (if fst e then ''> '' else ''< '') @ snd e @ [LF]"

lemma diff_line_format:
  "sh_printf_text ((if add then ''> %s'' else ''< %s'') @ [LF]) [A_string l] = Some (diff_line (add, l))"
  by (simp add: diff_line_def read_spec_def sh_conv_def next_arg_def arg_string_def pad_string_def)

lemma identical_format: "sh_printf_text (''Files are identical'' @ [LF]) [] = Some (''Files are identical'' @ [LF])"
  by simp

lemma print_script:
  "for_each (\<lambda>(add, l). sh_printf ((if add then ''> %s'' else ''< %s'') @ [LF]) [A_string l]) sc s =
   out_all (concat (map diff_line sc)) s"
proof (induction sc arbitrary: s)
  case (Cons e sc)
  have ih: "for_each (\<lambda>(add, l). sh_printf ((if add then ''> %s'' else ''< %s'') @ [LF]) [A_string l]) sc =
      out_all (concat (map diff_line sc))" by (rule ext) (rule Cons.IH)
  have "out_all (t @ u) s = do { s \<leftarrow> out_all t s; out_all u s }" for t u s
    unfolding out_all_for_each by (rule for_each_append)
  then show ?case
    unfolding for_each.simps ih
    by (cases e) (simp add: sh_printf_def diff_line_format del: append_Cons append_assoc)
qed simp

text \<open>C14: \<open>diff\<close> at the console, on two files of less than 65536 lines together and with room in the heap: if the
  lines are the same it says so and returns 0; otherwise it returns 1, and the lines it prints turn the first file
  into the second: those marked \<open><\<close> and a common rest make up the lines of the first file, those marked \<open>>\<close> and the
  same rest the lines of the second, each in order.  No file changes.  (A line ends at a NUL in it.)\<close>

theorem diff_command:
  assumes ok: "heap_ok s" and out: "out_file s = None" "\<not> pipe_writing s"
    and f: "vfs_resolve s (Some f) = Some n" "is_file s n" and g: "vfs_resolve s (Some g) = Some m" "is_file s m"
    and la: "la = map cstr (text_lines (content (node s n)))" and lb: "lb = map cstr (text_lines (content (node s m)))"
    and few: "length la + length lb < 65536"
    and room: "frontier s + split_room (content (node s n)) + split_room (content (node s m)) +
      2 * (length la + 1) * (length lb + 1) + 15 \<le> heap_end s"
  shows "\<exists>s' t. cmd_diff [w, f, g] s = Some (if la = lb then 0 else 1, s') \<and> same_files s s' \<and>
    line_out s' = line_out s @ concat (map serial_bytes t) \<and>
    (if la = lb then t = ''Files are identical'' @ [LF]
     else \<exists>sc common. t = concat (map diff_line sc) \<and>
       la \<in> shuffles (map snd (filter (\<lambda>e. \<not> fst e) sc)) common \<and>
       lb \<in> shuffles (map snd (filter fst sc)) common)"
proof -
  let ?k = "2 * (length la + 1) * (length lb + 1)" and ?ta = "content (node s n)" and ?tb = "content (node s m)"
  obtain s1 where s1: "split_lines ?ta s = Some (la, s1)" "heap_grew (split_room ?ta) s s1"
    using split_lines_room [OF ok, of ?ta] room la by auto
  have r1: "heap_ok s1" "frontier s1 + (split_room ?tb + ?k + 15) \<le> heap_end s1"
    using heap_grew_room [OF s1(2), of "split_room ?tb + ?k + 15"] room by simp_all
  obtain s2 where s2: "split_lines ?tb s1 = Some (lb, s2)" "heap_grew (split_room ?tb) s1 s2"
    using split_lines_room [OF r1(1), of ?tb] r1(2) lb by auto
  have r2: "heap_ok s2" "frontier s2 + ?k + 15 \<le> heap_end s2"
    using heap_grew_room [OF s2(2), of "?k + 15"] r1(2) by simp_all
  obtain s3 where s3: "kmalloc (of_nat ?k) s2 = (Some (HEAP_START + used s2), s3)" "heap_grew (?k + 15) s2 s3"
    using must_alloc_room [OF r2] by blast
  obtain u where u: "s3 = s\<lparr>used := u\<rparr>" using s1(2) s2(2) s3(2) by (auto simp: heap_grew_def)
  have out3: "\<exists>x. out_all t s3 = Some (s3\<lparr>screen := x, line_out := line_out s @ concat (map serial_bytes t)\<rparr>)" for t
    using console_text [of s3 t] out by (simp add: u)
  have open1: "open_input (arg [w, f, g] 1) s = Some (Some ?ta, s)"
    and open2: "open_input (arg [w, f, g] 2) s = Some (Some ?tb, s)"
    using open_input_file [OF f] open_input_file [OF g] by (simp_all add: arg_def)
  have zero: "diff_table la lb ! 0 ! 0 = 0 \<longleftrightarrow> la = lb"
    using diff_table_zero [OF few] .
  have lt: "(length [w, f, g] < 3) = False" by simp
  have same: "complain 0 (''Files are identical'' @ [LF]) [] s =
      do { s \<leftarrow> out_all (''Files are identical'' @ [LF]) s; Some (0, s) }" for s
    unfolding complain_def sh_printf_def identical_format by simp
  have run: "cmd_diff [w, f, g] s =
     (if la = lb then do { s \<leftarrow> out_all (''Files are identical'' @ [LF]) s3; Some (0, s) }
      else do { s \<leftarrow> out_all (concat (map diff_line (diff_script (diff_table la lb) la lb 0 0))) s3; Some (1, s) })"
    by (simp only: cmd_diff_def lt if_False open1 open2 s1(1) s2(1) s3(1) bind.bind_lunit prod.case option.case Let_def
        zero print_script same)
  show ?thesis
  proof (cases "la = lb")
    case True
    then show ?thesis using out3 [of "''Files are identical'' @ [LF]"] by (auto simp: run same_files_def u)
  next
    case False
    let ?sc = "diff_script (diff_table la lb) la lb 0 0"
    obtain common where "la \<in> shuffles (map snd (filter (\<lambda>e. \<not> fst e) ?sc)) common"
        "lb \<in> shuffles (map snd (filter fst ?sc)) common"
      using diff_script_patches [of la lb "diff_table la lb"] by (auto simp: patches_def)
    then have "\<exists>sc common. concat (map diff_line ?sc) = concat (map diff_line sc) \<and>
        la \<in> shuffles (map snd (filter (\<lambda>e. \<not> fst e) sc)) common \<and> lb \<in> shuffles (map snd (filter fst sc)) common"
      by blast
    moreover obtain x where x: "out_all (concat (map diff_line ?sc)) s3 = Some (s3\<lparr>screen := x, line_out :=
        line_out s @ concat (map serial_bytes (concat (map diff_line ?sc)))\<rparr>)" using out3 by blast
    ultimately show ?thesis
      using False unfolding run x
      by (intro exI [of _ "s3\<lparr>screen := x, line_out := line_out s @ concat (map serial_bytes (concat (map diff_line ?sc)))\<rparr>"]
          exI [of _ "concat (map diff_line ?sc)"] conjI) (simp_all add: same_files_def u)
  qed
qed

theorem diff_table_distance_witness:
  "diff_table [''a'', ''b''] [''a''] ! 0 ! 0 = 0 \<longleftrightarrow> [''a'', ''b''] = [''a'']"
  using diff_table_distance [of "[''a'', ''b'']" "[''a'']"] by simp

theorem diff_command_witness:
  "\<exists>s'. cmd_diff [''diff'', path_of [''tmp'', ''a''], path_of [''tmp'', ''b'']] demo_two = Some (1, s')"
proof -
  have c: "content (node demo_two 16777600) = ''hi''" "content (node demo_two 16777792) = []"
    by (simp_all add: demo_a_def demo_b_def content_def)
  have l: "map cstr (text_lines ''hi'') = [''hi'']" "map cstr (text_lines []) = []" by (simp_all add: text_lines_def)
  have o: "out_file demo_two = None" "\<not> pipe_writing demo_two" by (simp_all add: demo_two_def demo_big_def)
  have fl: "is_file demo_two 16777600" "is_file demo_two 16777792" by (simp_all add: demo_a_def demo_b_def)
  show ?thesis
    using diff_command [OF fs_okD(1) [OF fs_ok_demo_two] o demo_two_resolve(1) fl(1) demo_two_resolve(2) fl(2) refl refl,
      of "''diff''"] unfolding c l
    by (auto simp: split_room_def frontier_def heap_end_def simp del: path_of_simps)
qed

end
