(* ===== verification/Sys_Props.thy ===== *)
theory Sys_Props
  imports Cmd_Sys Demo
begin

text \<open>
  The calendar of \<open>cal\<close> and \<open>date\<close>, and the numbers that \<open>seq\<close> and \<open>factor\<close> print.
\<close>

section \<open>The calendar\<close>

lemma sdiv_nonneg: "0 \<le> a \<Longrightarrow> 0 < b \<Longrightarrow> (a :: int) sdiv b = a div b"
  by (cases "a = 0") (simp_all add: signed_divide_int_def)

lemma smod_nonneg: "0 \<le> a \<Longrightarrow> 0 < b \<Longrightarrow> (a :: int) smod b = a mod b"
  by (cases "a = 0") (simp_all add: signed_modulo_int_def)

text \<open>What a year adds to the day of the week, up to multiples of seven.\<close>

definition year_shift :: "int \<Rightarrow> int" where
  "year_shift y = y mod 100 + y mod 100 div 4 + y div 100 div 4 + 5 * (y div 100)"

definition leap :: "int \<Rightarrow> bool" where
  "leap y \<longleftrightarrow> y mod 4 = 0 \<and> y mod 100 \<noteq> 0 \<or> y mod 400 = 0"

lemma zeller_eq:
  assumes "1 \<le> y" and "1 \<le> m" and "m \<le> 12" and "0 \<le> d"
  shows "zeller y m d =
    (d + 13 * ((if m < 3 then m + 12 else m) + 1) div 5 + year_shift (if m < 3 then y - 1 else y) + 6) mod 7"
proof -
  define y' where "y' = (if m < 3 then y - 1 else y)"
  define m' where "m' = (if m < 3 then m + 12 else m)"
  have y': "0 \<le> y'" and m': "0 \<le> m'" using assms by (auto simp: y'_def m'_def)
  have h: "0 \<le> d + 13 * (m' + 1) div 5 + y' mod 100 + y' mod 100 div 4 + y' div 100 div 4 + 5 * (y' div 100)"
    (is "0 \<le> ?h") using y' m' assms by (simp add: pos_imp_zdiv_nonneg_iff)
  have nn: "0 \<le> y' mod 100" "0 \<le> y' div 100" "0 \<le> 13 * (m' + 1)" "0 \<le> ?h mod 7 + 6"
    using y' m' by (simp_all add: pos_imp_zdiv_nonneg_iff)
  have pair: "(if m < 3 then (y - 1, m + 12) else (y, m)) = (y', m')" by (simp add: y'_def m'_def)
  note e = smod_nonneg [of y' 100, OF y', simplified] sdiv_nonneg [of y' 100, OF y', simplified]
    sdiv_nonneg [of "y' mod 100" 4, OF nn(1), simplified] sdiv_nonneg [of "y' div 100" 4, OF nn(2), simplified]
  have e3: "13 * (m' + 1) sdiv 5 = 13 * (m' + 1) div 5" by (rule sdiv_nonneg [OF nn(3)]) simp
  have e7: "?h smod 7 = ?h mod 7" by (rule smod_nonneg [OF h]) simp
  have e8: "(?h mod 7 + 6) smod 7 = (?h mod 7 + 6) mod 7" by (rule smod_nonneg [OF nn(4)]) simp
  have "zeller y m d = (?h mod 7 + 6) mod 7"
    unfolding zeller_def pair Let_def prod.case e e3 e7 e8 ..
  also have "\<dots> = (?h + 6) mod 7" by (simp add: mod_simps)
  finally show ?thesis unfolding year_shift_def y'_def [symmetric] m'_def [symmetric] by (simp only: add_ac)
qed

lemma div4_step: "j div 4 - (j - 1) div 4 = (if j mod 4 = 0 then 1 else (0 :: int))"
proof (cases "j mod 4 = 0")
  case True
  then have "j - 1 = 4 * (j div 4 - 1) + 3" using div_mult_mod_eq [of j 4] by simp
  from int_div_pos_eq [OF this] show ?thesis using True by simp
next
  case False
  have "j - 1 = 4 * (j div 4) + (j mod 4 - 1)" using div_mult_mod_eq [of j 4] by simp
  moreover have "0 \<le> j mod 4 - 1" "j mod 4 - 1 < 4"
    using False pos_mod_sign [of 4 j] pos_mod_bound [of 4 j] by linarith+
  ultimately have "(j - 1) div 4 = j div 4" by (rule int_div_pos_eq)
  then show ?thesis using False by simp
qed

lemma four_hundred: "(100 :: int) * 4 = 400"
  by simp

lemma year_shift_step:
  assumes "1 \<le> y"
  shows "(year_shift y - year_shift (y - 1) - (if leap y then 2 else 1)) mod 7 = 0"
proof -
  define j k where "j = y div 100" and "k = y mod 100"
  have y: "y = 100 * j + k" and k: "0 \<le> k" "k < 100" by (simp_all add: j_def k_def)
  have "y = k + 4 * (25 * j)" by (simp add: y)
  then have m4: "y mod 4 = k mod 4" by (metis mod_mult_self2)
  have m400: "y mod 400 = 0 \<longleftrightarrow> k = 0 \<and> j mod 4 = 0"
  proof -
    have "y mod 400 = 0 \<Longrightarrow> k = 0"
      using mod_mod_cancel [of 100 400 y] by (simp add: k_def)
    moreover have "(100 * j) mod 400 = 100 * (j mod 4)" by (metis mult_mod_right four_hundred)
    ultimately show ?thesis by (auto simp: y)
  qed
  have lp: "leap y \<longleftrightarrow> (if k = 0 then j mod 4 = 0 else k mod 4 = 0)"
    using m4 m400 k by (auto simp: leap_def k_def [symmetric])
  show ?thesis
  proof (cases "k = 0")
    case True
    then have e: "y - 1 = 100 * (j - 1) + 99" using y by simp
    have "(y - 1) div 100 = j - 1" "(y - 1) mod 100 = 99"
      by (rule int_div_pos_eq [OF e] int_mod_pos_eq [OF e]; simp)+
    then have "year_shift y - year_shift (y - 1) = (j div 4 - (j - 1) div 4) - 118"
      by (simp add: year_shift_def j_def [symmetric] k_def [symmetric] True)
    then show ?thesis unfolding div4_step using True by (simp add: lp)
  next
    case False
    then have e: "y - 1 = 100 * j + (k - 1)" "0 \<le> k - 1" "k - 1 < 100" using y k by simp_all
    have "(y - 1) div 100 = j" "(y - 1) mod 100 = k - 1"
      by (rule int_div_pos_eq [OF e] int_mod_pos_eq [OF e])+
    then have "year_shift y - year_shift (y - 1) = 1 + (k div 4 - (k - 1) div 4)"
      by (simp add: year_shift_def j_def [symmetric] k_def [symmetric])
    then show ?thesis unfolding div4_step using False by (simp add: lp)
  qed
qed

lemma days_in_month_eq:
  assumes "0 \<le> y"
  shows "days_in_month y m = (if m = 2 \<and> leap y then 29
    else [31, 28, 31, 30, 31, 30, 31, 31, 30, 31, 30, 31] ! nat (m - 1))"
  using assms by (simp add: days_in_month_def leap_def smod_nonneg)

lemma month_cases:
  assumes "1 \<le> (m :: int)" and "m \<le> 12"
  obtains "m = 1" | "m = 2" | "m = 3" | "m = 4" | "m = 5" | "m = 6" | "m = 7" | "m = 8" | "m = 9"
    | "m = 10" | "m = 11" | "m = 12"
proof -
  have "m = 1 \<or> m = 2 \<or> m = 3 \<or> m = 4 \<or> m = 5 \<or> m = 6 \<or> m = 7 \<or> m = 8 \<or> m = 9 \<or> m = 10 \<or> m = 11 \<or> m = 12"
    using assms by arith
  then show ?thesis using that by blast
qed

text \<open>C28: the weekdays of \<open>cal\<close> are those of the Gregorian calendar: the first of January 1970 is a Thursday,
  every day is followed by the next weekday, and a month begins on the weekday behind the last day of the
  month before, for every month of every year from 1 on.\<close>

theorem zeller_calendar:
  assumes "1 \<le> y" and "1 \<le> m" and "m \<le> 12" and "1 \<le> d"
  shows "zeller 1970 1 1 = 4 \<and>
    zeller y m (d + 1) = (zeller y m d + 1) mod 7 \<and>
    (m < 12 \<longrightarrow> zeller y (m + 1) 1 = (zeller y m (days_in_month y m) + 1) mod 7) \<and>
    zeller (y + 1) 1 1 = (zeller y 12 (days_in_month y 12) + 1) mod 7"
proof (intro conjI impI)
  show "zeller 1970 1 1 = 4" by (simp add: zeller_eq year_shift_def)
  show "zeller y m (d + 1) = (zeller y m d + 1) mod 7"
    using assms by (simp add: zeller_eq mod_simps add_ac)
  show "zeller (y + 1) 1 1 = (zeller y 12 (days_in_month y 12) + 1) mod 7"
    using assms by (simp add: zeller_eq days_in_month_eq mod_simps mod_eq_dvd_iff)
  show "zeller y (m + 1) 1 = (zeller y m (days_in_month y m) + 1) mod 7" if "m < 12"
  proof -
    have s: "7 dvd year_shift y - year_shift (y - 1) - (if leap y then 2 else 1)"
      using year_shift_step [OF assms(1)] by (simp add: mod_eq_0_iff_dvd)
    have "(7 :: int) dvd - 56" by simp
    from dvd_add [OF s this] have "7 dvd year_shift y - year_shift (y - 1) - (if leap y then 58 else 57)"
      by (simp split: if_splits)
    with assms(2,3) show ?thesis
      by (cases rule: month_cases)
        (use assms that in \<open>simp_all add: zeller_eq days_in_month_eq mod_simps mod_eq_dvd_iff split: if_splits\<close>)
  qed
qed

text \<open>\<open>date\<close> names a wrong weekday: its formula moves by one day of the week from any day in January to
  the same day in February, where the calendar moves by three, so in every year at least one of the two
  is wrong; the first of January 2024, a Monday, comes out as a Friday.\<close>

theorem date_weekday_wrong:
  assumes "1 \<le> year t" and "1 \<le> uint (day t)"
  shows "date_dow (t\<lparr>month := 2\<rparr>) = (date_dow (t\<lparr>month := 1\<rparr>) + 1) mod 7 \<and>
    zeller (uint (year t)) 2 (uint (day t)) = (zeller (uint (year t)) 1 (uint (day t)) + 3) mod 7 \<and>
    (date_dow (t\<lparr>month := 1\<rparr>) \<noteq> zeller (uint (year t)) 1 (uint (day t)) \<or>
     date_dow (t\<lparr>month := 2\<rparr>) \<noteq> zeller (uint (year t)) 2 (uint (day t))) \<and>
    date_dow \<lparr>year = 2024, month = 1, day = 1, hour = 0, minute = 0, second = 0\<rparr> = 5 \<and> zeller 2024 1 1 = 1"
proof -
  have y: "1 \<le> uint (year t)" using assms(1) by (simp add: word_le_def)
  have a: "date_dow (t\<lparr>month := 2\<rparr>) = (date_dow (t\<lparr>month := 1\<rparr>) + 1) mod 7"
    by (simp add: date_dow_def mod_simps add_ac)
  have z: "zeller (uint (year t)) 2 (uint (day t)) = (zeller (uint (year t)) 1 (uint (day t)) + 3) mod 7"
    using y by (simp add: zeller_eq mod_simps add_ac)
  have "(x + 1) mod 7 \<noteq> (x + 3) mod 7" for x :: int by (simp add: mod_eq_dvd_iff)
  then show ?thesis using a z by (auto simp: date_dow_def zeller_eq year_shift_def)
qed

section \<open>\<open>seq\<close>\<close>

lemma count_steps:
  "0 < step \<Longrightarrow> step \<le> x \<Longrightarrow> nat (x div step) = Suc (nat ((x - step) div (step :: int)))"
proof -
  assume a: "0 < step" "step \<le> x"
  have "x div step = (x - step) div step + 1" using a(1) div_add_self2 [of step "x - step"] by simp
  moreover have "0 \<le> (x - step) div step" using a by (simp add: pos_imp_zdiv_nonneg_iff)
  ultimately show ?thesis by simp
qed

lemma seq_up_eq:
  assumes step: "0 < step"
  shows "seq_up v step e = (if v \<le> e then map (\<lambda>i. v + int i * step) [0..<nat ((e - v) div step) + 1] else [])"
proof (induction "nat (e + 1 - v)" arbitrary: v rule: less_induct)
  case less
  show ?case
  proof (cases "v \<le> e")
    case True
    have ih: "seq_up (v + step) step e =
        (if v + step \<le> e then map (\<lambda>i. v + step + int i * step) [0..<nat ((e - (v + step)) div step) + 1] else [])"
      by (rule less) (use step True in simp)
    have shift: "[0..<Suc n + 1] = 0 # map Suc [0..<n + 1]" for n
      by (simp add: map_Suc_upt upt_conv_Cons del: upt_Suc)
    show ?thesis
    proof (cases "v + step \<le> e")
      case more: True
      have "nat ((e - v) div step) = Suc (nat ((e - (v + step)) div step))"
        using count_steps [of step "e - v"] step more by (simp add: diff_diff_eq)
      then show ?thesis
        using ih more True step unfolding seq_up.simps [of v step e]
        by (simp only: shift) (simp add: algebra_simps del: upt_Suc)
    next
      case False
      then have "(e - v) div step = 0" using True by simp
      then show ?thesis using ih True False step unfolding seq_up.simps [of v step e] by simp
    qed
  qed (simp add: seq_up.simps [of v step e])
qed

lemma seq_down_eq: "0 < step \<Longrightarrow> seq_down w (- step) e = map uminus (seq_up (- w) step (- e))"
proof (induction "nat (w + 1 - e)" arbitrary: w rule: less_induct)
  case less
  have "seq_down (w - step) (- step) e = map uminus (seq_up (- (w - step)) step (- e))" if "e \<le> w"
    by (rule less) (use less.prems that in simp_all)
  then show ?case
    using less.prems by (simp add: seq_down.simps [of w "- step" e] seq_up.simps [of "- w" step "- e"])
qed

text \<open>\<open>seq\<close> with a positive step prints the arithmetic progression from the first number up to the last one,
  and nothing when the first number is larger; with a negative step it counts down.\<close>

theorem seq_progression:
  "0 < step \<Longrightarrow>
   seq_up v step e = (if v \<le> e then map (\<lambda>i. v + int i * step) [0..<nat ((e - v) div step) + 1] else []) \<and>
   seq_down w (- step) e = (if e \<le> w then map (\<lambda>i. w - int i * step) [0..<nat ((w - e) div step) + 1] else [])"
  using seq_up_eq [of step v e] seq_up_eq [of step "- w" "- e"] by (simp add: seq_down_eq del: upt_Suc)

section \<open>\<open>factor\<close>\<close>

definition is_prime :: "int \<Rightarrow> bool" where
  "is_prime p \<longleftrightarrow> 1 < p \<and> (\<forall>q. 1 < q \<longrightarrow> q < p \<longrightarrow> \<not> q dvd p)"

lemma divide_out_spec:
  assumes "2 \<le> d" and "1 \<le> n"
  shows "\<exists>k. fst (divide_out d n) = replicate k d \<and> n = d ^ k * snd (divide_out d n) \<and>
           \<not> d dvd snd (divide_out d n) \<and> 1 \<le> snd (divide_out d n)"
  using assms
proof (induction d n rule: divide_out.induct)
  case (1 d n)
  show ?case
  proof (cases "n mod d = 0")
    case True
    then have n: "n = d * (n div d)" by auto
    have q: "1 \<le> n div d"
    proof -
      have "0 < d * (n div d)" using n 1 by linarith
      then show ?thesis using 1 by (simp add: zero_less_mult_iff)
    qed
    obtain k where k: "fst (divide_out d (n div d)) = replicate k d"
        "n div d = d ^ k * snd (divide_out d (n div d))"
        "\<not> d dvd snd (divide_out d (n div d))" "1 \<le> snd (divide_out d (n div d))"
      using 1 True q by auto
    have "divide_out d n = (d # fst (divide_out d (n div d)), snd (divide_out d (n div d)))"
      using 1 True by (simp add: divide_out.simps [of d n] case_prod_unfold Let_def)
    then show ?thesis using k n by (intro exI [of _ "Suc k"]) (simp add: mult.assoc)
  next
    case False
    then show ?thesis
      using 1 by (intro exI [of _ 0]) (auto simp: divide_out.simps [of d n] mod_eq_0_iff_dvd)
  qed
qed

lemma least_divisor_prime:
  assumes "2 \<le> d" and "d dvd n" and "\<forall>q. 1 < q \<longrightarrow> q dvd n \<longrightarrow> d \<le> q"
  shows "is_prime d"
proof -
  have "\<not> q dvd d" if "1 < q" "q < d" for q
    using assms(3) that dvd_trans [of q d n] assms(2) by auto
  then show ?thesis using assms(1) by (simp add: is_prime_def)
qed

lemma large_divisors_prime:
  assumes "1 < n" and "n < d * d" and "2 \<le> d" and "\<forall>q. 1 < q \<longrightarrow> q dvd n \<longrightarrow> d \<le> (q :: int)"
  shows "is_prime n"
proof -
  have "\<not> q dvd n" if q: "1 < q" "q < n" for q
  proof
    assume "q dvd n"
    then obtain r where r: "n = q * r" by (rule dvdE)
    have "0 < q * r" "q * 1 < q * r" using r q assms(1) by auto
    then have "1 < r" using q by (simp add: mult_less_cancel_left_pos)
    then have "d \<le> q" "d \<le> r" using assms(4) r q by auto
    then have "d * d \<le> q * r" using assms(3) by (intro mult_mono) auto
    then show False using r assms(2) by linarith
  qed
  then show ?thesis using assms(1) by (simp add: is_prime_def)
qed

lemma factor_loop_spec:
  assumes "2 \<le> d" and "1 \<le> n" and "\<forall>q. 1 < q \<longrightarrow> q dvd n \<longrightarrow> d \<le> q"
  shows "prod_list (factor_loop d n) = n \<and> (\<forall>p \<in> set (factor_loop d n). is_prime p \<and> d \<le> p) \<and>
    sorted (factor_loop d n)"
  using assms
proof (induction d n rule: factor_loop.induct)
  case (1 d n)
  show ?case
  proof (cases "d * d \<le> n")
    case True
    obtain k where k: "fst (divide_out d n) = replicate k d" "n = d ^ k * snd (divide_out d n)"
        "\<not> d dvd snd (divide_out d n)" "1 \<le> snd (divide_out d n)"
      using divide_out_spec "1.prems"(1,2) by blast
    let ?m = "snd (divide_out d n)"
    have dv: "?m dvd n" using k(2) by (metis dvd_triv_right)
    have "\<forall>q. 1 < q \<longrightarrow> q dvd ?m \<longrightarrow> d + 1 \<le> q"
    proof (intro allI impI)
      fix q assume q: "1 < q" "q dvd ?m"
      then have "d \<le> q" "q \<noteq> d" using "1.prems"(3) dvd_trans [OF q(2) dv] k(3) by auto
      then show "d + 1 \<le> q" by simp
    qed
    then have ih: "prod_list (factor_loop (d + 1) ?m) = ?m"
        "\<forall>p \<in> set (factor_loop (d + 1) ?m). is_prime p \<and> d + 1 \<le> p" "sorted (factor_loop (d + 1) ?m)"
      using "1.IH" "1.prems"(1) True k(4) by auto
    have pr: "k > 0 \<longrightarrow> is_prime d"
      using least_divisor_prime "1.prems" k(2) by (metis dvd_mult2 dvd_power)
    have "factor_loop d n = replicate k d @ factor_loop (d + 1) ?m"
      using True "1.prems"(1) k(1) by (simp add: factor_loop.simps [of d n])
    moreover have "is_prime p" "d \<le> p" if "p \<in> set (factor_loop (d + 1) ?m)" for p
      using ih(2) that by force+
    ultimately show ?thesis using ih(1,3) pr k(2) by (auto simp: sorted_append prod_list_replicate)
  next
    case False
    then show ?thesis
      using large_divisors_prime [of n d] "1.prems" by (auto simp: factor_loop.simps [of d n])
  qed
qed

text \<open>C27: \<open>factor\<close> prints the prime factorisation: primes in ascending order whose product is the number.\<close>

theorem factor_primes:
  assumes "2 \<le> n"
  shows "prod_list (factor_loop 2 n) = n \<and> (\<forall>p \<in> set (factor_loop 2 n). is_prime p) \<and>
    sorted (factor_loop 2 n)"
  using factor_loop_spec [of 2 n] assms by auto

theorem zeller_calendar_witness: "zeller 2000 3 1 = (zeller 2000 2 29 + 1) mod 7"
  using zeller_calendar [of 2000 2 1] by (simp add: days_in_month_eq leap_def)

theorem date_weekday_wrong_witness:
  "zeller 2024 2 5 = (zeller 2024 1 5 + 3) mod 7"
  using date_weekday_wrong [of "\<lparr>year = 2024, month = 1, day = 5, hour = 0, minute = 0, second = 0\<rparr>"] by simp

theorem seq_progression_witness: "seq_up 1 3 8 = [1, 4, 7] \<and> seq_down 3 (- 1) 1 = [3, 2, 1]"
  using seq_progression [of 3 1 8] seq_progression [of 1 0 1 3] by (simp add: upt_rec)

theorem factor_primes_witness: "prod_list (factor_loop 2 360) = 360 \<and> sorted (factor_loop 2 360)"
  using factor_primes [of 360] by simp

end
