(* ===== verification/Boot_Props.thy ===== *)
theory Boot_Props
  imports Multiboot Kheap
begin

text \<open>
  The heap that the memory size leads to, and the memory size that boot finds: the map of the CD boot loader is read as it is meant to be, that of a
  Multiboot loader is not, and a corrupt entry size makes the kernel hang.
\<close>

section \<open>The heap and the memory\<close>

lemma kheap_total_nat:
  assumes "kb \<noteq> 0"
  shows "unat (total (kheap_init kb h)) =
    (if 32768 < unat kb then 16777216 else if 17408 < unat kb then (unat kb - 17408) * 1024 else 1048576)"
proof -
  have b: "unat kb < 2 ^ 32" using unsigned_less [of kb] by simp
  then have m: "unat ((ucast kb :: u64) * 1024) = unat kb * 1024"
    by (simp add: unat_word_ariths unsigned_ucast_eq take_bit_nat_eq_self)
  show ?thesis
    using assms by (auto simp: kheap_init_def Let_def HEAP_START_def HEAP_MAX_def word_less_nat_alt unat_sub_if' m)
qed

text \<open>C33: The heap never reaches beyond 32 MB; but it lies inside the memory of the machine only from 17 MB on:
  between 16 and 17 MB \<open>kheap_init\<close> still sets a heap of one megabyte, which begins at 16 MB.\<close>

theorem heap_within_memory:
  assumes "kb \<noteq> 0"
  shows "heap_end (kheap_init kb h) \<le> 33554432 \<and>
    (heap_end (kheap_init kb h) \<le> unat kb * 1024 \<longleftrightarrow> 17408 \<le> unat kb)"
  by (auto simp: heap_end_def HEAP_START_def kheap_total_nat [OF assms])

theorem heap_within_memory_witness:
  "let h = \<lparr>used = 0, total = 0, ram = \<lambda>a. NUL\<rparr> in
     heap_end (kheap_init 65536 h) \<le> 65536 * 1024 \<and> \<not> heap_end (kheap_init 17000 h) \<le> 17000 * 1024"
  unfolding Let_def
  using heap_within_memory [of 65536 "\<lparr>used = 0, total = 0, ram = \<lambda>a. NUL\<rparr>"]
    heap_within_memory [of 17000 "\<lparr>used = 0, total = 0, ram = \<lambda>a. NUL\<rparr>"] by simp

section \<open>The map of the CD boot loader\<close>

definition e820_tops :: "memory \<Rightarrow> u64 set" where
  "e820_tops mem = {base + len | base len.
     \<exists>i < min (unat (rd16 mem 0x5000)) 64. e820_entry mem i = (base, len, 1) \<and> base < 0x100000000}"

lemma usable_top_max:
  "usable_top base len type best =
     (if type = 1 \<and> base < 0x100000000 then max best (base + len) else best)"
  by (auto simp: usable_top_def Let_def max_def)

lemma fold_usable_top:
  "fold (\<lambda>i best. case e i of (base, len, type) \<Rightarrow> usable_top base len type best) [0..<n] 0 =
   Max (insert 0 {base + len | base len. \<exists>i < n. e i = (base, len, 1 :: u32) \<and> base < 0x100000000})"
  (is "?f n = Max (insert 0 (?S n))")
proof (induction n)
  case (Suc n)
  obtain base len type where e: "e n = (base, len, type)" by (cases "e n")
  have fin: "finite (?S n)"
  proof (rule finite_subset)
    show "?S n \<subseteq> (\<lambda>i. fst (e i) + fst (snd (e i))) ` {..<n}" by force
  qed simp
  have "?S (Suc n) = (if type = 1 \<and> base < 0x100000000 then insert (base + len) (?S n) else ?S n)"
    using e by (auto simp: less_Suc_eq)
  moreover have "Max (insert 0 (insert (base + len) (?S n))) = max (base + len) (Max (insert 0 (?S n)))"
    using fin by (subst insert_commute, subst Max_insert) auto
  ultimately show ?case
    using Suc e by (simp add: usable_top_max max.commute)
qed simp

text \<open>C34: booted from the CD, the kernel takes as memory size the largest end of a usable region that begins
  below 4 GB, among the first 64 entries, if that is above 16 MB, and keeps its default otherwise.\<close>

theorem e820_memory_size:
  "parse_e820_cd mem kb =
     (let top = Max (insert 0 (e820_tops mem))
      in if top > 16 * 1024 * 1024 then ucast (top div 1024) else kb)"
  by (simp only: parse_e820_cd_def Let_def set_total_def fold_usable_top e820_tops_def)

section \<open>The map of a Multiboot loader\<close>

definition mb1_flags :: "memory \<Rightarrow> u32 \<Rightarrow> u32" where
  "mb1_flags mem info = rd32 mem (ucast info)"

text \<open>The entries of the map: \<open>n\<close> entries of 24 bytes, whose size field does not count itself.\<close>

definition mb1_at :: "memory \<Rightarrow> u32 \<Rightarrow> nat \<Rightarrow> u64" where
  "mb1_at mem info i = ucast (rd32 mem (ucast info + 92) + of_nat (24 * i))"

lemma mb1_loop_ignores:
  assumes "24 * n < 2 ^ 32" and "i \<le> n"
    and "\<forall>i < n. rd32 mem (ucast (addr + of_nat (24 * i))) = 20 \<and>
           rd32 mem (ucast (addr + of_nat (24 * i)) + 28) \<noteq> 1"
  shows "mb1_loop mem addr (of_nat (24 * n)) (of_nat (24 * i)) best = Some best"
  using assms(2)
proof (induction "n - i" arbitrary: i)
  case 0
  then have "i = n" by simp
  then show ?case by (simp add: mb1_loop.simps)
next
  case (Suc k)
  then have i: "i < n" by simp
  have "(of_nat (24 * i) :: u32) < of_nat (24 * n)"
    using i assms(1) by (simp add: word_less_nat_alt unat_of_nat del: of_nat_mult)
  moreover have "(of_nat (24 * i) :: u32) + (20 + 4) = of_nat (24 * (i + 1))" by simp
  moreover have "mb1_loop mem addr (of_nat (24 * n)) (of_nat (24 * (i + 1))) best = Some best"
    using Suc by (intro Suc.hyps) auto
  ultimately show ?case
    using assms(3) i by (subst mb1_loop.simps) (simp add: Let_def usable_top_def add.commute del: of_nat_mult)
qed

text \<open>A Multiboot memory map is never used.  The code reads base, length and type at offsets 12, 20 and 28 of
  an entry, where the format has its length, its type, and the low half of the base of the next entry, so
  the type it finds is not 1, as bases are page addresses; the memory size remains that of the basic fields.\<close>

theorem mb1_map_ignored:
  assumes "24 * n < 2 ^ 32" and "rd32 mem (ucast info + 88) = of_nat (24 * n)"
    and "\<forall>i < n. rd32 mem (mb1_at mem info i) = 20 \<and> rd32 mem (mb1_at mem info i + 28) \<noteq> 1"
  shows "parse_mb1 mem info kb =
    Some (if mb1_flags mem info AND 1 \<noteq> 0 then rd32 mem (ucast info + 4) + rd32 mem (ucast info + 8) else kb)"
proof -
  have "mb1_loop mem (rd32 mem (ucast info + 92)) (of_nat (24 * n)) (of_nat (24 * 0)) 0 = Some 0"
    by (rule mb1_loop_ignores) (use assms in \<open>simp_all add: mb1_at_def\<close>)
  then show ?thesis using assms(2) by (simp add: parse_mb1_def Let_def mb1_flags_def set_total_def)
qed

theorem mb1_map_ignored_witness: "parse_mb1 (\<lambda>a. if a = 0 then 0x41 else 0) 0 32768 = Some 0"
  using mb1_map_ignored [of 0 "\<lambda>a. if a = 0 then 0x41 else 0" 0 32768]
  by (simp add: rd32_def rd16_def mb1_flags_def)

section \<open>Corrupt maps\<close>

lemma mb1_loop_hangs:
  assumes "mb1_loop mem addr len off best = Some r"
  shows "off < len \<longrightarrow> rd32 mem (ucast (addr + off)) \<noteq> 0xFFFFFFFC"
proof -
  have wrap: "(4294967296 :: u32) = 0" by simp
  show ?thesis by (rule mb1_loop.raw_induct [OF _ assms]) (auto simp: Let_def wrap)
qed

lemma mb2_entries_hangs:
  assumes "mb2_entries mem e esize elen off best = Some r"
  shows "esize = 0 \<longrightarrow> \<not> off \<le> elen"
  by (rule mb2_entries.raw_induct [OF _ assms]) (auto simp: Let_def)

text \<open>A corrupt entry size makes the kernel hang at boot: a size field of \<open>0xFFFFFFFC\<close> in the first entry of a
  Multiboot map, and an entry size of zero in a Multiboot 2 map.\<close>

theorem corrupt_map_hangs:
  "(mb1_flags mem info AND 0x40 \<noteq> 0 \<and> 0 < rd32 mem (ucast info + 88) \<and>
     rd32 mem (mb1_at mem info 0) = 0xFFFFFFFC \<longrightarrow> parse_mb1 mem info kb = None) \<and>
   (8 < rd32 mem (ucast info + 4) \<and>
     rd32 mem (ucast info + 8) = 6 \<and> rd32 mem (ucast info + 12) \<noteq> 0 \<and> rd32 mem (ucast info + 16) = 0 \<longrightarrow>
     parse_mb2 mem info kb = None)"
proof (intro conjI impI; elim conjE)
  assume a: "mb1_flags mem info AND 0x40 \<noteq> 0" "0 < rd32 mem (ucast info + 88)"
    "rd32 mem (mb1_at mem info 0) = 0xFFFFFFFC"
  then have "mb1_loop mem (rd32 mem (ucast info + 92)) (rd32 mem (ucast info + 88)) 0 0 = None"
    using mb1_loop_hangs [of mem _ _ 0 0] by (cases "mb1_loop mem (rd32 mem (ucast info + 92)) (rd32 mem (ucast info + 88)) 0 0")
      (auto simp: mb1_at_def)
  then show "parse_mb1 mem info kb = None" using a by (simp add: parse_mb1_def Let_def mb1_flags_def)
next
  assume a: "8 < rd32 mem (ucast info + 4)" "rd32 mem (ucast info + 8) = 6"
    "rd32 mem (ucast info + 12) \<noteq> 0" "rd32 mem (ucast info + 16) = 0"
  have lt: "(ucast info + 8 :: u64) < ucast info + ucast (rd32 mem (ucast info + 4))"
  proof -
    have b: "unat info < 2 ^ 32" "unat (rd32 mem (ucast info + 4)) < 2 ^ 32"
      using unsigned_less [of info] unsigned_less [of "rd32 mem (ucast info + 4)"] by simp_all
    show ?thesis using a(1) b by (simp add: word_less_nat_alt unat_word_ariths unsigned_ucast_eq take_bit_nat_eq_self)
  qed
  have e: "ucast info + 8 + 4 = (ucast info + 12 :: u64)" "ucast info + 8 + 8 = (ucast info + 16 :: u64)"
    "ucast info + 8 + 12 = (ucast info + 20 :: u64)" "ucast info + 8 + 16 = (ucast info + 24 :: u64)"
    by simp_all
  have "mb2_entries mem (ucast info + 24) 0 (rd32 mem (ucast info + 20)) 0 0 = None"
    using mb2_entries_hangs [of mem "ucast info + 24" 0 "rd32 mem (ucast info + 20)" 0 0]
    by (cases "mb2_entries mem (ucast info + 24) 0 (rd32 mem (ucast info + 20)) 0 0") auto
  then show "parse_mb2 mem info kb = None"
    unfolding parse_mb2_def mb2_tags.simps [of mem "ucast info + 8"] Let_def e using lt a by simp
qed

theorem corrupt_map_hangs_witness:
  "parse_mb2 (\<lambda>a. if a = 4 then 0x20 else if a = 8 then 6 else if a = 12 then 0x18 else 0) 0 32768 = None"
  using corrupt_map_hangs [of "\<lambda>a. if a = 4 then 0x20 else if a = 8 then 6 else if a = 12 then 0x18 else 0" 0 32768]
  by (simp add: rd32_def rd16_def)

end
