(* ===== verification/Shell_Inv.thy ===== *)
theory Shell_Inv
  imports Shell_Exec
begin

text \<open>
  The invariant of a session, and that every command keeps it.  The invariant covers the file system, the nodes
  that the redirections point to, the pipes, the history, the exit status and the screen.  What a command does is
  broken up along its definition by rules for \<open>keeps\<close>, one for each construct and each operation, so that the
  proof for a command is its definition and the rules.
\<close>

named_theorems keep_rules

section \<open>The invariant\<close>

text \<open>A redirection points to a file of the file system.\<close>

definition file_ref :: "shell \<Rightarrow> u64 option \<Rightarrow> bool" where
  "file_ref s r \<longleftrightarrow> (\<forall>f. r = Some f \<longrightarrow> nodes s f \<noteq> None \<and> is_file s f)"

definition shell_ok :: "shell \<Rightarrow> bool" where
  "shell_ok s \<longleftrightarrow>
     fs_ok s \<and> file_ref s (out_file s) \<and> file_ref s (in_file s) \<and>
     length (pbytes (pipe0 s)) \<le> PIPE_MAX \<and> length (pbytes (pipe1 s)) \<le> PIPE_MAX \<and>
     hist_count s \<le> HIST_MAX \<and> hist_pos s \<le> hist_count s \<and>
     0 \<le> last_exit s \<and> last_exit s < 256 \<and> length (shell_hostname s) < 32 \<and> on_screen (screen s)"

lemma shell_okD: "shell_ok s \<Longrightarrow> fs_ok s"
  by (simp add: shell_ok_def)

text \<open>What the operations of the file system leave alone: the fields of the shell, and the existence and the type
  of every node.\<close>

definition grows :: "shell \<Rightarrow> shell \<Rightarrow> bool" where
  "grows s s' \<longleftrightarrow> fs.more s' = fs.more s \<and>
     (\<forall>n. nodes s n \<noteq> None \<longrightarrow> nodes s' n \<noteq> None \<and> vtype (node s' n) = vtype (node s n))"

lemma grows_refl [simp]: "grows s s"
  by (simp add: grows_def)

lemma grows_trans: "grows s t \<Longrightarrow> grows t u \<Longrightarrow> grows s u"
  by (simp add: grows_def)

lemma grows_heap_step: "heap_step s s' \<Longrightarrow> grows s s'"
  by (auto simp: grows_def heap_step_frame heap_step_node)

lemma grows_file_step: "file_step s n d s' \<Longrightarrow> nodes s n \<noteq> None \<Longrightarrow> grows s s'"
  using file_step_frame(5,10,11) [of s n d s'] by (auto simp: grows_def)

lemma grows_shrunk: "shrunk s s' \<Longrightarrow> grows s s'"
  using shrunk_frame(5,6,9) [of s s'] by (auto simp: grows_def)

lemma grows_set_node:
  "grows s t \<Longrightarrow> (nodes t n \<noteq> None \<Longrightarrow> vtype v = vtype (node t n)) \<Longrightarrow> grows s (set_node n v t)"
  by (auto simp: grows_def)

lemma shell_more:
  assumes "fs.more s' = fs.more s"
  shows "out_file s' = out_file s" "in_file s' = in_file s" "pipe0 s' = pipe0 s" "pipe1 s' = pipe1 s"
    "history s' = history s" "hist_pos s' = hist_pos s" "last_exit s' = last_exit s"
    "shell_hostname s' = shell_hostname s" "screen s' = screen s"
  using assms by (cases s; cases s'; simp)+

lemma shell_ok_grows:
  assumes "shell_ok s" and "grows s s'" and "fs_ok s'"
  shows "shell_ok s'"
proof -
  have "fs.more s' = fs.more s" using assms(2) by (simp add: grows_def)
  note m = shell_more [OF this]
  have "file_ref s r \<Longrightarrow> file_ref s' r" for r using assms(2) by (auto simp: file_ref_def grows_def)
  then show ?thesis using assms(1,3) by (simp add: shell_ok_def m)
qed

text \<open>The fields that the invariant does not look at.\<close>

lemma fs_ok_more:
  "fs_ok (s\<lparr>screen := x\<rparr>) = fs_ok s" "fs_ok (s\<lparr>line_out := l\<rparr>) = fs_ok s" "fs_ok (s\<lparr>keys := k\<rparr>) = fs_ok s"
  "fs_ok (s\<lparr>out_file := f\<rparr>) = fs_ok s" "fs_ok (s\<lparr>out_append := a\<rparr>) = fs_ok s" "fs_ok (s\<lparr>in_file := f\<rparr>) = fs_ok s"
  "fs_ok (s\<lparr>in_off := i\<rparr>) = fs_ok s" "fs_ok (s\<lparr>pipe0 := p\<rparr>) = fs_ok s" "fs_ok (s\<lparr>pipe1 := p\<rparr>) = fs_ok s"
  "fs_ok (s\<lparr>pipe_in_off := i\<rparr>) = fs_ok s" "fs_ok (s\<lparr>pipe_writing := a\<rparr>) = fs_ok s"
  "fs_ok (s\<lparr>pipe_reader := w\<rparr>) = fs_ok s" "fs_ok (s\<lparr>pipe_writer := w\<rparr>) = fs_ok s"
  "fs_ok (s\<lparr>last_exit := c\<rparr>) = fs_ok s" "fs_ok (s\<lparr>history := h\<rparr>) = fs_ok s" "fs_ok (s\<lparr>hist_pos := i\<rparr>) = fs_ok s"
  "fs_ok (s\<lparr>shell_hostname := t\<rparr>) = fs_ok s" "fs_ok (s\<lparr>ticks := u\<rparr>) = fs_ok s" "fs_ok (s\<lparr>cmos_reads := i\<rparr>) = fs_ok s"
  by (simp_all add: fs_ok_def node_ok_def heap_ok_def frontier_def node_def)

lemma file_ref_more:
  "file_ref (s\<lparr>screen := x\<rparr>) = file_ref s" "file_ref (s\<lparr>line_out := l\<rparr>) = file_ref s"
  "file_ref (s\<lparr>keys := k\<rparr>) = file_ref s" "file_ref (s\<lparr>out_file := f\<rparr>) = file_ref s"
  "file_ref (s\<lparr>out_append := a\<rparr>) = file_ref s" "file_ref (s\<lparr>in_file := f\<rparr>) = file_ref s"
  "file_ref (s\<lparr>in_off := i\<rparr>) = file_ref s" "file_ref (s\<lparr>pipe0 := p\<rparr>) = file_ref s"
  "file_ref (s\<lparr>pipe1 := p\<rparr>) = file_ref s" "file_ref (s\<lparr>pipe_in_off := i\<rparr>) = file_ref s"
  "file_ref (s\<lparr>pipe_writing := a\<rparr>) = file_ref s"
  "file_ref (s\<lparr>pipe_reader := w\<rparr>) = file_ref s"
  "file_ref (s\<lparr>pipe_writer := w\<rparr>) = file_ref s"
  "file_ref (s\<lparr>last_exit := c\<rparr>) = file_ref s" "file_ref (s\<lparr>history := h\<rparr>) = file_ref s"
  "file_ref (s\<lparr>hist_pos := i\<rparr>) = file_ref s"
  "file_ref (s\<lparr>shell_hostname := t\<rparr>) = file_ref s" "file_ref (s\<lparr>ticks := u\<rparr>) = file_ref s"
  "file_ref (s\<lparr>cmos_reads := i\<rparr>) = file_ref s"
  by (simp_all add: fun_eq_iff file_ref_def node_def)

lemma shell_ok_more [simp]:
  "shell_ok (s\<lparr>line_out := l\<rparr>) = shell_ok s" "shell_ok (s\<lparr>keys := k\<rparr>) = shell_ok s"
  "shell_ok (s\<lparr>out_append := a\<rparr>) = shell_ok s" "shell_ok (s\<lparr>in_off := i\<rparr>) = shell_ok s"
  "shell_ok (s\<lparr>pipe_in_off := i\<rparr>) = shell_ok s" "shell_ok (s\<lparr>pipe_writing := a\<rparr>) = shell_ok s"
  "shell_ok (s\<lparr>pipe_reader := w\<rparr>) = shell_ok s" "shell_ok (s\<lparr>pipe_writer := w\<rparr>) = shell_ok s"
  "shell_ok (s\<lparr>ticks := u\<rparr>) = shell_ok s" "shell_ok (s\<lparr>cmos_reads := j\<rparr>) = shell_ok s"
  by (simp_all add: shell_ok_def fs_ok_more file_ref_more)

lemma shell_ok_set:
  "shell_ok s \<Longrightarrow> on_screen v \<Longrightarrow> shell_ok (s\<lparr>screen := v\<rparr>)"
  "shell_ok s \<Longrightarrow> file_ref s f \<Longrightarrow> shell_ok (s\<lparr>out_file := f\<rparr>)"
  "shell_ok s \<Longrightarrow> file_ref s f \<Longrightarrow> shell_ok (s\<lparr>in_file := f\<rparr>)"
  "shell_ok s \<Longrightarrow> i \<le> hist_count s \<Longrightarrow> shell_ok (s\<lparr>hist_pos := i\<rparr>)"
  "shell_ok s \<Longrightarrow> 0 \<le> c \<Longrightarrow> c < 256 \<Longrightarrow> shell_ok (s\<lparr>last_exit := c\<rparr>)"
  "shell_ok s \<Longrightarrow> length t < 32 \<Longrightarrow> shell_ok (s\<lparr>shell_hostname := t\<rparr>)"
  by (simp_all add: shell_ok_def fs_ok_more file_ref_more)

lemma shell_ok_put_pipe: "shell_ok s \<Longrightarrow> length (pbytes p) \<le> PIPE_MAX \<Longrightarrow> shell_ok (put_pipe w p s)"
  by (simp add: put_pipe_def shell_ok_def fs_ok_more file_ref_more)

lemma file_ref_None [simp]: "file_ref s None"
  by (simp add: file_ref_def)

section \<open>The operations of the file system\<close>

lemma file_ref_resolve: "fs_ok s \<Longrightarrow> vfs_resolve s p = Some n \<Longrightarrow> is_file s n \<Longrightarrow> file_ref s (Some n)"
  using vfs_resolve_valid [of s p n] by (auto simp: file_ref_def)

lemma file_ref_grows: "file_ref s r \<Longrightarrow> grows s s' \<Longrightarrow> file_ref s' r"
  by (auto simp: file_ref_def grows_def)

lemma grows_append:
  assumes "fs_ok s" and "file_ref s (Some f)" and "length d < 2 ^ 61"
  shows "grows s (snd (vfs_append_file (Some f) d s)) \<and> fs_ok (snd (vfs_append_file (Some f) d s))"
proof -
  obtain v where v: "nodes s f = Some v" "vtype v = FS_TYPE_FILE" using assms(2) by (auto simp: file_ref_def)
  obtain r s' where a: "vfs_append_file (Some f) d s = (r, s')" by (cases "vfs_append_file (Some f) d s")
  have n: "nodes s f \<noteq> None" using v by simp
  show ?thesis
    using vfs_append_file_cases [OF assms(1) v assms(3) a] a assms(1) fs_ok_file_step [OF assms(1) n]
      grows_file_step [OF _ n] by auto
qed

lemma grows_write:
  assumes "fs_ok s" and "file_ref s (Some f)" and "length d < 2 ^ 61"
  shows "grows s (snd (vfs_write_file (Some f) d s)) \<and> fs_ok (snd (vfs_write_file (Some f) d s))"
proof -
  obtain v where v: "nodes s f = Some v" "vtype v = FS_TYPE_FILE" using assms(2) by (auto simp: file_ref_def)
  obtain r s' where a: "vfs_write_file (Some f) d s = (r, s')" by (cases "vfs_write_file (Some f) d s")
  have n: "nodes s f \<noteq> None" using v by simp
  show ?thesis
    using vfs_write_file_cases [OF assms(1) v assms(3) a] a assms(1) fs_ok_file_step [OF assms(1) n]
      grows_file_step [OF _ n] by auto
qed

lemma grows_truncate:
  assumes "fs_ok s" and "file_ref s (Some f)"
  shows "grows s (vfs_truncate (Some f) s) \<and> fs_ok (vfs_truncate (Some f) s)"
proof -
  obtain v where v: "nodes s f = Some v" "vtype v = FS_TYPE_FILE" using assms(2) by (auto simp: file_ref_def)
  have n: "nodes s f \<noteq> None" using v by simp
  note st = vfs_truncate_step [OF assms(1) v]
  show ?thesis using fs_ok_file_step [OF assms(1) n st] grows_file_step [OF st n] by simp
qed

lemma grows_mk_entry:
  assumes ok: "fs_ok s" and mk: "mk_entry t p s = Some (r, s')"
  shows "grows s s' \<and> fs_ok s'"
proof -
  have "grows s s'"
    using mk_entry_cases [OF ok mk]
  proof (elim disjE exE conjE)
    fix d v nm n s1
    assume d: "nodes s d = Some v" "vtype v = FS_TYPE_DIR" and mn: "make_node t nm (Some d) s = (Some n, s1)"
      and ad: "add_child d n s1 = (r, s')"
    note m = make_node_Some [OF ok d mn]
    obtain s0 where s0: "heap_step s s0" "s1 = set_node n (blank_vnode t (take 63 nm) (Some d)) s0" using m(3) by blast
    have n0: "nodes s0 n = None" using m(2) s0(1) by (simp add: heap_step_frame)
    have g1: "grows s s1" unfolding s0(2) using n0 by (intro grows_set_node grows_heap_step [OF s0(1)]) simp
    have d1: "nodes s1 d = Some v" using s0 d m(2) by (auto simp: heap_step_frame)
    from add_child_cases [OF m(1) d1 d(2) ad] show ?thesis
    proof (elim disjE exE conjE)
      fix s2 k
      assume h: "heap_step s1 s2" and s': "s' = set_node d (v\<lparr>children := children v @ [n], child_cap := k\<rparr>) s2"
      have "nodes s2 d = Some v" using d1 h by (simp add: heap_step_frame)
      then show ?thesis
        unfolding s' by (intro grows_set_node grows_trans [OF g1 grows_heap_step [OF h]]) simp
    qed (use g1 in simp)
  qed simp
  then show ?thesis using fs_ok_mk_entry [OF ok mk] by simp
qed

lemma grows_rm: "fs_ok s \<Longrightarrow> vfs_rm p s = (r, s') \<Longrightarrow> grows s s' \<and> fs_ok s'"
  using fs_ok_vfs_rm [of s p] grows_shrunk [of s "snd (vfs_rm p s)"] by simp

lemma grows_rm_recursive: "fs_ok s \<Longrightarrow> vfs_rm_recursive p s = Some (r, s') \<Longrightarrow> grows s s' \<and> fs_ok s'"
  using rm_recursive_cases [of s p] grows_shrunk [of s s'] by (auto simp: removed_def)

lemma grows_kmalloc: "fs_ok s \<Longrightarrow> unat n < 2 ^ 63 \<Longrightarrow> kmalloc n s = (p, s') \<Longrightarrow> grows s s' \<and> fs_ok s'"
  using kmalloc_heap_step(1) [of s n p s'] kmalloc_None [of n s s'] fs_ok_heap_step [of s s'] grows_heap_step [of s s']
    fs_okD(1) [of s] by (cases p) auto

lemma grows_chdir:
  assumes "fs_ok s" and "vfs_resolve s p = Some n" and "is_dir s n" and "vfs_update_pwd (s\<lparr>vfs_cwd := n\<rparr>) = Some s'"
  shows "grows s s' \<and> fs_ok s'"
proof -
  obtain v where v: "nodes s n = Some v" using vfs_resolve_valid [OF assms(1,2)] by blast
  have "\<exists>t. s' = s\<lparr>vfs_cwd := n, vfs_pwd := t\<rparr>"
    using assms(4) by (auto simp: vfs_update_pwd_def Let_def split: if_splits)
  then have "grows s s'" by (auto simp: grows_def node_def)
  then show ?thesis using fs_ok_chdir [OF assms(1) v _ assms(4)] assms(3) v by simp
qed

lemma content_bound: "fs_ok s \<Longrightarrow> file_ref s (Some f) \<Longrightarrow> length (content (node s f)) \<le> 16777216"
  using file_node [of s f] length_content [of "node s f"] by (fastforce simp: file_ref_def)

section \<open>Rules\<close>

text \<open>\<open>keeps I g m\<close>: a result of \<open>m\<close>, where there is one, holds a state that satisfies \<open>I\<close>; \<open>g\<close> selects it.\<close>

definition keeps :: "('s \<Rightarrow> bool) \<Rightarrow> ('a \<Rightarrow> 's) \<Rightarrow> 'a option \<Rightarrow> bool" where
  "keeps I g m \<longleftrightarrow> (\<forall>x. m = Some x \<longrightarrow> I (g x))"

abbreviation keep :: "shell option \<Rightarrow> bool" where "keep \<equiv> keeps shell_ok (\<lambda>s. s)"
abbreviation keep2 :: "('a \<times> shell) option \<Rightarrow> bool" where "keep2 \<equiv> keeps shell_ok snd"

lemma keeps_Some: "I (g x) \<Longrightarrow> keeps I g (Some x)"
  by (simp add: keeps_def)

lemma keeps_None: "keeps I g None"
  by (simp add: keeps_def)

lemma keeps_bind: "keeps I (\<lambda>s. s) m \<Longrightarrow> (\<And>s. I s \<Longrightarrow> keeps I g (f s)) \<Longrightarrow> keeps I g (m \<bind> f)"
  by (cases m) (simp_all add: keeps_def)

lemma keeps_bind2: "keeps I snd m \<Longrightarrow> (\<And>a s. I s \<Longrightarrow> keeps I g (f (a, s))) \<Longrightarrow> keeps I g (m \<bind> f)"
  by (cases m) (auto simp: keeps_def)

text \<open>A step that does not touch the state.\<close>

lemma keeps_pure: "(\<And>x. m = Some x \<Longrightarrow> keeps I g (f x)) \<Longrightarrow> keeps I g (m \<bind> f)"
  by (cases m) (auto simp: keeps_def)

lemma keeps_if: "(c \<Longrightarrow> keeps I g x) \<Longrightarrow> (\<not> c \<Longrightarrow> keeps I g y) \<Longrightarrow> keeps I g (if c then x else y)"
  by simp

lemma keeps_option:
  "(x = None \<Longrightarrow> keeps I g m) \<Longrightarrow> (\<And>a. x = Some a \<Longrightarrow> keeps I g (f a)) \<Longrightarrow> keeps I g (case x of None \<Rightarrow> m | Some a \<Rightarrow> f a)"
  by (cases x) auto

lemma keeps_list:
  "(x = [] \<Longrightarrow> keeps I g m) \<Longrightarrow> (\<And>a l. x = a # l \<Longrightarrow> keeps I g (f a l)) \<Longrightarrow>
   keeps I g (case x of [] \<Rightarrow> m | a # l \<Rightarrow> f a l)"
  by (cases x) auto

lemma keeps_pair: "keeps I g (f a b) \<Longrightarrow> keeps I g (case (a, b) of (x, y) \<Rightarrow> f x y)"
  by simp

lemma keeps_prod: "(\<And>a b. x = (a, b) \<Longrightarrow> keeps I g (f a b)) \<Longrightarrow> keeps I g (case x of (a, b) \<Rightarrow> f a b)"
  by (cases x) simp

lemma keeps_prod_state: "(\<And>a b. x = (a, b) \<Longrightarrow> keeps I g (f a b s)) \<Longrightarrow> keeps I g ((case x of (a, b) \<Rightarrow> f a b) s)"
  by (cases x) simp

lemma keeps_Let: "keeps I g (f t) \<Longrightarrow> keeps I g (let x = t in f x)"
  by simp

lemma keeps_for_each:
  "I s \<Longrightarrow> (\<And>x s. x \<in> set xs \<Longrightarrow> I s \<Longrightarrow> keeps I (\<lambda>s. s) (f x s)) \<Longrightarrow> keeps I (\<lambda>s. s) (for_each f xs s)"
proof (induction xs arbitrary: s)
  case (Cons x xs)
  then show ?case by (auto intro!: keeps_bind)
qed (simp add: keeps_def)

lemma keeps_for_each_rc:
  "I s \<Longrightarrow> (\<And>x s. x \<in> set xs \<Longrightarrow> I s \<Longrightarrow> keeps I snd (f x s)) \<Longrightarrow> keeps I snd (for_each_rc f xs rc s)"
proof (induction xs arbitrary: s rc)
  case (Cons x xs)
  then show ?case by (auto intro!: keeps_bind2)
qed (simp add: keeps_def)

lemmas keep_control = keeps_pair keeps_if keeps_option keeps_list keeps_prod keeps_prod_state keeps_Let keeps_None
  keeps_Some keeps_for_each keeps_for_each_rc

section \<open>Output\<close>

lemma keep_out_raw: "shell_ok s \<Longrightarrow> keep (out_raw c s)"
proof -
  assume ok: "shell_ok s"
  note o = ok [unfolded shell_ok_def]
  show ?thesis
  proof (cases "out_file s")
    case None
    have "length (pbytes (get_pipe w s)) \<le> PIPE_MAX" for w using o by (simp add: get_pipe_def)
    then show ?thesis
      using ok None o
      by (auto simp: out_raw_def pipe_writer_add_def console_putc_def Let_def keeps_def not_le Suc_le_eq
          intro!: shell_ok_put_pipe shell_ok_set(1) on_screen_putchar split: option.splits if_splits)
  next
    case (Some f)
    have "grows s (snd (vfs_append_file (Some f) [c] s)) \<and> fs_ok (snd (vfs_append_file (Some f) [c] s))"
      by (rule grows_append) (use o Some in simp_all)
    then show ?thesis using shell_ok_grows [OF ok] Some by (simp add: out_raw_def keeps_def)
  qed
qed

lemma keep_out_all: "shell_ok s \<Longrightarrow> keep (out_all t s)"
proof (induction t arbitrary: s)
  case (Cons c t)
  then show ?case by (auto intro!: keeps_bind keep_out_raw)
qed (simp add: keeps_def)

lemma keep_output [keep_rules]:
  "shell_ok s \<Longrightarrow> keep (sh_putc c s)" "shell_ok s \<Longrightarrow> keep (sh_puts t s)" "shell_ok s \<Longrightarrow> keep (sh_write t s)"
  by (simp_all add: sh_putc_def sh_puts_def sh_write_def keep_out_raw keep_out_all)

lemma keep_sh_printf [keep_rules]: "shell_ok s \<Longrightarrow> keep (sh_printf fmt as s)"
  unfolding sh_printf_def by (intro keeps_pure keep_out_all)

lemma keep_put_line [keep_rules]: "shell_ok s \<Longrightarrow> keep (put_line l s)"
  unfolding put_line_def by (intro keeps_bind keep_output)

lemma keep_complain [keep_rules]: "shell_ok s \<Longrightarrow> keep2 (complain rc fmt as s)"
  unfolding complain_def by (rule keeps_bind [OF keep_sh_printf]) (simp_all add: keeps_def)

section \<open>Input\<close>

lemma keep_sh_getc [keep_rules]: "shell_ok s \<Longrightarrow> keep2 (sh_getc s)"
  by (auto simp: keeps_def sh_getc_def next_key_def split: option.splits if_splits list.splits bind_splits)

text \<open>The buffer for standard input never outgrows the heap.\<close>

definition buf_ok :: "buffer \<Rightarrow> bool" where
  "buf_ok b \<longleftrightarrow> length (bdata b) \<le> bcap b \<and> bcap b \<le> 16777216"

lemma keep_buf_putc:
  assumes "shell_ok s" and "buf_ok b"
  shows "shell_ok (snd (buf_putc c b s)) \<and> buf_ok (fst (buf_putc c b s))"
proof (cases "length (bdata b) + 1 \<ge> bcap b")
  case False
  then show ?thesis using assms by (simp add: buf_putc_def buf_ok_def)
next
  case True
  define nc where "nc = (if bcap b \<noteq> 0 then bcap b * 2 else 256)"
  have nc: "nc \<le> 33554432" "length (bdata b) < nc" using assms(2) by (auto simp: nc_def buf_ok_def)
  then have u: "unat (of_nat nc :: u64) = nc" by (simp add: unat_of_nat)
  have small: "unat (of_nat nc :: u64) < 2 ^ 63" using u nc by simp
  obtain p s' where k: "kmalloc (of_nat nc) s = (p, s')" by (cases "kmalloc (of_nat nc :: u64) s")
  have ok': "shell_ok s'"
    using grows_kmalloc [OF shell_okD [OF assms(1)] small k] shell_ok_grows [OF assms(1)] by simp
  have b: "buf_putc c b s = (case p of None \<Rightarrow> (b, s') | Some nb \<Rightarrow> (\<lparr>bdata = bdata b @ [c], bcap = nc\<rparr>, s'))"
    using True k by (cases p) (auto simp: buf_putc_def nc_def)
  show ?thesis
  proof (cases p)
    case None
    then show ?thesis using b ok' assms(2) by simp
  next
    case (Some q)
    have "heap_ok s" using fs_okD(1) [OF shell_okD [OF assms(1)]] .
    from kmalloc_Some(2,3) [OF this small k [unfolded Some]] have "nc \<le> 16777216"
      using fs_okD(1) [OF shell_okD [OF ok']] up16_ge [of nc] u
      by (simp add: frontier_def heap_end_def heap_ok_def)
    then show ?thesis using b ok' Some nc by (simp add: buf_ok_def)
  qed
qed

lemma keep_read_stdin_loop:
  "read_stdin_loop b s = Some r \<Longrightarrow> shell_ok s \<and> buf_ok b \<longrightarrow> shell_ok (snd r) \<and> buf_ok (fst r)"
proof (rule read_stdin_loop.raw_induct [of "\<lambda>b s r. shell_ok s \<and> buf_ok b \<longrightarrow> shell_ok (snd r) \<and> buf_ok (fst r)"])
  fix loop b s r
  assume ih: "\<And>b s r. loop b s = Some r \<Longrightarrow> shell_ok s \<and> buf_ok b \<longrightarrow> shell_ok (snd r) \<and> buf_ok (fst r)"
    and st: "sh_getc s \<bind> (\<lambda>(c, s). if c < 0 then Some (b, s)
      else let (b, s) = buf_putc (to_char c) b s in loop b s) = Some r"
  obtain c s1 where g: "sh_getc s = Some (c, s1)" using st by (auto split: bind_splits)
  show "shell_ok s \<and> buf_ok b \<longrightarrow> shell_ok (snd r) \<and> buf_ok (fst r)"
  proof
    assume a: "shell_ok s \<and> buf_ok b"
    have s1: "shell_ok s1" using keep_sh_getc [of s] a g by (simp add: keeps_def)
    show "shell_ok (snd r) \<and> buf_ok (fst r)"
    proof (cases "c < 0")
      case True
      then show ?thesis using st g s1 a by auto
    next
      case False
      obtain b1 s2 where b: "buf_putc (to_char c) b s1 = (b1, s2)" by (cases "buf_putc (to_char c) b s1")
      then show ?thesis using st g False ih [of b1 s2 r] keep_buf_putc [OF s1, of b "to_char c"] a by simp
    qed
  qed
qed

lemma read_all_stdin_ok:
  assumes "shell_ok s" and "read_all_stdin s = Some (d, s')"
  shows "shell_ok s' \<and> (\<forall>t. d = Some t \<longrightarrow> length t \<le> 16777216)"
proof -
  obtain b where b: "read_stdin_loop buf_init s = Some (b, s')" "d = (if bcap b = 0 then None else Some (bdata b))"
    using assms(2) by (auto simp: read_all_stdin_def split: bind_splits)
  from keep_read_stdin_loop [OF b(1)] show ?thesis
    using assms(1) b(2) by (auto simp: buf_ok_def buf_init_def)
qed

lemma keeps_read_all_stdin:
  assumes "shell_ok s" and "\<And>s'. shell_ok s' \<Longrightarrow> keeps shell_ok g (f (None, s'))"
    and "\<And>t s'. length t \<le> 16777216 \<Longrightarrow> shell_ok s' \<Longrightarrow> keeps shell_ok g (f (Some t, s'))"
  shows "keeps shell_ok g (read_all_stdin s \<bind> f)"
proof (rule keeps_pure)
  fix x assume "read_all_stdin s = Some x"
  then show "keeps shell_ok g (f x)" using read_all_stdin_ok [OF assms(1)] assms(2,3) by (cases x; cases "fst x") auto
qed

end
