(* ===== verification/Cmd_Inv.thy ===== *)
theory Cmd_Inv
  imports Shell_Inv
begin

text \<open>
  Every command of \<open>src/cmds.c\<close> keeps the invariant of the session.
\<close>

section \<open>Files and lines\<close>

lemma keeps_open_input:
  assumes ok: "shell_ok s" and "\<And>s'. shell_ok s' \<Longrightarrow> keeps shell_ok g (f (None, s'))"
    and "\<And>t s'. length t \<le> 16777216 \<Longrightarrow> shell_ok s' \<Longrightarrow> keeps shell_ok g (f (Some t, s'))"
  shows "keeps shell_ok g (open_input p s \<bind> f)"
proof (rule keeps_pure)
  fix x assume x: "open_input p s = Some x"
  have "shell_ok (snd x) \<and> (\<forall>t. fst x = Some t \<longrightarrow> length t \<le> 16777216)"
  proof (cases p)
    case None
    then show ?thesis
      using x read_all_stdin_ok [OF ok] by (auto simp: open_input_def split: bind_splits option.splits)
  next
    case (Some q)
    show ?thesis
    proof (cases "\<exists>n. vfs_resolve s (Some q) = Some n \<and> is_file s n")
      case True
      then obtain n where n: "vfs_resolve s (Some q) = Some n" "is_file s n" by blast
      then show ?thesis
        using x Some ok content_bound [OF shell_okD [OF ok] file_ref_resolve [OF shell_okD [OF ok] n]]
        by (auto simp: open_input_def)
    next
      case False
      then show ?thesis using x Some keep_sh_printf [OF ok]
        by (auto simp: open_input_def keeps_def split: option.splits bind_splits if_splits)
    qed
  qed
  then show "keeps shell_ok g (f x)" using assms(2,3) by (cases x; cases "fst x") auto
qed

lemma keep_kmalloc: "shell_ok s \<Longrightarrow> n < 2 ^ 63 \<Longrightarrow> kmalloc (of_nat n) s = (p, s') \<Longrightarrow> shell_ok s'"
proof -
  assume a: "shell_ok s" "n < 2 ^ 63" "kmalloc (of_nat n) s = (p, s')"
  then have "unat (of_nat n :: u64) < 2 ^ 63" by (simp add: unat_of_nat)
  from grows_kmalloc [OF shell_okD [OF a(1)] this a(3)] show "shell_ok s'" using shell_ok_grows a(1) by blast
qed

lemma keep_must_alloc: "shell_ok s \<Longrightarrow> n < 2 ^ 63 \<Longrightarrow> keep (must_alloc n s)"
  using keep_kmalloc [of s n] by (auto simp: must_alloc_def keeps_def split: prod.splits option.splits)

lemma keep_split_scan: "shell_ok s \<Longrightarrow> length cur + length d < 2 ^ 62 \<Longrightarrow> keep2 (split_scan cur d s)"
proof (induction cur d s rule: split_scan.induct)
  case (1 cur s)
  show ?case
    unfolding split_scan.simps
    by (intro keeps_if keeps_bind [OF keep_must_alloc] keeps_Some) (use 1 in simp_all)
next
  case (2 cur c d s)
  show ?case
  proof (cases "c = LF")
    case True
    have "keep2 (do { h \<leftarrow> must_alloc (length cur + 1) s; (ls, h) \<leftarrow> split_scan [] d h; Some (cstr cur # ls, h) })"
    proof (rule keeps_pure)
      fix h :: shell assume h: "must_alloc (length cur + 1) s = Some h"
      then have "shell_ok h" using keep_must_alloc [of s "length cur + 1"] 2(3,4) by (simp add: keeps_def)
      then have "keep2 (split_scan [] d h)" using "2.IH"(1) [OF True h] 2(4) by simp
      then show "keep2 (do { (ls, h) \<leftarrow> split_scan [] d h; Some (cstr cur # ls, h) })"
        by (auto simp: keeps_def split: bind_splits)
    qed
    then show ?thesis using True by simp
  next
    case False
    then show ?thesis using "2.IH"(2) [OF False 2(3)] 2(4) by simp
  qed
qed

lemma keep_split_lines: "shell_ok s \<Longrightarrow> length d \<le> 16777216 \<Longrightarrow> keep2 (split_lines d s)"
proof (cases "d = []")
  case True
  assume "shell_ok s"
  then have "shell_ok (snd (kmalloc 8 s))"
    using keep_kmalloc [of s 8 "fst (kmalloc 8 s)" "snd (kmalloc 8 s)"] by simp
  then show ?thesis using True by (simp add: split_lines_def keeps_def)
next
  case False
  assume a: "shell_ok s" "length d \<le> 16777216"
  have c: "count_lines d \<le> length d + 1" using count_le_length [of d LF] by (simp add: count_lines_def)
  show ?thesis
    unfolding split_lines_def if_not_P [OF False]
    by (rule keeps_bind [OF keep_must_alloc [OF a(1)] keep_split_scan]) (use a c in simp_all)
qed

lemma length_lines_of: "length (lines_of cur d) \<le> length d + (if cur = [] then 0 else 1)"
  by (induction cur d rule: lines_of.induct) auto

lemma split_lines_short: "split_lines d s = Some (ls, s') \<Longrightarrow> length ls \<le> length d"
  using split_lines_text [of d s ls s'] length_lines_of [of "[]" d] by (simp add: text_lines_def)

lemma keeps_split_lines:
  assumes "shell_ok s" and "length d \<le> 16777216"
    and "\<And>ls s'. length ls \<le> 16777216 \<Longrightarrow> shell_ok s' \<Longrightarrow> keeps shell_ok g (f (ls, s'))"
  shows "keeps shell_ok g (split_lines d s \<bind> f)"
proof (rule keeps_pure)
  fix x assume x: "split_lines d s = Some x"
  obtain ls s' where ls: "x = (ls, s')" by (cases x)
  have "shell_ok s'" using keep_split_lines [OF assms(1,2)] x ls by (simp add: keeps_def)
  moreover have "length ls \<le> 16777216" using split_lines_short [of d s ls s'] x ls assms(2) by simp
  ultimately show "keeps shell_ok g (f x)" unfolding ls by (rule assms(3) [rotated])
qed

section \<open>Steps of the file system\<close>

lemma keep_mk_entry: "shell_ok s \<Longrightarrow> keep2 (mk_entry t p s)"
  using grows_mk_entry [OF shell_okD] shell_ok_grows by (fastforce simp: keeps_def)

lemma keep_create [keep_rules]: "shell_ok s \<Longrightarrow> keep2 (vfs_mkdir p s)" "shell_ok s \<Longrightarrow> keep2 (vfs_mkfile p s)"
  by (simp_all add: vfs_mkdir_def vfs_mkfile_def keep_mk_entry)

lemma keep_vfs_rm: "shell_ok s \<Longrightarrow> vfs_rm p s = (r, s') \<Longrightarrow> shell_ok s'"
  using grows_rm [OF shell_okD] shell_ok_grows by blast

lemma keep_rm_recursive [keep_rules]: "shell_ok s \<Longrightarrow> keep2 (vfs_rm_recursive p s)"
  using grows_rm_recursive [OF shell_okD] shell_ok_grows by (fastforce simp: keeps_def)

lemma shell_ok_rm: "shell_ok s \<Longrightarrow> shell_ok (snd (vfs_rm p s))"
  using keep_vfs_rm [of s p "fst (vfs_rm p s)" "snd (vfs_rm p s)"] by simp

lemma keep_chdir:
  "shell_ok s \<Longrightarrow> vfs_resolve s p = Some n \<Longrightarrow> is_dir s n \<Longrightarrow> keep (vfs_update_pwd (s\<lparr>vfs_cwd := n\<rparr>))"
  using grows_chdir [OF shell_okD] shell_ok_grows by (fastforce simp: keeps_def)

lemma keep_read_clock [keep_rules]: "shell_ok s \<Longrightarrow> keep2 (read_clock s)"
  unfolding read_clock_def by (rule keeps_pure) (auto simp: keeps_def)

lemma keep_mk_grows: "fs_ok s \<Longrightarrow> vfs_mkfile p s = Some (r, s') \<Longrightarrow> grows s s'"
  using grows_mk_entry [of s FS_TYPE_FILE p r s'] by (simp add: vfs_mkfile_def)

section \<open>The commands\<close>

text \<open>The steps along a definition: the operations of a command, the control structure, and the state at its end.\<close>

lemmas keep_steps = keeps_open_input keeps_split_lines keep_control keeps_bind keeps_bind2 keeps_pure

text \<open>Commands that print only.\<close>

lemma keep_printing [keep_rules]:
  "shell_ok s \<Longrightarrow> keep2 (cmd_pwd a s)"
  "shell_ok s \<Longrightarrow> keep2 (cmd_help a s)"
  "shell_ok s \<Longrightarrow> keep2 (cmd_lscpu a s)"
  "shell_ok s \<Longrightarrow> keep2 (cmd_whoami a s)"
  "shell_ok s \<Longrightarrow> keep2 (cmd_id a s)"
  "shell_ok s \<Longrightarrow> keep2 (cmd_true a s)"
  "shell_ok s \<Longrightarrow> keep2 (cmd_false a s)"
  "shell_ok s \<Longrightarrow> keep2 (cmd_free a s)"
  "shell_ok s \<Longrightarrow> keep2 (cmd_uname a s)"
  "shell_ok s \<Longrightarrow> keep2 (cmd_history a s)"
  "shell_ok s \<Longrightarrow> keep2 (cmd_df a s)"
  "shell_ok s \<Longrightarrow> keep2 (cmd_echo a s)"
  "shell_ok s \<Longrightarrow> keep2 (cmd_printf a s)"
  "shell_ok s \<Longrightarrow> keep2 (cmd_basename a s)"
  "shell_ok s \<Longrightarrow> keep2 (cmd_dirname a s)"
  "shell_ok s \<Longrightarrow> keep2 (cmd_stat a s)"
  "shell_ok s \<Longrightarrow> keep2 (cmd_test a s)"
  unfolding cmd_pwd_def cmd_help_def cmd_lscpu_def cmd_whoami_def cmd_id_def cmd_true_def cmd_false_def
    cmd_free_def cmd_uname_def cmd_history_def cmd_df_def cmd_echo_def cmd_printf_def
    cmd_basename_def cmd_dirname_def cmd_stat_def cmd_test_def Let_def
  by (rule keep_rules keep_steps | assumption | simp)+

lemma keep_numbers [keep_rules]:
  "shell_ok s \<Longrightarrow> keep2 (cmd_seq a s)"
  "shell_ok s \<Longrightarrow> keep2 (cmd_factor a s)"
  "shell_ok s \<Longrightarrow> keep2 (cmd_uptime a s)"
  "shell_ok s \<Longrightarrow> keep2 (cmd_sleep a s)"
  "shell_ok s \<Longrightarrow> keep2 (cmd_date a s)"
  "shell_ok s \<Longrightarrow> keep2 (cmd_cal a s)"
  "shell_ok s \<Longrightarrow> keep2 (cmd_du a s)"
  unfolding cmd_seq_def cmd_factor_def cmd_uptime_def cmd_sleep_def cmd_date_def cmd_cal_def cmd_du_def cal_days_def Let_def
  by (rule keep_rules keep_steps | assumption | simp)+

lemma keep_text_commands [keep_rules]:
  "shell_ok s \<Longrightarrow> keep2 (cmd_cat a s)"
  "shell_ok s \<Longrightarrow> keep2 (cmd_head a s)"
  "shell_ok s \<Longrightarrow> keep2 (cmd_tail a s)"
  "shell_ok s \<Longrightarrow> keep2 (cmd_wc a s)"
  "shell_ok s \<Longrightarrow> keep2 (cmd_grep a s)"
  "shell_ok s \<Longrightarrow> keep2 (cmd_sort a s)"
  "shell_ok s \<Longrightarrow> keep2 (cmd_uniq a s)"
  "shell_ok s \<Longrightarrow> keep2 (cmd_rev a s)"
  "shell_ok s \<Longrightarrow> keep2 (cmd_nl a s)"
  unfolding cmd_cat_def cmd_head_def cmd_tail_def cmd_wc_def cmd_grep_def cmd_sort_def cmd_uniq_def cmd_rev_def
    cmd_nl_def Let_def
  by (rule keeps_read_all_stdin keep_rules keep_steps | assumption | simp)+

text \<open>Listings, creation and removal.\<close>

lemma keep_print_entry [keep_rules]: "shell_ok s \<Longrightarrow> keep (print_entry l n s)"
  unfolding print_entry_def by (rule keep_rules keep_steps | assumption | simp)+

lemma keep_ls_dir [keep_rules]: "shell_ok s \<Longrightarrow> keep (ls_dir l al n s)"
  unfolding ls_dir_def by (rule keep_rules keep_steps | assumption | simp only:)+

lemma keep_listing [keep_rules]:
  "shell_ok s \<Longrightarrow> keep2 (cmd_ls a s)"
  unfolding cmd_ls_def Let_def
  by (rule keep_rules keep_steps | assumption | simp)+

lemma keep_ls_alias [keep_rules]: "shell_ok s \<Longrightarrow> keep2 (cmd_dir a s)" "shell_ok s \<Longrightarrow> keep2 (cmd_ll a s)"
  unfolding cmd_dir_def cmd_ll_def
  by (rule keep_rules keep_steps | assumption)+

lemma keep_creation [keep_rules]:
  "shell_ok s \<Longrightarrow> keep2 (cmd_mkdir a s)"
  "shell_ok s \<Longrightarrow> keep2 (cmd_touch a s)"
  unfolding cmd_mkdir_def cmd_touch_def Let_def
  by (rule keep_rules keep_steps | assumption | simp)+

lemma keep_removal [keep_rules]:
  "shell_ok s \<Longrightarrow> keep2 (cmd_rm a s)"
  "shell_ok s \<Longrightarrow> keep2 (cmd_rmdir a s)"
  unfolding cmd_rm_def cmd_rmdir_def Let_def
  by (rule keep_rules keep_steps | assumption | erule (1) keep_vfs_rm | simp add: shell_ok_rm)+

lemma keep_cd [keep_rules]: "shell_ok s \<Longrightarrow> keep2 (cmd_cd a s)"
  unfolding cmd_cd_def Let_def
  by (rule keep_chdir keep_rules keep_steps | assumption | simp)+

lemma shell_ok_screen:
  "shell_ok s \<Longrightarrow> shell_ok (s\<lparr>screen := vga_clear (screen s)\<rparr>)"
  "shell_ok s \<Longrightarrow> shell_ok (s\<lparr>screen := vga_setcolor fg bg (screen s)\<rparr>)"
  by (rule shell_ok_set; simp add: shell_ok_def on_screen_def vga_clear_eq vga_setcolor_def)+

lemma keep_screen [keep_rules]:
  "shell_ok s \<Longrightarrow> keep2 (cmd_clear a s)"
  "shell_ok s \<Longrightarrow> keep2 (cmd_about a s)"
  unfolding cmd_clear_def cmd_about_def Let_def
  by (rule keep_rules keep_steps | assumption | simp add: shell_ok_screen)+

lemma keep_hostname [keep_rules]: "shell_ok s \<Longrightarrow> keep2 (cmd_hostname a s)"
  unfolding cmd_hostname_def
  by (rule keep_rules keep_steps | assumption | simp add: shell_ok_set)+

lemma keeps_kmalloc:
  "shell_ok s \<Longrightarrow> n < 2 ^ 63 \<Longrightarrow> (\<And>p s'. shell_ok s' \<Longrightarrow> keeps shell_ok g (f p s')) \<Longrightarrow>
   keeps shell_ok g (case kmalloc (of_nat n) s of (p, s') \<Rightarrow> f p s')"
  using keep_kmalloc [of s n] by (cases "kmalloc (of_nat n :: u64) s") auto

lemma diff_table_size: "i \<le> 16777216 \<Longrightarrow> j \<le> 16777216 \<Longrightarrow> 2 * (i + 1) * (j + 1) < (2::nat) ^ 63"
proof -
  assume "i \<le> 16777216" "j \<le> 16777216"
  then have "(2 * (i + 1)) * (j + 1) \<le> (2 * 16777217) * 16777217" by (intro mult_le_mono) simp_all
  then show ?thesis by simp
qed

lemma keep_diff [keep_rules]: "shell_ok s \<Longrightarrow> keep2 (cmd_diff a s)"
  unfolding cmd_diff_def Let_def
  by (rule keep_rules keeps_kmalloc diff_table_size keep_steps | assumption | simp only: prod.case option.case snd_conv option.inject option.distinct)+

text \<open>Copies.  The node that is copied to is a file, and the content fits.\<close>

definition made :: "shell \<Rightarrow> u64 option \<times> shell \<Rightarrow> bool" where
  "made s r \<longleftrightarrow> shell_ok (snd r) \<and> grows s (snd r) \<and>
     (\<forall>n. fst r = Some n \<longrightarrow> is_file (snd r) n \<longrightarrow> file_ref (snd r) (Some n))"

lemma made_here: "shell_ok s \<Longrightarrow> vfs_resolve s p = Some n \<Longrightarrow> made s (Some n, s)"
  using file_ref_resolve [OF shell_okD] by (simp add: made_def)

lemma resolve_or_make_made: "shell_ok s \<Longrightarrow> resolve_or_make w s = Some r \<Longrightarrow> made s r"
proof (cases "vfs_resolve s (Some w)")
  case None
  assume a: "shell_ok s" "resolve_or_make w s = Some r"
  then obtain ok s' where m: "vfs_mkfile w s = Some (ok, s')" "r = (vfs_resolve s' (Some w), s')"
    using None by (auto simp: resolve_or_make_def split: bind_splits)
  have s': "shell_ok s'" using keep_create(2) [OF a(1), of w] m by (simp add: keeps_def)
  then show ?thesis
    using keep_mk_grows [OF shell_okD [OF a(1)] m(1)] m(2) file_ref_resolve [OF shell_okD [OF s']] by (simp add: made_def)
qed (auto simp: resolve_or_make_def intro: made_here)

lemma keeps_made:
  "(\<And>r. m = Some r \<Longrightarrow> made s r) \<Longrightarrow>
   (\<And>s'. shell_ok s' \<Longrightarrow> keeps shell_ok g (f (None, s'))) \<Longrightarrow>
   (\<And>n s'. shell_ok s' \<Longrightarrow> grows s s' \<Longrightarrow> (is_file s' n \<Longrightarrow> file_ref s' (Some n)) \<Longrightarrow> keeps shell_ok g (f (Some n, s'))) \<Longrightarrow>
   keeps shell_ok g (m \<bind> f)"
  by (rule keeps_pure, rename_tac r, case_tac r, rename_tac x s', case_tac x) (auto simp: made_def)

lemma shell_ok_write:
  "shell_ok s \<Longrightarrow> file_ref s (Some f) \<Longrightarrow> length d \<le> 16777216 \<Longrightarrow> shell_ok (snd (vfs_write_file (Some f) d s))"
  using grows_write [OF shell_okD, of s f d] shell_ok_grows [of s] by simp

lemma shell_ok_append:
  "shell_ok s \<Longrightarrow> file_ref s (Some f) \<Longrightarrow> length d \<le> 16777216 \<Longrightarrow> shell_ok (snd (vfs_append_file (Some f) d s))"
  using grows_append [OF shell_okD, of s f d] shell_ok_grows [of s] by simp

lemma keep_cp [keep_rules]: "shell_ok s \<Longrightarrow> keep2 (cmd_cp a s)"
proof -
  assume ok: "shell_ok s"
  have copy: "keep2 (Some (0, snd (vfs_write_file (Some d) (content (node s' src)) s')))"
    if "vfs_resolve s (Some p) = Some src" "\<not> \<not> is_file s src" "shell_ok s'" "grows s s'"
      "is_file s' d \<Longrightarrow> file_ref s' (Some d)" "is_file s' d" for p src d s'
  proof -
    have "file_ref s' (Some src)"
      using file_ref_resolve [OF shell_okD [OF ok]] file_ref_grows that by blast
    from content_bound [OF shell_okD [OF that(3)] this] show ?thesis
      using shell_ok_write [OF that(3)] that(5,6) by (simp add: keeps_def)
  qed
  show ?thesis
    unfolding cmd_cp_def
    apply (rule keeps_if keeps_option keep_rules ok)+
    apply (rule keeps_made [where s = s])
    subgoal by (auto split: option.splits if_splits bind_splits intro: made_here [OF ok] resolve_or_make_made [OF ok])
    by (rule keeps_pair keeps_if keeps_option keep_rules copy | assumption | simp)+
qed

text \<open>\<open>tee\<close> still has its file after it has read its input and printed it.\<close>

lemma file_ref_out_all:
  "shell_ok s \<Longrightarrow> file_ref s r \<Longrightarrow> out_all t s = Some s' \<Longrightarrow> file_ref s' r"
proof (induction t arbitrary: s)
  case (Cons c t)
  obtain s1 where s1: "out_raw c s = Some s1" "out_all t s1 = Some s'" using Cons.prems(3) by (auto split: bind_splits)
  have "file_ref s1 r"
  proof (cases "out_file s")
    case None
    then show ?thesis using s1(1) Cons.prems(2)
      by (auto simp: out_raw_def pipe_writer_add_def put_pipe_def console_putc_def Let_def file_ref_more
          split: if_splits option.splits)
  next
    case (Some f)
    then have "grows s s1" using s1(1) grows_append [of s f "[c]"] Cons.prems(1) by (simp add: out_raw_def shell_ok_def)
    then show ?thesis using file_ref_grows Cons.prems(2) by blast
  qed
  moreover have "shell_ok s1" using keep_out_raw [OF Cons.prems(1), of c] s1(1) by (simp add: keeps_def)
  ultimately show ?case using Cons.IH s1(2) by blast
qed simp

lemma grows_buf_putc: "shell_ok s \<Longrightarrow> buf_ok b \<Longrightarrow> grows s (snd (buf_putc c b s))"
proof -
  assume a: "shell_ok s" "buf_ok b"
  define nc where "nc = (if bcap b \<noteq> 0 then bcap b * 2 else 256)"
  have "nc \<le> 33554432" using a(2) by (auto simp: nc_def buf_ok_def)
  then have "unat (of_nat nc :: u64) < 2 ^ 63" by (simp add: unat_of_nat)
  moreover obtain p s' where k: "kmalloc (of_nat nc) s = (p, s')" by (cases "kmalloc (of_nat nc :: u64) s")
  ultimately have g: "grows s s'" using grows_kmalloc [OF shell_okD [OF a(1)]] by blast
  show ?thesis
    unfolding buf_putc_def Let_def nc_def [symmetric] k using g by (cases p) simp_all
qed

lemma file_ref_read_all_stdin:
  assumes "shell_ok s" and "file_ref s r" and "read_all_stdin s = Some (d, s')"
  shows "file_ref s' r"
proof -
  obtain b where b: "read_stdin_loop buf_init s = Some (b, s')"
    using assms(3) by (auto simp: read_all_stdin_def split: bind_splits)
  have "shell_ok s \<and> buf_ok buf_init \<and> file_ref s r \<longrightarrow> file_ref (snd (b, s')) r"
  proof (rule read_stdin_loop.raw_induct
      [of "\<lambda>b s x. shell_ok s \<and> buf_ok b \<and> file_ref s r \<longrightarrow> file_ref (snd x) r", OF _ b], goal_cases)
    case (1 loop b s x)
    then obtain c s1 where g: "sh_getc s = Some (c, s1)" by (auto split: bind_splits)
    show ?case
    proof
      assume a: "shell_ok s \<and> buf_ok b \<and> file_ref s r"
      have s1: "shell_ok s1" using keep_sh_getc [of s] a g by (simp add: keeps_def)
      have f1: "file_ref s1 r"
        using g a by (auto simp: sh_getc_def next_key_def file_ref_more split: option.splits if_splits list.splits bind_splits)
      obtain b1 s2 where b: "buf_putc (to_char c) b s1 = (b1, s2)" by (cases "buf_putc (to_char c) b s1")
      have "file_ref s2 r" using file_ref_grows [OF f1] grows_buf_putc [OF s1, of b "to_char c"] a b by simp
      then show "file_ref (snd x) r"
        using 1(2) g f1 1(1) [of b1 s2 x] keep_buf_putc [OF s1, of b "to_char c"] a b
        by (auto split: if_splits)
    qed
  qed
  then show ?thesis using assms(1,2) by (simp add: buf_ok_def buf_init_def)
qed

lemma keep_mv [keep_rules]: "shell_ok s \<Longrightarrow> keep2 (cmd_mv a s)"
  unfolding cmd_mv_def Let_def
  by (rule keep_rules keep_steps | assumption | erule (1) keep_vfs_rm | simp)+

lemma keep_tee [keep_rules]: "shell_ok s \<Longrightarrow> keep2 (cmd_tee a s)"
proof -
  assume ok: "shell_ok s"
  have target: "made s r" if "(case vfs_resolve s w of Some n \<Rightarrow> Some (Some n, s)
      | None \<Rightarrow> (case w of None \<Rightarrow> None | Some w \<Rightarrow> resolve_or_make w s)) = Some r" for w r
    using that by (auto split: option.splits intro: made_here [OF ok] resolve_or_make_made [OF ok])
  have body: "keep2 (do {
      (d, s') \<leftarrow> read_all_stdin (if app then s' else vfs_truncate (Some n) s');
      case d of None \<Rightarrow> Some (0, s')
      | Some t \<Rightarrow> if t = [] then Some (0, s')
          else do { s' \<leftarrow> sh_write t s'; Some (0, snd (vfs_append_file (Some n) t s')) } })"
    if ok': "shell_ok s'" and f: "file_ref s' (Some n)" for s' n app
  proof -
    let ?s = "if app then s' else vfs_truncate (Some n) s'"
    have tr: "shell_ok (vfs_truncate (Some n) s')" "file_ref (vfs_truncate (Some n) s') (Some n)"
      using grows_truncate [OF shell_okD [OF ok'] f] shell_ok_grows [OF ok'] file_ref_grows [OF f] by simp_all
    have s: "shell_ok ?s" "file_ref ?s (Some n)" using ok' f tr by simp_all
    have wr: "keep2 (if t = [] then Some (0, s2)
        else do { s3 \<leftarrow> sh_write t s2; Some (0, snd (vfs_append_file (Some n) t s3)) })"
      if r: "read_all_stdin ?s = Some (Some t, s2)" for t s2
    proof -
      have s2: "shell_ok s2" "length t \<le> 16777216" "file_ref s2 (Some n)"
        using read_all_stdin_ok [OF s(1) r] file_ref_read_all_stdin [OF s r] by simp_all
      show ?thesis
        using s2 keep_output(3) [OF s2(1), of t] file_ref_out_all [OF s2(1,3), of t]
        by (auto simp: keeps_def sh_write_def intro!: shell_ok_append split: bind_splits)
    qed
    show ?thesis
      by (rule keeps_pure, rule keeps_prod)
        (use wr read_all_stdin_ok [OF s(1)] in \<open>auto simp: keeps_def [of shell_ok snd "Some (0, _)"] split: option.splits\<close>)
  qed
  show ?thesis
    unfolding cmd_tee_def Let_def
    apply (rule keeps_if keep_rules ok)+
    apply (rule keeps_made [where s = s], erule target)
    by (rule keeps_pair keeps_if keeps_option keep_rules keeps_Some body | assumption | simp)+
qed

text \<open>The walks over a tree.\<close>

lemma keep_find_rec [keep_rules]: "shell_ok s \<Longrightarrow> keep (find_rec cs pre pat s)"
proof -
  have "find_rec cs pre pat s = Some r \<Longrightarrow> shell_ok s \<longrightarrow> shell_ok r" for r
  proof (rule find_rec.raw_induct [of "\<lambda>cs pre pat s r. shell_ok s \<longrightarrow> shell_ok r"], goal_cases)
    case (1 rec cs pre pat s r)
    then have ih [keep_rules]: "shell_ok s \<Longrightarrow> keep (rec cs pre pat s)" for cs pre pat s by (simp add: keeps_def)
    have "shell_ok s \<Longrightarrow> keep (Some r)"
      by (subst 1(3) [symmetric]) (rule ih keep_rules keep_steps | assumption)+
    then show ?case by (simp add: keeps_def)
  qed
  then show "shell_ok s \<Longrightarrow> keep (find_rec cs pre pat s)" by (simp add: keeps_def)
qed

lemma keep_tree_rec [keep_rules]: "shell_ok s \<Longrightarrow> keep (tree_rec cs d s)"
proof -
  have "tree_rec cs d s = Some r \<Longrightarrow> shell_ok s \<longrightarrow> shell_ok r" for r
  proof (rule tree_rec.raw_induct [of "\<lambda>cs d s r. shell_ok s \<longrightarrow> shell_ok r"], goal_cases)
    case (1 rec cs d s r)
    then have ih: "shell_ok s \<Longrightarrow> keep (rec cs d s)" for cs d s by (simp add: keeps_def)
    have "shell_ok s \<Longrightarrow> keep (Some r)"
      by (subst 1(3) [symmetric]) (rule ih keep_rules keep_steps | assumption)+
    then show ?case by (simp add: keeps_def)
  qed
  then show "shell_ok s \<Longrightarrow> keep (tree_rec cs d s)" by (simp add: keeps_def)
qed

lemma keep_walks [keep_rules]: "shell_ok s \<Longrightarrow> keep2 (cmd_find a s)" "shell_ok s \<Longrightarrow> keep2 (cmd_tree a s)"
  unfolding cmd_find_def cmd_tree_def
  by (rule keep_rules keep_steps | assumption | simp only: snd_conv)+

text \<open>The table.\<close>

lemma keep_returns: "keep2 (c a s) \<Longrightarrow> keep2 (returns c a s)"
  unfolding returns_def by (cases "c a s") (auto simp: keeps_def)

lemma keep_end [keep_rules]:
  "shell_ok s \<Longrightarrow> keep2 (cmd_exit a s)" "shell_ok s \<Longrightarrow> keep2 (cmd_reboot a s)" "shell_ok s \<Longrightarrow> keep2 (cmd_poweroff a s)"
  unfolding cmd_exit_def cmd_reboot_def cmd_poweroff_def by (rule keep_rules keep_steps | assumption | simp)+

lemma keep_commands: "shell_ok s \<Longrightarrow> list_all (\<lambda>e. keep2 (fst (snd e) a s)) commands"
  unfolding commands_def by (simp add: keep_returns keep_rules)

lemma keep_lookup: "shell_ok s \<Longrightarrow> cmd_lookup nm = Some fn \<Longrightarrow> keep2 (fn a s)"
  using keep_commands [of s a]
  by (auto simp: cmd_lookup_def list_all_iff dest!: find_Some_iff [THEN iffD1] split: option.splits)

end
