(* ===== verification/Session_Inv.thy ===== *)
theory Session_Inv
  imports Cmd_Inv
begin

text \<open>
  The invariant through the interpreter of \<open>src/shell.c\<close>: redirections, one command, pipelines, lines, the line
  editor and the rounds of the session.
\<close>

section \<open>Redirections\<close>

lemma shell_ok_redirect:
  assumes "shell_ok s" and "file_ref s (Some n)"
  shows "shell_ok (s\<lparr>out_file := Some n\<rparr>)"
    and "shell_ok (vfs_truncate (Some n) (s\<lparr>out_file := Some n, out_append := a\<rparr>))"
proof -
  show out: "shell_ok (s\<lparr>out_file := Some n\<rparr>)" using assms by (rule shell_ok_set)
  have ok: "shell_ok (s\<lparr>out_file := Some n, out_append := a\<rparr>)" using out by simp
  have "file_ref (s\<lparr>out_file := Some n, out_append := a\<rparr>) (Some n)" using assms(2) by (simp add: file_ref_more)
  from grows_truncate [OF shell_okD [OF ok] this] show "shell_ok (vfs_truncate (Some n) (s\<lparr>out_file := Some n, out_append := a\<rparr>))"
    using shell_ok_grows [OF ok] by blast
qed

lemma shell_ok_redirect_in:
  "shell_ok s \<Longrightarrow> vfs_resolve s p = Some n \<Longrightarrow> is_file s n \<Longrightarrow> shell_ok (s\<lparr>in_file := Some n\<rparr>)"
  using shell_ok_set(3) [of s "Some n"] file_ref_resolve [OF shell_okD, of s p n] by simp

lemma made_mkfile:
  assumes "shell_ok s" and "vfs_mkfile p s = Some (r, s')"
  shows "made s (vfs_resolve s' q, s')"
  using keep_create(2) [OF assms(1), of p] keep_mk_grows [OF shell_okD [OF assms(1)] assms(2)] assms
    file_ref_resolve [OF shell_okD, of s'] by (simp add: made_def keeps_def)

lemma keep_redirect_out [keep_rules]: "shell_ok s \<Longrightarrow> keep2 (redirect_out cl s)"
proof -
  assume ok: "shell_ok s"
  have *: "made s (snd r)"
    if "(case vfs_resolve s (Some (cl_out cl)) of
             Some f \<Rightarrow> Some (True, Some f, s)
           | None \<Rightarrow> do {
               (ok, s) \<leftarrow> vfs_mkfile (cl_out cl) s;
               Some (ok, vfs_resolve s (Some (cl_out cl)), s) }) = Some r" for r
    using that by (auto split: option.splits bind_splits intro: made_here [OF ok] made_mkfile [OF ok])
  show ?thesis
    unfolding redirect_out_def
    apply (rule keeps_if keeps_Some)+
    subgoal using ok by simp
    apply (rule keeps_pure, drule *, rule keeps_prod, rule keeps_prod)
    by (rule keep_rules keep_steps | assumption | simp add: made_def shell_ok_redirect)+
qed

lemma keep_redirect_in [keep_rules]: "shell_ok s \<Longrightarrow> keep2 (redirect_in cl s)"
  unfolding redirect_in_def
  by (rule keep_rules keep_steps | assumption | simp add: shell_ok_redirect_in)+

lemma keep_apply_redirs [keep_rules]: "shell_ok s \<Longrightarrow> keep2 (apply_redirs cl s)"
  unfolding apply_redirs_def
  by (rule keep_rules keep_steps | assumption | simp add: shell_ok_set)+

lemma keep_builtin [keep_rules]: "shell_ok s \<Longrightarrow> keep2 (shell_run_builtin a s)"
  unfolding shell_run_builtin_def
  by (rule keep_rules keep_steps | assumption | simp add: keep_lookup)+

section \<open>The tokenizer and one command\<close>

text \<open>A result of the interpreter: the exit code, the line, which keeps its length, and the state.\<close>

definition line_keeps :: "nat \<Rightarrow> ('a \<times> char list \<times> shell) option \<Rightarrow> bool" where
  "line_keeps n m \<longleftrightarrow> (\<forall>r b s. m = Some (r, b, s) \<longrightarrow> shell_ok s \<and> length b = n)"

lemma expand_tilde_ok:
  assumes "shell_ok s" and "length b < 2 ^ 62" and "expand_tilde b p s = Some (it, s')"
  shows "shell_ok s'"
proof -
  have "length (cstr (drop p b)) \<le> length b" using length_takeWhile_le [of _ "drop p b"]
    by (fastforce simp: cstr_def intro: order_trans)
  then have "length (cstr (drop p b)) + 8 < 2 ^ 63" using assms(2) by simp
  note k = keep_kmalloc [OF assms(1) this]
  show ?thesis
    using assms(1,3) k by (fastforce simp: expand_tilde_def Let_def split: option.splits if_splits prod.splits)
qed

lemma keep_tokenize_loop:
  "tokenize_loop b p cl s = Some (b', cl', s') \<Longrightarrow> shell_ok s \<Longrightarrow> length b < 2 ^ 62 \<Longrightarrow>
   shell_ok s' \<and> length b' = length b"
proof (induction b p cl s rule: tokenize_loop.induct)
  case (1 b p0 cl s)
  note st = "1.prems"(1) [unfolded tokenize_loop.simps [of b p0 cl s]]
  show ?case
  proof (cases "b ! p0 = NUL \<or> length (items cl) \<ge> 63")
    case True
    then show ?thesis using st "1.prems"(2) by (auto split: if_splits)
  next
    case go: False
    then obtain p where p: "p0 < length b" "skip_blanks b p0 = Some p"
      using st by (auto split: if_splits option.splits)
    consider "b ! p = NUL" | (redir) "b ! p \<noteq> NUL" "b ! p = CHR ''>'' \<or> b ! p = CHR ''<''"
      | (word) "b ! p \<noteq> NUL" "\<not> (b ! p = CHR ''>'' \<or> b ! p = CHR ''<'')" by blast
    then show ?thesis
    proof cases
      case redir
      then obtain p' cl1 where r: "redirect b p cl = Some (p', cl1)" "tokenize_loop b p' cl1 s = Some (b', cl', s')"
        using st go p by (auto split: option.splits)
      show ?thesis by (rule "1.IH"(1) [OF _ _ p(2) redir r(1) refl r(2) "1.prems"(2,3)]) (use p go in auto)
    next
      case word
      then obtain b1 p1 out where w: "word_loop (last_exit s) b p p 0 = Some (b1, p1, out)"
        using st go p by (auto split: option.splits)
      have l1: "length b1 = length b" using word_loop_props [OF w] by simp
      define b2 where "b2 = (if b1 ! p1 \<noteq> NUL then b1[p1 := NUL] else b1)"
      define p2 where "p2 = (if b1 ! p1 \<noteq> NUL then p1 + 1 else p1)"
      define b3 where "b3 = b2[out := NUL]"
      have l3: "length b3 = length b" by (simp add: b3_def b2_def l1)
      have p1: "p1 < length b1" using st go p word w by (auto simp: rd_def split: option.splits if_splits)
      obtain it s1 where x: "out < length b2" "expand_tilde b3 p s = Some (it, s1)"
        "tokenize_loop b3 p2 (cl\<lparr>items := items cl @ [it]\<rparr>) s1 = Some (b', cl', s')"
        using st go p word w
        by (auto simp: b3_def b2_def p2_def rd_def Let_def split: option.splits if_splits)
      have "shell_ok s1" using expand_tilde_ok [OF "1.prems"(2) _ x(2)] l3 "1.prems"(3) by simp
      then have "shell_ok s' \<and> length b' = length b3"
        by (intro "1.IH"(2) [OF _ _ p(2) word w refl refl _ b2_def p2_def _ b3_def x(2) refl x(3)])
          (use p p1 go l3 x(1) "1.prems"(3) in \<open>auto simp: rd_def\<close>)
      then show ?thesis using l3 by simp
    qed (use st go p "1.prems"(2) in auto)
  qed
qed

lemma run_segment_state:
  assumes "shell_ok s" and "length b < 2 ^ 62"
  shows "line_keeps (length b) (run_segment b seg do_pipe s)"
proof -
  have pipe: "shell_ok (if do_pipe then (case pipe_writer s of None \<Rightarrow> s
      | Some w \<Rightarrow> put_pipe w ((get_pipe w s)\<lparr>pbytes := []\<rparr>) s) else s)" if "shell_ok s" for s
    using that by (auto intro: shell_ok_put_pipe split: option.splits)
  have restore: "shell_ok ((restore_redirs s)\<lparr>pipe_writing := x\<rparr>)" if "shell_ok s" for s x
    unfolding restore_redirs_def using that by (simp add: shell_ok_set)
  show ?thesis
    unfolding line_keeps_def
  proof (intro allI impI)
    fix r b' s' assume run: "run_segment b seg do_pipe s = Some (r, b', s')"
    obtain b1 cl s1 where t: "tokenize b seg s = Some (b1, cl, s1)" using run by (auto simp: run_segment_def split: bind_splits)
    have s1: "shell_ok s1" "length b1 = length b"
      using keep_tokenize_loop [OF t [unfolded tokenize_def] assms] by simp_all
    define s2 where "s2 = s1\<lparr>pipe_writing := do_pipe\<rparr>"
    define s3 where "s3 = (if do_pipe then (case pipe_writer s2 of None \<Rightarrow> s2
      | Some w \<Rightarrow> put_pipe w ((get_pipe w s2)\<lparr>pbytes := []\<rparr>) s2) else s2)"
    have s3: "shell_ok s3" unfolding s3_def by (rule pipe) (simp add: s2_def s1)
    show "shell_ok s' \<and> length b' = length b"
    proof (cases "items cl = []")
      case True
      then show ?thesis using run t s1 by (simp add: run_segment_def)
    next
      case False
      note run' = run [unfolded run_segment_def t Let_def bind.bind_lunit prod.case if_not_P [OF False]
          s2_def [symmetric] s3_def [symmetric]]
      obtain ok s4 where r: "apply_redirs cl s3 = Some (ok, s4)" using run' by (auto split: bind_splits)
      have s4: "shell_ok s4" using keep_apply_redirs [OF s3, of cl] r by (simp add: keeps_def)
      show ?thesis
      proof (cases ok)
        case False
        then show ?thesis using run' r restore [OF s4] s1 by auto
      next
        case True
        then show ?thesis
          using run' r keep_builtin [OF s4, of "map (item_string b1) (items cl)"] restore s1
          by (auto simp: keeps_def split: bind_splits if_splits)
      qed
    qed
  qed
qed

section \<open>Pipelines\<close>

lemma shell_ok_pipe_data: "shell_ok s \<Longrightarrow> shell_ok (pipe_data w s)"
proof -
  assume ok: "shell_ok s"
  obtain p s' where k: "kmalloc (of_nat PIPE_MAX) s = (p, s')" by (cases "kmalloc (of_nat PIPE_MAX :: u64) s")
  have s': "shell_ok s'" by (rule keep_kmalloc [OF ok _ k]) (simp add: PIPE_MAX_def)
  have "length (pbytes (get_pipe w s')) \<le> PIPE_MAX" using s' by (simp add: shell_ok_def get_pipe_def)
  then show ?thesis using ok s' by (auto simp: pipe_data_def k shell_ok_put_pipe split: option.splits)
qed

lemma shell_ok_pipes:
  "shell_ok s \<Longrightarrow> shell_ok (pipes_start s)"
  "shell_ok s \<Longrightarrow> shell_ok (pipes_end s)"
  "shell_ok s \<Longrightarrow> shell_ok (next_pipe w s)"
  by (simp_all add: pipes_start_def pipes_end_def next_pipe_def Let_def shell_ok_put_pipe shell_ok_set shell_ok_pipe_data)

text \<open>The rules for what works on a line.\<close>

lemma line_keeps_here: "shell_ok s \<Longrightarrow> length b = n \<Longrightarrow> line_keeps n (Some (r, b, s))"
  by (simp add: line_keeps_def)

lemma line_keeps_pure: "(\<And>x. m = Some x \<Longrightarrow> line_keeps n (f x)) \<Longrightarrow> line_keeps n (m \<bind> f)"
  by (cases m) (simp_all add: line_keeps_def)

lemma line_keeps_bind:
  "line_keeps n m \<Longrightarrow> (\<And>r b s. m = Some (r, b, s) \<Longrightarrow> shell_ok s \<Longrightarrow> length b = n \<Longrightarrow> line_keeps n (f (r, b, s))) \<Longrightarrow>
   line_keeps n (m \<bind> f)"
  by (cases m) (auto simp: line_keeps_def)

lemma line_keeps_if: "(c \<Longrightarrow> line_keeps n x) \<Longrightarrow> (\<not> c \<Longrightarrow> line_keeps n y) \<Longrightarrow> line_keeps n (if c then x else y)"
  by simp

lemma line_keeps_prod: "line_keeps n (f a b s) \<Longrightarrow> line_keeps n (case (a, b, s) of (a, b, s) \<Rightarrow> f a b s)"
  by simp

lemma line_keeps_option:
  "(x = None \<Longrightarrow> line_keeps n m) \<Longrightarrow> (\<And>a. x = Some a \<Longrightarrow> line_keeps n (f a)) \<Longrightarrow>
   line_keeps n (case x of None \<Rightarrow> m | Some a \<Rightarrow> f a)"
  by (cases x) auto

lemma line_keeps_Let: "line_keeps n (f t) \<Longrightarrow> line_keeps n (let x = t in f x)"
  by simp

lemma line_keeps_segment:
  "shell_ok s \<Longrightarrow> length b = n \<Longrightarrow> n < 2 ^ 62 \<Longrightarrow> line_keeps n (run_segment b seg d s)"
  using run_segment_state by blast

lemmas line_steps = line_keeps_prod line_keeps_if line_keeps_option line_keeps_Let
  line_keeps_bind [OF line_keeps_segment] line_keeps_pure line_keeps_here

lemma line_keeps_pipeline_loop:
  "shell_ok s \<Longrightarrow> length b < 2 ^ 62 \<Longrightarrow> line_keeps (length b) (pipeline_loop b seg p w s)"
proof -
  have "pipeline_loop b seg p w s = Some x \<Longrightarrow> shell_ok s \<and> length b < 2 ^ 62 \<longrightarrow>
    shell_ok (snd (snd x)) \<and> length (fst (snd x)) = length b" for x
  proof (rule pipeline_loop.raw_induct [of "\<lambda>b seg p w s x. shell_ok s \<and> length b < 2 ^ 62 \<longrightarrow>
      shell_ok (snd (snd x)) \<and> length (fst (snd x)) = length b"], goal_cases)
    case (1 loop b seg p w s x)
    have ih: "line_keeps n (loop b seg p w s)" if "shell_ok s" "length b = n" "n < 2 ^ 62" for b seg p w s n
      using 1(2) [of b seg p w s] that by (fastforce simp: line_keeps_def)
    have "line_keeps (length b) (Some x)" if ok: "shell_ok s" "length b < 2 ^ 62"
      by (subst 1(3) [symmetric])
        (insert ok, (rule ih line_steps | assumption | simp add: shell_ok_pipes)+)
    then show ?case by (cases x) (simp add: line_keeps_def)
  qed
  then show "shell_ok s \<Longrightarrow> length b < 2 ^ 62 \<Longrightarrow> line_keeps (length b) (pipeline_loop b seg p w s)"
    by (fastforce simp: line_keeps_def)
qed

section \<open>Lines\<close>

lemma line_keeps_exec_pipeline:
  "shell_ok s \<Longrightarrow> length b = n \<Longrightarrow> n < 2 ^ 62 \<Longrightarrow> line_keeps n (exec_pipeline b line len s)"
  unfolding exec_pipeline_def
  by (rule line_keeps_pure)
    (use line_keeps_pipeline_loop [of "pipes_start s" "b[line + len := NUL]"] shell_ok_pipes(1) in
      \<open>auto simp: wr_def split: if_splits\<close>)

lemma shell_ok_set_exit: "shell_ok s \<Longrightarrow> shell_ok (sh_set_exit c s)"
  unfolding sh_set_exit_def by (rule shell_ok_set) simp_all

lemma line_keeps_end_segment:
  "shell_ok s \<Longrightarrow> length b = n \<Longrightarrow> n < 2 ^ 62 \<Longrightarrow> line_keeps n (end_segment b start p k rc s)"
  unfolding end_segment_def Let_def
  by (rule line_keeps_exec_pipeline line_keeps_prod line_keeps_if line_keeps_option line_keeps_bind line_keeps_here
      | assumption | simp add: shell_ok_set_exit)+

lemma line_keeps_line_loop:
  "shell_ok s \<Longrightarrow> length b < 2 ^ 62 \<Longrightarrow> line_keeps (length b) (line_loop b start p rc s)"
proof -
  have "line_loop b start p rc s = Some x \<Longrightarrow> shell_ok s \<and> length b < 2 ^ 62 \<longrightarrow>
    shell_ok (snd (snd x)) \<and> length (fst (snd x)) = length b" for x
  proof (rule line_loop.raw_induct [of "\<lambda>b start p rc s x. shell_ok s \<and> length b < 2 ^ 62 \<longrightarrow>
      shell_ok (snd (snd x)) \<and> length (fst (snd x)) = length b"], goal_cases)
    case (1 loop b start p rc s x)
    have ih: "line_keeps n (loop b start p rc s)" if "shell_ok s" "length b = n" "n < 2 ^ 62" for b start p rc s n
      using 1(2) [of b start p rc s] that by (fastforce simp: line_keeps_def)
    have "line_keeps (length b) (Some x)" if ok: "shell_ok s" "length b < 2 ^ 62"
      by (subst 1(3) [symmetric])
        (insert ok, (rule ih line_keeps_bind [OF line_keeps_end_segment] line_steps | assumption | simp)+)
    then show ?case by (cases x) (simp add: line_keeps_def)
  qed
  then show "shell_ok s \<Longrightarrow> length b < 2 ^ 62 \<Longrightarrow> line_keeps (length b) (line_loop b start p rc s)"
    by (fastforce simp: line_keeps_def)
qed

lemma line_keeps_exec_line:
  "shell_ok s \<Longrightarrow> length b < 2 ^ 62 \<Longrightarrow> line_keeps (length b) (shell_exec_line b s)"
  unfolding shell_exec_line_def
  by (rule line_keeps_line_loop line_steps | assumption | simp)+

section \<open>The line editor\<close>

lemma keep_rub_out [keep_rules]: "shell_ok s \<Longrightarrow> keep (rub_out s)"
  unfolding rub_out_def by (rule keep_rules keep_steps | assumption)+

lemma keep_rub_out_all [keep_rules]: "shell_ok s \<Longrightarrow> keep (rub_out_all n s)"
proof (induction n arbitrary: s)
  case (Suc n)
  then show ?case by (auto intro: keeps_bind keep_rub_out)
qed (simp add: keeps_def)

lemma shell_ok_hist:
  "shell_ok s \<Longrightarrow> shell_ok (s\<lparr>hist_pos := hist_pos s - i\<rparr>)"
  "shell_ok s \<Longrightarrow> hist_pos s + 1 < hist_count s \<Longrightarrow> shell_ok (s\<lparr>hist_pos := hist_pos s + 1\<rparr>)"
  "shell_ok s \<Longrightarrow> shell_ok (s\<lparr>hist_pos := hist_count s\<rparr>)"
  by (auto simp: shell_ok_def fs_ok_more file_ref_more)

lemma shell_ok_history:
  "shell_ok s \<Longrightarrow> hist_pos s \<le> length h \<Longrightarrow> length h \<le> HIST_MAX \<Longrightarrow> shell_ok (s\<lparr>history := h\<rparr>)"
  by (simp add: shell_ok_def fs_ok_more file_ref_more)

lemma shell_ok_push_history: "shell_ok s \<Longrightarrow> length t \<le> 1024 \<Longrightarrow> shell_ok (push_history t s)"
proof -
  assume a: "shell_ok s" "length t \<le> 1024"
  obtain p s' where k: "kmalloc (of_nat (length t + 1)) s = (p, s')" by (cases "kmalloc (of_nat (length t + 1) :: u64) s")
  have s': "shell_ok s'" by (rule keep_kmalloc [OF a(1) _ k]) (use a(2) in simp)
  then have "hist_pos s' \<le> hist_count s'" "hist_count s' \<le> HIST_MAX" by (simp_all add: shell_ok_def)
  then show ?thesis
    using s' k by (cases p) (auto simp: push_history_def dup_string_def Let_def HIST_MAX_def intro!: shell_ok_history)
qed

lemma keep_readline_loop: "shell_ok s \<Longrightarrow> keeps shell_ok (\<lambda>x. snd (snd x)) (readline_loop mx cur s)"
proof -
  have "readline_loop mx cur s = Some x \<Longrightarrow> shell_ok s \<longrightarrow> shell_ok (snd (snd x))" for x
  proof (rule readline_loop.raw_induct [of "\<lambda>mx cur s x. shell_ok s \<longrightarrow> shell_ok (snd (snd x))"], goal_cases)
    case (1 loop mx cur s x)
    have ih: "shell_ok s \<Longrightarrow> keeps shell_ok (\<lambda>x. snd (snd x)) (loop mx cur s)" for mx cur s
      using 1(2) [of mx cur s] by (simp add: keeps_def)
    have "shell_ok s \<Longrightarrow> keeps shell_ok (\<lambda>x. snd (snd x)) (Some x)"
      by (subst 1(3) [symmetric])
        (rule ih keep_rules keep_steps shell_ok_hist shell_ok_set_exit | assumption | simp only: snd_conv)+
    then show ?case by (simp add: keeps_def)
  qed
  then show "shell_ok s \<Longrightarrow> keeps shell_ok (\<lambda>x. snd (snd x)) (readline_loop mx cur s)" by (simp add: keeps_def)
qed

text \<open>The line fits the buffer.\<close>

lemma short_bind: "(\<And>x. m = Some x \<Longrightarrow> pred_option P (f x)) \<Longrightarrow> pred_option P (m \<bind> f)"
  by (cases m) simp_all

lemma short_if: "(c \<Longrightarrow> pred_option P x) \<Longrightarrow> (\<not> c \<Longrightarrow> pred_option P y) \<Longrightarrow> pred_option P (if c then x else y)"
  by simp

lemma short_prod: "(\<And>a b. x = (a, b) \<Longrightarrow> pred_option P (f a b)) \<Longrightarrow> pred_option P (case x of (a, b) \<Rightarrow> f a b)"
  by (cases x) simp

lemma readline_short: "length cur < mx \<Longrightarrow> pred_option (\<lambda>x. length (fst (snd x)) < mx) (readline_loop mx cur s)"
proof -
  have "readline_loop mx cur s = Some x \<Longrightarrow> length cur < mx \<longrightarrow> length (fst (snd x)) < mx" for x
  proof (rule readline_loop.raw_induct [of "\<lambda>mx cur s x. length cur < mx \<longrightarrow> length (fst (snd x)) < mx"], goal_cases)
    case (1 loop mx cur s x)
    have ih: "length cur < mx \<Longrightarrow> pred_option (\<lambda>x. length (fst (snd x)) < mx) (loop mx cur s)" for cur s
      using 1(2) [of mx cur s] by (cases "loop mx cur s") auto
    have "pred_option (\<lambda>x. length (fst (snd x)) < mx) (Some x)" if "length cur < mx"
      by (subst 1(3) [symmetric], insert that, unfold Let_def)
        (rule ih short_if short_bind short_prod
          | force simp: recall_def split: bind_splits if_splits)+
    then show ?case by simp
  qed
  then show "length cur < mx \<Longrightarrow> pred_option (\<lambda>x. length (fst (snd x)) < mx) (readline_loop mx cur s)"
    by (cases "readline_loop mx cur s") auto
qed

section \<open>The session\<close>

lemma shell_ok_set_color: "shell_ok s \<Longrightarrow> shell_ok (set_color fg bg s)"
  unfolding set_color_def by (rule shell_ok_screen)

lemma keep_prompt [keep_rules]: "shell_ok s \<Longrightarrow> keep (prompt s)"
  unfolding prompt_def
  by (rule keep_rules keep_steps shell_ok_set_color | assumption)+

lemma keep_show_motd [keep_rules]: "shell_ok s \<Longrightarrow> keep (show_motd s)"
  unfolding show_motd_def
  by (rule keep_rules keep_steps shell_ok_set_color | assumption)+

lemma keep_round: "shell_ok s \<Longrightarrow> keep2 (shell_round s)"
proof -
  assume ok: "shell_ok s"
  show ?thesis
    unfolding shell_round_def Let_def
  proof (rule keeps_bind [OF keep_prompt [OF ok]])
    fix s :: shell assume "shell_ok s"
    then have s: "shell_ok (s\<lparr>hist_pos := hist_count s\<rparr>)" by (rule shell_ok_hist)
    show "keep2 (sh_readline 1024 (s\<lparr>hist_pos := hist_count s\<rparr>) \<bind> (\<lambda>(n, t, s).
      if n < 0 then do { s \<leftarrow> sh_puts [LF] s; Some (Some False, s) }
      else if n = 0 \<or> t = [] then Some (None, s)
      else do { (rc, b, s) \<leftarrow> shell_exec_line (line_buffer t) (push_history t s);
                Some (if rc = None then Some True else None, s) }))"
    proof (rule keeps_pure)
      fix x assume x: "sh_readline 1024 (s\<lparr>hist_pos := hist_count s\<rparr>) = Some x"
      obtain n t s' where e: "x = (n, t, s')" by (cases x)
      have s': "shell_ok s'" "length t < 1024"
        using keep_readline_loop [OF s, of 1024 "[]"] readline_short [of "[]" 1024 "s\<lparr>hist_pos := hist_count s\<rparr>"] x e
        by (simp_all add: sh_readline_def keeps_def)
      have p: "shell_ok (push_history t s')" by (rule shell_ok_push_history) (use s' in simp_all)
      have "line_keeps (length (line_buffer t)) (shell_exec_line (line_buffer t) (push_history t s'))"
        by (rule line_keeps_exec_line [OF p]) (use s' in \<open>simp add: line_buffer_def\<close>)
      then show "keep2 (case x of (n, t, s) \<Rightarrow> if n < 0 then do { s \<leftarrow> sh_puts [LF] s; Some (Some False, s) }
          else if n = 0 \<or> t = [] then Some (None, s)
          else do { (rc, b, s) \<leftarrow> shell_exec_line (line_buffer t) (push_history t s);
                    Some (if rc = None then Some True else None, s) })"
        using s' keep_output(2) [OF s'(1), of "[LF]"]
        by (auto simp: e keeps_def line_keeps_def split: bind_splits)
    qed
  qed
qed

section \<open>Back at the console\<close>

text \<open>Between two lines nothing is redirected: input comes from the keyboard, output goes to the console.\<close>

definition at_console :: "shell \<Rightarrow> bool" where
  "at_console s \<longleftrightarrow> out_file s = None \<and> in_file s = None \<and> pipe_reader s = None \<and> \<not> pipe_writing s"

lemma at_console_more [simp]:
  "at_console (s\<lparr>screen := x\<rparr>) = at_console s" "at_console (s\<lparr>line_out := l\<rparr>) = at_console s"
  "at_console (s\<lparr>keys := k\<rparr>) = at_console s" "at_console (s\<lparr>last_exit := c\<rparr>) = at_console s"
  "at_console (s\<lparr>history := h\<rparr>) = at_console s" "at_console (s\<lparr>hist_pos := i\<rparr>) = at_console s"
  "at_console (s\<lparr>used := u\<rparr>) = at_console s"
  by (simp_all add: at_console_def)

abbreviation stay :: "shell option \<Rightarrow> bool" where "stay \<equiv> keeps at_console (\<lambda>s. s)"
abbreviation stay2 :: "('a \<times> shell) option \<Rightarrow> bool" where "stay2 \<equiv> keeps at_console snd"

named_theorems stay_rules

lemma stay_out_all: "at_console s \<Longrightarrow> stay (out_all t s)"
proof (induction t arbitrary: s)
  case (Cons c t)
  then have "out_raw c s = Some (console_putc c s)" by (simp add: out_raw_def at_console_def)
  then show ?case using Cons by (simp add: console_putc_def)
qed (simp add: keeps_def)

lemma stay_output [stay_rules]:
  "at_console s \<Longrightarrow> stay (sh_puts t s)" "at_console s \<Longrightarrow> stay (sh_write t s)"
  "at_console s \<Longrightarrow> stay (sh_putc c s)" "at_console s \<Longrightarrow> stay (sh_printf fmt as s)"
  using stay_out_all [of s] stay_out_all [of s "[c]"]
  by (auto simp: sh_puts_def sh_write_def sh_putc_def sh_printf_def keeps_def split: bind_splits)

lemma stay_getc [stay_rules]: "at_console s \<Longrightarrow> stay2 (sh_getc s)"
  by (auto simp: keeps_def sh_getc_def next_key_def at_console_def split: bind_splits list.splits if_splits)

lemma stay_rub_out [stay_rules]: "at_console s \<Longrightarrow> stay (rub_out s)"
  unfolding rub_out_def by (rule stay_rules keep_steps | assumption)+

lemma stay_rub_out_all [stay_rules]: "at_console s \<Longrightarrow> stay (rub_out_all n s)"
proof (induction n arbitrary: s)
  case (Suc n)
  then show ?case by (auto intro: keeps_bind stay_rub_out)
qed (simp add: keeps_def)

lemma stay_readline_loop: "at_console s \<Longrightarrow> keeps at_console (\<lambda>x. snd (snd x)) (readline_loop mx cur s)"
proof -
  have "readline_loop mx cur s = Some x \<Longrightarrow> at_console s \<longrightarrow> at_console (snd (snd x))" for x
  proof (rule readline_loop.raw_induct [of "\<lambda>mx cur s x. at_console s \<longrightarrow> at_console (snd (snd x))"], goal_cases)
    case (1 loop mx cur s x)
    have ih: "at_console s \<Longrightarrow> keeps at_console (\<lambda>x. snd (snd x)) (loop mx cur s)" for mx cur s
      using 1(2) [of mx cur s] by (simp add: keeps_def)
    have "at_console s \<Longrightarrow> keeps at_console (\<lambda>x. snd (snd x)) (Some x)"
      by (subst 1(3) [symmetric])
        (rule ih stay_rules keep_steps at_console_more [THEN iffD2] | assumption
          | simp only: snd_conv sh_set_exit_def)+
    then show ?case by (simp add: keeps_def)
  qed
  then show "at_console s \<Longrightarrow> keeps at_console (\<lambda>x. snd (snd x)) (readline_loop mx cur s)" by (simp add: keeps_def)
qed

lemma stay_prompt: "at_console s \<Longrightarrow> stay (prompt s)"
  unfolding prompt_def set_color_def
  by (rule stay_rules keep_steps at_console_more [THEN iffD2] | assumption)+

text \<open>Where the interpreter comes to an end with an exit code, the code and the state satisfy \<open>P\<close>.\<close>

definition line_ends :: "(int \<Rightarrow> shell \<Rightarrow> bool) \<Rightarrow> (int option \<times> char list \<times> shell) option \<Rightarrow> bool" where
  "line_ends P m \<longleftrightarrow> (\<forall>r b s. m = Some (Some r, b, s) \<longrightarrow> P r s)"

lemma line_ends_pure: "(\<And>x. m = Some x \<Longrightarrow> line_ends P (f x)) \<Longrightarrow> line_ends P (m \<bind> f)"
  by (cases m) (simp_all add: line_ends_def)

lemma line_ends_bind:
  "line_ends P m \<Longrightarrow> (\<And>b s. line_ends P (f (None, b, s))) \<Longrightarrow> (\<And>r b s. P r s \<Longrightarrow> line_ends P (f (Some r, b, s))) \<Longrightarrow>
   line_ends P (m \<bind> f)"
proof (cases m)
  case (Some x)
  assume a: "line_ends P m" "\<And>b s. line_ends P (f (None, b, s))" "\<And>r b s. P r s \<Longrightarrow> line_ends P (f (Some r, b, s))"
  obtain r b s where "x = (r, b, s)" by (cases x)
  then show ?thesis using a Some by (cases r) (simp_all add: line_ends_def)
qed (simp add: line_ends_def)

lemma line_ends_if: "(c \<Longrightarrow> line_ends P x) \<Longrightarrow> (\<not> c \<Longrightarrow> line_ends P y) \<Longrightarrow> line_ends P (if c then x else y)"
  by simp

lemma line_ends_prod: "(\<And>a b. x = (a, b) \<Longrightarrow> line_ends P (f a b)) \<Longrightarrow> line_ends P (case x of (a, b) \<Rightarrow> f a b)"
  by (cases x) simp

lemma line_ends_halt: "line_ends P (Some (None, b, s))"
  by (simp add: line_ends_def)

lemma line_ends_None: "line_ends P None"
  by (simp add: line_ends_def)

lemma line_ends_here: "(\<And>c. r = Some c \<Longrightarrow> P c s) \<Longrightarrow> line_ends P (Some (r, b, s))"
  by (simp add: line_ends_def)

text \<open>A line that comes to its end leaves nothing redirected.\<close>

abbreviation line_done :: "(int option \<times> char list \<times> shell) option \<Rightarrow> bool" where
  "line_done \<equiv> line_ends (\<lambda>r. at_console)"

lemma line_ends_pipes: "line_done (Some (r, b, if r = None then s else pipes_end s))"
  by (simp add: line_ends_def pipes_end_def at_console_def)

lemma line_ends_pipeline_loop: "line_done (pipeline_loop b seg p w s)"
proof -
  have "pipeline_loop b seg p w s = Some x \<Longrightarrow> line_done (Some x)" for x
  proof (rule pipeline_loop.raw_induct [of "\<lambda>b seg p w s x. line_done (Some x)"], goal_cases)
    case (1 loop b seg p w s x)
    have ih: "line_done (loop b seg p w s)" for b seg p w s
      using 1(2) [of b seg p w s] by (cases "loop b seg p w s") (auto simp: line_ends_def)
    show ?case
      by (subst 1(3) [symmetric])
        (rule ih line_ends_if line_ends_pure line_ends_prod line_ends_pipes line_ends_halt)+
  qed
  then show ?thesis by (fastforce simp: line_ends_def)
qed

lemma line_ends_exec_pipeline: "line_done (exec_pipeline b line len s)"
  unfolding exec_pipeline_def by (rule line_ends_pure) (rule line_ends_pipeline_loop)

lemma line_ends_end_segment: "at_console s \<Longrightarrow> line_done (end_segment b start p k rc s)"
  using line_ends_exec_pipeline [of b start "trim_len b start (p - start)" s]
  by (auto simp: end_segment_def Let_def line_ends_def sh_set_exit_def split: bind_splits option.splits)

lemma line_ends_line_loop: "at_console s \<Longrightarrow> line_done (line_loop b start p rc s)"
proof -
  have "line_loop b start p rc s = Some x \<Longrightarrow> at_console s \<longrightarrow> line_done (Some x)" for x
  proof (rule line_loop.raw_induct [of "\<lambda>b start p rc s x. at_console s \<longrightarrow> line_done (Some x)"], goal_cases)
    case (1 loop b start p rc s x)
    have ih: "at_console s \<Longrightarrow> line_done (loop b start p rc s)" for b start p rc s
      using 1(2) [of b start p rc s] by (cases "loop b start p rc s") (auto simp: line_ends_def)
    have "at_console s \<Longrightarrow> line_done (Some x)"
      by (subst 1(3) [symmetric], unfold Let_def)
        (rule ih line_ends_if line_ends_bind [OF line_ends_end_segment] line_ends_pure line_ends_halt line_ends_here
          | assumption | simp only: prod.case option.case)+
    then show ?case by blast
  qed
  then show "at_console s \<Longrightarrow> line_done (line_loop b start p rc s)" by (fastforce simp: line_ends_def)
qed

lemma stay_push_history: "at_console s \<Longrightarrow> at_console (push_history t s)"
proof -
  assume a: "at_console s"
  obtain d s' where d: "dup_string t s = (d, s')" by (cases "dup_string t s")
  have "at_console s'" using d a
    by (auto simp: dup_string_def kmalloc_def Let_def split: option.splits prod.splits if_splits)
  then show ?thesis by (simp add: push_history_def d)
qed

lemma stay_round:
  assumes "at_console s" and "shell_round s = Some (None, s')"
  shows "at_console s'"
proof -
  obtain s1 where s1: "prompt s = Some s1" using assms(2) by (auto simp: shell_round_def split: bind_splits)
  define s2 where "s2 = s1\<lparr>hist_pos := hist_count s1\<rparr>"
  have s2: "at_console s2" using stay_prompt [OF assms(1)] s1 by (simp add: keeps_def s2_def)
  obtain n t s3 where r: "sh_readline 1024 s2 = Some (n, t, s3)"
    using assms(2) s1 by (auto simp: shell_round_def s2_def split: bind_splits)
  have s3: "at_console s3" using stay_readline_loop [OF s2, of 1024 "[]"] r by (simp add: keeps_def sh_readline_def)
  note p = stay_push_history [OF s3, of t]
  have "at_console s'" if "shell_exec_line (line_buffer t) (push_history t s3) = Some (Some rc, b, s')" for rc b
    using that p line_ends_line_loop [OF p] by (auto simp: shell_exec_line_def line_ends_def split: bind_splits if_splits)
  then show ?thesis
    using assms(2) s3 by (auto simp: shell_round_def s1 s2_def [symmetric] r split: bind_splits if_splits)
qed

section \<open>The session\<close>

text \<open>The states in which the shell shows its prompt, from the state in which it has been started.\<close>

inductive session :: "shell \<Rightarrow> shell \<Rightarrow> bool" for s0 :: shell where
  start: "show_motd (shell_init s0) = Some s \<Longrightarrow> session s0 s"
| round: "session s0 s \<Longrightarrow> shell_round s = Some (None, s') \<Longrightarrow> session s0 s'"

inductive_cases sessionE: "session s0 s"

text \<open>The loop of the shell goes through these states.\<close>

lemma shell_loop_session:
  "shell_loop s = Some (h, s') \<Longrightarrow> session s0 s \<Longrightarrow> \<exists>s1. session s0 s1 \<and> shell_round s1 = Some (Some h, s')"
proof -
  have "shell_loop s = Some x \<Longrightarrow> session s0 s \<longrightarrow> (\<exists>s1. session s0 s1 \<and> shell_round s1 = Some (Some (fst x), snd x))" for x
  proof (rule shell_loop.raw_induct
      [of "\<lambda>s x. session s0 s \<longrightarrow> (\<exists>s1. session s0 s1 \<and> shell_round s1 = Some (Some (fst x), snd x))"], goal_cases)
    case (1 loop s x)
    obtain r s2 where r: "shell_round s = Some (r, s2)" using 1(3) by (auto split: bind_splits)
    show ?case
    proof (cases r)
      case None
      then show ?thesis using 1(3) r 1(2) [of s2 x] session.round [of s0 s s2] by auto
    next
      case (Some a)
      then show ?thesis using 1(3) r by auto
    qed
  qed
  then show "shell_loop s = Some (h, s') \<Longrightarrow> session s0 s \<Longrightarrow> \<exists>s1. session s0 s1 \<and> shell_round s1 = Some (Some h, s')"
    by fastforce
qed

lemma shell_run_session:
  "shell_run (shell_init s0) = Some (h, s') \<Longrightarrow> \<exists>s1. session s0 s1 \<and> shell_round s1 = Some (Some h, s')"
  by (auto simp: shell_run_def split: bind_splits intro: shell_loop_session session.start)

lemma shell_ok_init: "shell_ok s \<Longrightarrow> shell_ok (shell_init s)"
  by (simp add: shell_ok_def shell_init_def fs_ok_more file_ref_more)

lemma stay_show_motd: "at_console s \<Longrightarrow> stay (show_motd s)"
  unfolding show_motd_def set_color_def
  by (rule stay_rules keep_steps at_console_more [THEN iffD2] | assumption)+

lemma session_keeps:
  "session s0 s \<Longrightarrow> shell_ok s0 \<Longrightarrow> at_console s0 \<Longrightarrow> shell_ok s \<and> at_console s"
proof (induction rule: session.induct)
  case (start s)
  then show ?case using keep_show_motd [OF shell_ok_init] stay_show_motd [of "shell_init s0"]
    by (simp add: keeps_def shell_init_def)
next
  case (round s s')
  then show ?case using keep_round [of s] stay_round [of s s'] by (simp add: keeps_def)
qed

end
