(* ===== verification/Cmd_Exit.thy ===== *)
theory Cmd_Exit
  imports Session_Inv
begin

text \<open>
  The exit codes of the commands of \<open>src/cmds.c\<close>: zero, one and two, and no others.  The proof goes along the
  definitions with the same rules as the invariant does, with the exit code in the place of the state.
\<close>

definition small_code :: "int \<Rightarrow> bool" where
  "small_code rc \<longleftrightarrow> rc = 0 \<or> rc = 1 \<or> rc = 2"

lemma small_code_simps [simp]: "small_code 0" "small_code 1" "small_code 2"
  by (simp_all add: small_code_def)

abbreviation codes :: "(int \<times> shell) option \<Rightarrow> bool" where
  "codes \<equiv> keeps small_code fst"

lemma codes_complain: "small_code rc \<Longrightarrow> codes (complain rc fmt as s)"
  unfolding complain_def by (rule keeps_pure) (simp add: keeps_def)

lemma codes_Some: "small_code rc \<Longrightarrow> codes (Some (rc, s))"
  by (simp add: keeps_def)

lemma codes_for_each_rc:
  "small_code rc \<Longrightarrow> (\<And>x s. codes (f x s)) \<Longrightarrow> codes (for_each_rc f xs rc s)"
proof (induction xs arbitrary: s rc)
  case (Cons x xs)
  show ?case unfolding for_each_rc.simps
  proof (rule keeps_pure, rule keeps_prod)
    fix y r t assume y: "f x s = Some y" "y = (r, t)"
    have "small_code r" using Cons.prems(2) [of x s] y by (simp add: keeps_def)
    then show "codes (for_each_rc f xs (if r = 0 then rc else r) t)"
      using Cons.IH [OF _ Cons.prems(2)] Cons.prems(1) by simp
  qed
qed (simp add: keeps_def)

lemmas code_rules = codes_complain codes_Some codes_for_each_rc keeps_pair keeps_if keeps_option keeps_list keeps_prod
  keeps_prod_state keeps_Let keeps_None keeps_pure small_code_simps

lemma codes_files:
  "codes (cmd_pwd a s)" "codes (cmd_cd a s)" "codes (cmd_ls a s)" "codes (cmd_stat a s)" "codes (cmd_mkdir a s)"
  "codes (cmd_touch a s)" "codes (cmd_rm a s)" "codes (cmd_rmdir a s)" "codes (cmd_cp a s)" "codes (cmd_find a s)"
  "codes (cmd_tree a s)" "codes (cmd_du a s)" "codes (cmd_basename a s)" "codes (cmd_dirname a s)" "codes (cmd_tee a s)"
  "codes (cmd_df a s)"
  unfolding cmd_pwd_def cmd_cd_def cmd_ls_def cmd_stat_def cmd_mkdir_def cmd_touch_def cmd_rm_def cmd_rmdir_def
    cmd_cp_def cmd_find_def cmd_tree_def cmd_du_def cmd_basename_def cmd_dirname_def cmd_tee_def cmd_df_def
  by (rule code_rules)+

lemma small_code_split:
  "small_code x \<Longrightarrow> small_code y \<Longrightarrow> small_code (if b then x else y)"
  "small_code x \<Longrightarrow> (\<And>v. small_code (f v)) \<Longrightarrow> small_code (case z of None \<Rightarrow> x | Some v \<Rightarrow> f v)"
  by (simp, cases z, simp_all)

lemma codes_test: "codes (cmd_test a s)"
  unfolding cmd_test_def by (rule code_rules small_code_split)+

lemma codes_text:
  "codes (cmd_echo a s)" "codes (cmd_printf a s)" "codes (cmd_cat a s)" "codes (cmd_head a s)" "codes (cmd_tail a s)"
  "codes (cmd_wc a s)" "codes (cmd_grep a s)" "codes (cmd_sort a s)" "codes (cmd_uniq a s)" "codes (cmd_diff a s)"
  "codes (cmd_rev a s)" "codes (cmd_nl a s)"
  unfolding cmd_echo_def cmd_printf_def cmd_cat_def cmd_head_def cmd_tail_def cmd_wc_def cmd_grep_def cmd_sort_def
    cmd_uniq_def cmd_diff_def cmd_rev_def cmd_nl_def
  by (rule code_rules | simp)+

lemma codes_system:
  "codes (cmd_clear a s)" "codes (cmd_about a s)" "codes (cmd_help a s)" "codes (cmd_lscpu a s)" "codes (cmd_whoami a s)"
  "codes (cmd_id a s)" "codes (cmd_true a s)" "codes (cmd_false a s)" "codes (cmd_free a s)" "codes (cmd_uname a s)"
  "codes (cmd_hostname a s)" "codes (cmd_history a s)" "codes (cmd_date a s)" "codes (cmd_cal a s)"
  "codes (cmd_uptime a s)" "codes (cmd_sleep a s)" "codes (cmd_seq a s)" "codes (cmd_factor a s)"
  unfolding cmd_clear_def cmd_about_def cmd_help_def cmd_lscpu_def cmd_whoami_def cmd_id_def cmd_true_def cmd_false_def
    cmd_free_def cmd_uname_def cmd_hostname_def cmd_history_def cmd_date_def cmd_cal_def cmd_uptime_def cmd_sleep_def
    cmd_seq_def cmd_factor_def
  by (rule code_rules)+

lemma codes_derived:
  "codes (cmd_ll a s)" "codes (cmd_dir a s)" "codes (cmd_mv a s)"
proof -
  show "codes (cmd_ll a s)" "codes (cmd_dir a s)" unfolding cmd_ll_def cmd_dir_def by (simp_all add: codes_files keeps_None)
  show "codes (cmd_mv a s)"
    using codes_files(9) [of a s] by (auto simp: cmd_mv_def complain_def keeps_def split: bind_splits prod.splits if_splits)
qed

section \<open>The status of a line\<close>

text \<open>An exit code of a command, or that of a command that was not found.\<close>

definition line_status :: "int \<Rightarrow> bool" where
  "line_status rc \<longleftrightarrow> small_code rc \<or> rc = 127"

definition ends_small :: "(int option \<times> shell) option \<Rightarrow> bool" where
  "ends_small m \<longleftrightarrow> (\<forall>r s. m = Some (Some r, s) \<longrightarrow> small_code r)"

lemma ends_small_returns: "codes (c a s) \<Longrightarrow> ends_small (returns c a s)"
  by (auto simp: ends_small_def returns_def keeps_def split: bind_splits)

lemma ends_small_end: "ends_small (cmd_exit a s)" "ends_small (cmd_reboot a s)" "ends_small (cmd_poweroff a s)"
  by (auto simp: ends_small_def cmd_exit_def cmd_reboot_def cmd_poweroff_def split: bind_splits)

lemma ends_small_commands: "list_all (\<lambda>e. ends_small (fst (snd e) a s)) commands"
  unfolding commands_def
  by (simp add: ends_small_returns ends_small_end codes_files codes_test codes_text codes_system codes_derived)

lemma builtin_status: "shell_run_builtin a s = Some (Some rc, s') \<Longrightarrow> line_status rc"
proof (cases "cmd_lookup (a ! 0)")
  case (Some fn)
  then have "ends_small (fn a s)" using ends_small_commands [of a s]
    by (auto simp: cmd_lookup_def list_all_iff dest!: find_Some_iff [THEN iffD1] split: option.splits)
  then show "shell_run_builtin a s = Some (Some rc, s') \<Longrightarrow> line_status rc"
    using Some by (simp add: shell_run_builtin_def ends_small_def line_status_def)
qed (auto simp: shell_run_builtin_def line_status_def split: bind_splits)

abbreviation line_codes :: "(int option \<times> char list \<times> shell) option \<Rightarrow> bool" where
  "line_codes \<equiv> line_ends (\<lambda>r s. line_status r)"

lemma line_status_simps [simp]: "line_status 0" "line_status 1" "line_status 127"
  by (simp_all add: line_status_def)

lemma line_codes_run_segment: "line_codes (run_segment b seg d s)"
  unfolding run_segment_def Let_def
  by (rule line_ends_if line_ends_pure line_ends_prod line_ends_here line_ends_halt line_ends_None
    | fastforce dest: builtin_status)+

lemma line_codes_pipeline_loop: "line_codes (pipeline_loop b seg p w s)"
proof -
  have "pipeline_loop b seg p w s = Some x \<Longrightarrow> line_codes (Some x)" for x
  proof (rule pipeline_loop.raw_induct [of "\<lambda>b seg p w s x. line_codes (Some x)"], goal_cases)
    case (1 loop b seg p w s x)
    have ih: "line_codes (loop b seg p w s)" for b seg p w s
      using 1(2) [of b seg p w s] by (cases "loop b seg p w s") (auto simp: line_ends_def)
    show ?case
      by (subst 1(3) [symmetric])
        (rule ih line_ends_if line_ends_bind [OF line_codes_run_segment] line_ends_pure line_ends_prod line_ends_halt
          line_ends_here | simp)+
  qed
  then show ?thesis by (fastforce simp: line_ends_def)
qed

lemma line_codes_end_segment: "line_status rc \<Longrightarrow> line_codes (end_segment b start p k rc s)"
proof -
  assume rc: "line_status rc"
  have run: "line_codes (exec_pipeline b line len s)" for line len
    unfolding exec_pipeline_def by (rule line_ends_pure) (rule line_codes_pipeline_loop)
  have "line_codes (if c then exec_pipeline b start len s else Some (Some rc, b, s))" for c len
    using run rc by (simp add: line_ends_def)
  note step = line_ends_bind [OF this]
  show ?thesis
    unfolding end_segment_def Let_def
    by (rule line_ends_if step line_ends_here line_ends_halt | simp only: prod.case option.case option.inject | use rc in \<open>simp\<close>)+
qed

lemma line_codes_line_loop: "line_status rc \<Longrightarrow> line_codes (line_loop b start p rc s)"
proof -
  have "line_loop b start p rc s = Some x \<Longrightarrow> line_status rc \<longrightarrow> line_codes (Some x)" for x
  proof (rule line_loop.raw_induct [of "\<lambda>b start p rc s x. line_status rc \<longrightarrow> line_codes (Some x)"], goal_cases)
    case (1 loop b start p rc s x)
    have ih: "line_status rc \<Longrightarrow> line_codes (loop b start p rc s)" for b start p rc s
      using 1(2) [of b start p rc s] by (cases "loop b start p rc s") (auto simp: line_ends_def)
    have "line_status rc \<Longrightarrow> line_codes (Some x)"
      by (subst 1(3) [symmetric], unfold Let_def)
        (rule ih line_ends_if line_ends_bind [OF line_codes_end_segment] line_ends_pure line_ends_halt line_ends_here
          | assumption | simp only: prod.case option.case option.inject)+
    then show ?case by blast
  qed
  then show "line_status rc \<Longrightarrow> line_codes (line_loop b start p rc s)" by (fastforce simp: line_ends_def)
qed

end
