(* ===== verification/Boot_Session.thy ===== *)
theory Boot_Session
  imports Cmd_Exit Kernel
begin

text \<open>
  From power-on to the prompt: the kernel of \<open>src/kernel.c\<close> comes up with an initial tree, and every state in
  which the shell then shows its prompt satisfies the invariant of the session, whatever has been typed.
\<close>

section \<open>The initial tree\<close>

definition dir_names :: "('z) fs_scheme \<Rightarrow> string \<Rightarrow> string list option" where
  "dir_names s p = (case vfs_resolve s (Some p) of None \<Rightarrow> None
     | Some n \<Rightarrow> if is_dir s n then Some (map (\<lambda>c. name (node s c)) (children (node s n))) else None)"

text \<open>The state after \<open>kheap_init\<close> on a machine with more than 32 MB: the static variables are zero or do not matter.\<close>

definition blank_fs :: "(u64 \<Rightarrow> char) \<Rightarrow> u64 \<Rightarrow> u64 \<Rightarrow> string \<Rightarrow> 'z \<Rightarrow> ('z) fs_scheme" where
  "blank_fs r root cwd pwd m =
     \<lparr>used = 0, total = HEAP_MAX - HEAP_START, ram = r, nodes = Map.empty, vfs_root = root, vfs_cwd = cwd,
      vfs_pwd = pwd, \<dots> = m\<rparr>"

definition initial_tree :: "('z) fs_scheme \<Rightarrow> bool" where
  "initial_tree s \<longleftrightarrow>
     vfs_pwd s = ''/root'' \<and> dir_names s ''.'' = Some [''readme.txt''] \<and>
     dir_names s ''/'' = Some [''bin'', ''etc'', ''home'', ''root'', ''tmp'', ''usr''] \<and>
     dir_names s ''/bin'' = Some [] \<and> dir_names s ''/tmp'' = Some [] \<and>
     dir_names s ''/home'' = Some [''user''] \<and> dir_names s ''/home/user'' = Some [] \<and>
     dir_names s ''/usr'' = Some [''bin''] \<and> dir_names s ''/usr/bin'' = Some [] \<and>
     dir_names s ''/etc'' = Some [''motd'', ''hostname'', ''os-release''] \<and>
     file_at s ''/etc/motd'' = Some motd_text \<and> file_at s ''/etc/hostname'' = Some (''bojanos'' @ [LF]) \<and>
     file_at s ''/etc/os-release'' = Some os_release_text \<and> file_at s ''/root/readme.txt'' = Some readme_text"

lemma init_blank_fs:
  "case vfs_init (blank_fs r root cwd pwd m) of None \<Rightarrow> False
   | Some t \<Rightarrow> used t = 2688 \<and> initial_tree t"
  by code_simp

lemma more_make_node: "make_node t nm p s = (r, s') \<Longrightarrow> fs.more s' = fs.more s"
  by (auto simp: make_node_def kzalloc_def kmalloc_def Let_def split: prod.splits option.splits if_splits)

lemma more_add_child: "fs.more (snd (add_child d c s)) = fs.more s"
  by (auto simp: add_child_def kmalloc_def Let_def split: prod.splits option.splits if_splits)

lemma more_write: "fs.more (snd (vfs_write_file n t s)) = fs.more s"
  by (auto simp: vfs_write_file_def kmalloc_def Let_def split: prod.splits option.splits if_splits)

lemma more_mkdir_simple: "mkdir_simple par nm s = Some (x, s') \<Longrightarrow> fs.more s' = fs.more s"
  by (auto simp: mkdir_simple_def more_add_child split: prod.splits option.splits dest: more_make_node)

lemma more_mkfile_simple: "mkfile_simple par nm txt s = Some (x, s') \<Longrightarrow> fs.more s' = fs.more s"
  by (auto simp: mkfile_simple_def more_add_child more_write split: prod.splits option.splits dest: more_make_node)

lemma more_update_pwd: "vfs_update_pwd s = Some s' \<Longrightarrow> fs.more s' = fs.more s"
  by (auto simp: vfs_update_pwd_def Let_def split: if_splits)

lemma more_vfs_init: "vfs_init s = Some t \<Longrightarrow> fs.more t = fs.more s"
  unfolding vfs_init_def Let_def
  by (auto split: prod.splits option.splits bind_splits
      dest!: more_make_node more_mkdir_simple more_mkfile_simple more_update_pwd)

section \<open>The kernel comes up\<close>

text \<open>The static variables before \<open>kmain\<close> runs; the screen is the text memory of the display.\<close>

definition power_on :: "shell \<Rightarrow> bool" where
  "power_on s \<longleftrightarrow> nodes s = Map.empty \<and> at_console s \<and> pbytes (pipe0 s) = [] \<and> pbytes (pipe1 s) = [] \<and>
     history s = [] \<and> hist_pos s = 0 \<and> last_exit s = 0 \<and> shell_hostname s = ''bojanos'' \<and> length (vmem (screen s)) = 2000"

text \<open>The parts of the state on which the steps of \<open>kernel_up\<close> work.\<close>

lemma on_screen_print: "Vga.on_screen v \<Longrightarrow> Vga.on_screen (vga_print t v)"
  unfolding vga_print_def by (induction t arbitrary: v) (simp_all add: on_screen_putchar)

lemma shell_ok_on_screen: "shell_ok s \<Longrightarrow> shell_ok (Kernel.on_screen t s)"
  unfolding Kernel.on_screen_def by (rule shell_ok_set) (simp_all add: on_screen_print shell_ok_def)

lemma shell_ok_on_serial: "shell_ok s \<Longrightarrow> shell_ok (on_serial t s)"
  by (simp add: on_serial_def)

lemma keep_banner: "shell_ok s \<Longrightarrow> keep (banner magic s)"
  unfolding banner_def Let_def
  by (rule keeps_pure keeps_Some shell_ok_on_serial shell_ok_on_screen shell_ok_set_color | assumption)+

lemma stay_banner: "at_console s \<Longrightarrow> stay (banner magic s)"
  by (auto simp: keeps_def banner_def Let_def on_serial_def Kernel.on_screen_def set_color_def split: bind_splits)

definition booting :: "u32 \<Rightarrow> string \<Rightarrow> shell \<Rightarrow> shell" where
  "booting kb vendor s =
     kheap_init kb (s\<lparr>screen := vga_init (screen s), total_mem_kb := kb, cpu_vendor := vendor\<rparr>)"

lemma kernel_up_steps:
  "kernel_up mem regs magic info s = do {
     (kb, vendor) \<leftarrow> boot_parse mem regs magic info (total_mem_kb s);
     s \<leftarrow> vfs_init (booting kb vendor s);
     banner magic (s\<lparr>ticks := 0\<rparr>) }"
  by (simp add: kernel_up_def booting_def)

lemma booting_more: "fs.more (booting kb vendor s) =
    fs.more (s\<lparr>screen := vga_init (screen s), total_mem_kb := kb, cpu_vendor := vendor\<rparr>)"
  by (simp add: booting_def kheap_init_def Let_def)

lemma power_on_up:
  assumes "power_on s" and "vfs_init (booting kb vendor s) = Some t"
  shows "shell_ok t \<and> at_console t"
proof -
  let ?s = "s\<lparr>screen := vga_init (screen s), total_mem_kb := kb, cpu_vendor := vendor\<rparr>"
  have "heap_ok (booting kb vendor s)" unfolding booting_def by (rule heap_ok_kheap_init)
  moreover have "nodes (booting kb vendor s) = Map.empty"
    using assms(1) by (simp add: booting_def power_on_def)
  ultimately have "fs_ok t" using assms(2) by (rule fs_ok_vfs_init)
  moreover have "fs.more t = fs.more ?s" using more_vfs_init [OF assms(2)] booting_more by metis
  note m = shell_more [OF this]
  have "pipe_reader t = pipe_reader ?s" "pipe_writing t = pipe_writing ?s"
    using \<open>fs.more t = fs.more ?s\<close> by (cases t; cases ?s; simp)+
  ultimately show ?thesis
    using assms(1) m by (simp add: shell_ok_def at_console_def power_on_def PIPE_MAX_def HIST_MAX_def vga_init_def
        vga_clear_eq vga_setcolor_def Vga.on_screen_def)
qed

lemma kernel_up_ok:
  assumes "power_on s" and "kernel_up mem regs magic info s = Some s1"
  shows "shell_ok s1 \<and> at_console s1"
proof -
  obtain kb vendor t where t: "vfs_init (booting kb vendor s) = Some t" "banner magic (t\<lparr>ticks := 0\<rparr>) = Some s1"
    using assms(2) by (auto simp: kernel_up_steps split: bind_splits)
  have "shell_ok (t\<lparr>ticks := 0\<rparr>)" "at_console (t\<lparr>ticks := 0\<rparr>)"
    using power_on_up [OF assms(1) t(1)] by (simp_all add: at_console_def)
  then show ?thesis using keep_banner [of "t\<lparr>ticks := 0\<rparr>" magic] stay_banner [of "t\<lparr>ticks := 0\<rparr>" magic] t(2)
    by (simp add: keeps_def)
qed

lemma booting_blank:
  assumes "power_on s" and "32768 < kb"
  shows "\<exists>r root cwd pwd m. booting kb vendor s = blank_fs r root cwd pwd m"
proof -
  have "unat kb < 2 ^ 32" using unsigned_less [of kb] by simp
  moreover have "32768 < unat kb" using assms(2) by (simp add: word_less_nat_alt)
  ultimately have mem: "HEAP_START + (HEAP_MAX - HEAP_START) < (ucast kb :: u64) * 1024" "kb \<noteq> 0"
    by (auto simp: HEAP_START_def HEAP_MAX_def word_less_nat_alt unat_word_ariths unsigned_ucast_eq take_bit_nat_eq_self)
  then show ?thesis
    using assms(1) by (cases s) (simp add: booting_def kheap_init_def Let_def blank_fs_def power_on_def)
qed

lemma file_at_same:
  assumes "same_tree s s'" and "\<And>n. content (node s' n) = content (node s n)"
  shows "file_at s' p = file_at s p"
  using assms(1) by (simp only: file_at_def vfs_resolve_same_tree [OF assms(1)] assms(2) same_tree_def)

lemma dir_names_same:
  assumes "same_tree s s'"
  shows "dir_names s' p = dir_names s p"
  using assms by (simp only: dir_names_def vfs_resolve_same_tree [OF assms] same_tree_def)

lemma initial_tree_same:
  "initial_tree s \<Longrightarrow> same_tree s s' \<Longrightarrow> (\<And>n. content (node s' n) = content (node s n)) \<Longrightarrow> vfs_pwd s' = vfs_pwd s \<Longrightarrow>
   initial_tree s'"
  by (simp add: initial_tree_def file_at_same [of s s'] dir_names_same [of s s'])

lemma banner_returns: "\<exists>x l. banner magic s = Some (s\<lparr>screen := x, line_out := l\<rparr>)"
proof -
  have "vga_printf_text (''  CPU: %s   RAM: %u KB'' @ [LF, LF]) [A_string (cpu_vendor s), A_int (total_mem_kb s)] \<noteq> None"
    by (simp add: vga_printf_text_def vga_conv_def skip_two_l_def next_arg_def arg_string_def arg_unsigned_def)
  then obtain t where t: "vga_printf_text (''  CPU: %s   RAM: %u KB'' @ [LF, LF])
      [A_string (cpu_vendor s), A_int (total_mem_kb s)] = Some t" by blast
  have "serial_printf_text (''BojanOS booted: magic=0x%x cpu=%s mem=%uKB'' @ [LF])
      [A_int magic, A_string (cpu_vendor s), A_int (total_mem_kb s)] \<noteq> None"
    by (simp add: serial_printf_text_def serial_conv_def skip_two_l_def next_arg_def arg_string_def arg_unsigned_def)
  then obtain u where u: "serial_printf_text (''BojanOS booted: magic=0x%x cpu=%s mem=%uKB'' @ [LF])
      [A_int magic, A_string (cpu_vendor s), A_int (total_mem_kb s)] = Some u" by blast
  show ?thesis
    using t u by (simp add: banner_def Let_def Kernel.on_screen_def on_serial_def set_color_def) blast
qed

text \<open>C3: On a machine with more than 32 MB of memory the kernel comes up: with the directories and files that
  \<open>vfs_init\<close> is meant to create, each with its text, \<open>/root\<close> as the working directory, and all the parts of the
  state in order.\<close>

theorem kernel_boots:
  assumes "power_on s" and "boot_parse mem regs magic info (total_mem_kb s) = Some (kb, vendor)" and "32768 < kb"
  shows "\<exists>s1. kernel_up mem regs magic info s = Some s1 \<and> initial_tree s1 \<and> shell_ok s1 \<and> at_console s1 \<and>
    total_mem_kb s1 = kb \<and> cpu_vendor s1 = vendor"
proof -
  obtain r root cwd pwd m where b: "booting kb vendor s = blank_fs r root cwd pwd m"
    using booting_blank [OF assms(1,3)] by blast
  obtain t where t: "vfs_init (booting kb vendor s) = Some t" "initial_tree t"
    unfolding b using init_blank_fs [of r root cwd pwd m] by (auto split: option.splits)
  obtain x l where bn: "banner magic (t\<lparr>ticks := 0\<rparr>) = Some (t\<lparr>ticks := 0, screen := x, line_out := l\<rparr>)"
    using banner_returns [of magic "t\<lparr>ticks := 0\<rparr>"] by auto
  let ?s1 = "t\<lparr>ticks := 0, screen := x, line_out := l\<rparr>"
  have up: "kernel_up mem regs magic info s = Some ?s1" using assms(2) t(1) bn by (simp add: kernel_up_steps)
  have "initial_tree ?s1"
    by (rule initial_tree_same [OF t(2)]) (simp_all add: same_tree_def node_def)
  moreover have "fs.more t = fs.more (booting kb vendor s)" by (rule more_vfs_init [OF t(1)])
  then have "fs.more t = fs.more (s\<lparr>screen := vga_init (screen s), total_mem_kb := kb, cpu_vendor := vendor\<rparr>)"
    by (simp only: booting_more)
  then have "total_mem_kb t = kb" "cpu_vendor t = vendor" by (cases t; cases s; simp)+
  ultimately show ?thesis using up kernel_up_ok [OF assms(1) up] by simp
qed

section \<open>The prompt\<close>

text \<open>At the console nothing that is printed is lost.\<close>

lemma console_prints:
  "at_console s \<Longrightarrow> \<exists>x. out_all t s = Some (s\<lparr>screen := x, line_out := line_out s @ concat (map serial_bytes t)\<rparr>)"
  by (rule console_text) (simp_all add: at_console_def)

lemma motd_returns: "at_console s \<Longrightarrow> show_motd s \<noteq> None"
proof -
  assume c: "at_console s"
  have wr: "\<exists>s'. sh_write t (set_color fg bg s) = Some s' \<and> at_console s'" for t fg bg
    using console_prints [of "set_color fg bg s" t] c by (force simp: sh_write_def set_color_def)
  have pt: "sh_puts t (set_color fg bg s) \<noteq> None" if "at_console s" for t fg bg s
    using console_prints [of "set_color fg bg s" t] that by (force simp: sh_puts_def set_color_def)
  have "do { s \<leftarrow> sh_write t (set_color fg bg s); sh_puts u (set_color gf gb s) } \<noteq> None" for t u fg bg gf gb
    using wr [of t fg bg] pt by force
  then show ?thesis
    unfolding show_motd_def Let_def by (simp split: option.split)
qed

text \<open>C1: From power-on, whatever the machine and whatever is typed: each time the shell shows its prompt, the file
  system is a well-formed tree inside the heap, the pipes and the history are within their bounds, the exit
  status is a byte, the cursor is on the screen, and nothing is redirected.\<close>

theorem session_invariant:
  assumes "power_on s" and "kernel_up mem regs magic info s = Some s1" and "session s1 s2"
  shows "shell_ok s2 \<and> at_console s2"
  by (rule session_keeps [OF assms(3)]) (use kernel_up_ok [OF assms(1,2)] in simp_all)

text \<open>A machine with 64 MB that has been started from the CD.\<close>

definition cold :: shell where
  "cold = fs.extend \<lparr>used = 0, total = 0, ram = (\<lambda>a. CHR 0x55), nodes = Map.empty, vfs_root = 0, vfs_cwd = 0, vfs_pwd = []\<rparr>
     \<lparr>screen = \<lparr>vmem = replicate 2000 0x720, vrow = 0, vcol = 0, vattr = 0, crtc_index = 0, crtc_hi = 0, crtc_lo = 0\<rparr>,
      line_out = [], keys = [], out_file = None, out_append = False, in_file = None, in_off = 0,
      pipe0 = \<lparr>allocated = False, pbytes = []\<rparr>, pipe1 = \<lparr>allocated = False, pbytes = []\<rparr>,
      pipe_in_off = 0, pipe_writing = False, pipe_reader = None, pipe_writer = None,
      last_exit = 0, history = [], hist_pos = 0, shell_hostname = ''bojanos'', ticks = 0,
      cmos = (\<lambda>n r. 0), cmos_reads = 0, total_mem_kb = 32768, cpu_vendor = []\<rparr>"

definition cold_memory :: memory where
  "cold_memory a = (if a = 0x5000 then 1 else if a = 0x5013 then 4 else if a = 0x5018 then 1 else 0)"

lemma power_on_cold: "power_on cold"
  by (simp add: power_on_def cold_def fs.extend_def at_console_def)

lemma cold_parse: "boot_parse cold_memory (0x756E6547, 0x49656E69, 0x6C65746E) BOOT_MAGIC_BONJ 0 (total_mem_kb cold) =
    Some (65536, ''GenuineIntel'')"
  by code_simp

theorem kernel_boots_witness:
  "\<exists>s1. kernel_up cold_memory (0x756E6547, 0x49656E69, 0x6C65746E) BOOT_MAGIC_BONJ 0 cold = Some s1 \<and> initial_tree s1"
  using kernel_boots [OF power_on_cold cold_parse] by auto

theorem session_invariant_witness:
  "\<exists>s1 s2. kernel_up cold_memory (0x756E6547, 0x49656E69, 0x6C65746E) BOOT_MAGIC_BONJ 0 cold = Some s1 \<and>
     session s1 s2 \<and> shell_ok s2 \<and> at_console s2"
proof -
  have "\<exists>t. vfs_init (booting 65536 ''GenuineIntel'' cold) = Some t"
    using booting_blank [OF power_on_cold, of 65536 "''GenuineIntel''"] init_blank_fs by (fastforce split: option.splits)
  then obtain s1 where up: "kernel_up cold_memory (0x756E6547, 0x49656E69, 0x6C65746E) BOOT_MAGIC_BONJ 0 cold = Some s1"
    using banner_returns by (fastforce simp: kernel_up_steps cold_parse)
  have "at_console (shell_init s1)" using kernel_up_ok [OF power_on_cold up] by (simp add: shell_init_def)
  then obtain s2 where "show_motd (shell_init s1) = Some s2" using motd_returns [of "shell_init s1"] by blast
  then have "session s1 s2" by (rule session.start)
  then show ?thesis using session_invariant [OF power_on_cold up] up by blast
qed

end
