(* ===== verification/Session_Props.thy ===== *)
theory Session_Props
  imports Cmd_Exit Line_Props
begin

text \<open>
  What one meets at the prompt: lines of a single command, commands that do not exist, the exit status, and the
  line editor with its history.
\<close>

section \<open>A line of one command\<close>

definition after_line :: "int option \<Rightarrow> shell \<Rightarrow> shell" where
  "after_line rc s = (case rc of None \<Rightarrow> s
     | Some c \<Rightarrow> sh_set_exit c (pipes_end ((restore_redirs s)\<lparr>pipe_writing := False\<rparr>)))"

lemma after_line_sel [simp]:
  "line_out (after_line rc s) = line_out s" "last_exit (after_line (Some c) s) = c mod 256"
  by (simp_all add: after_line_def sh_set_exit_def pipes_end_def restore_redirs_def split: option.split)

lemma after_line_files: "same_files s (after_line rc s)" "fs_ok (after_line rc s) = fs_ok s"
proof -
  show s: "same_files s (after_line rc s)"
    by (simp add: same_files_def after_line_def sh_set_exit_def pipes_end_def restore_redirs_def split: option.split)
  show "fs_ok (after_line rc s) = fs_ok s"
    by (simp add: after_line_def sh_set_exit_def pipes_end_def restore_redirs_def fs_ok_more split: option.split)
qed

text \<open>A line without separators, pipes and redirections runs its command at the console.\<close>

lemma plain_line:
  assumes ok: "heap_ok s" and le: "0 \<le> last_exit s" "last_exit s < 100"
    and x: "command_text x" "CHR ''|'' \<notin> set x"
    and ts: "tokens_spec (exit_digits (last_exit s)) x empty_spec = Some \<lparr>words = ws, to_file = None, from_file = None\<rparr>"
    and ws: "ws \<noteq> []" "length ws < 32"
    and room: "frontier s + 131072 + 32 * length x \<le> heap_end s"
  obtains b' t where "starts_from (131072 + 32 * length x) s t" "at_console t"
    "shell_exec_line (x @ NUL # tail) s = do {
       (rc, t) \<leftarrow> shell_run_builtin ws t; Some (rc, b', after_line rc t) }"
proof -
  let ?s0 = "(pipes_start s)\<lparr>pipe_writer := None\<rparr>" and ?sl = "\<lparr>words = ws, to_file = None, from_file = None\<rparr>"
  have s0: "starts_from 131072 s ?s0"
    by (rule starts_from_more [OF starts_from_pipes_start(1) [OF ok]]) (use room in \<open>simp_all add: fs.truncate_def heap.truncate_def\<close>)
  have le0: "last_exit ?s0 = last_exit s" using s0 by (simp add: starts_from_def)
  have x0: "NUL \<notin> set x" using x(1) one_segment_no_NUL by (auto simp: command_text_def)
  have reader: "pipe_reader ?s0 = None" using starts_from_pipes_start(5) [OF ok] room by simp
  show ?thesis
  proof (rule segment_runs [of 0 "x @ NUL # tail" x tail ?s0 ?sl False])
    show "tokens_spec (exit_digits (last_exit ?s0)) x empty_spec = Some ?sl" unfolding le0 by (rule ts)
    show "heap_ok ?s0" "frontier ?s0 + 32 * length x \<le> heap_end ?s0"
      using s0 room starts_from_room [OF s0] by (auto simp: starts_from_def)
  next
    fix b' cl s1
    assume g: "heap_grew (32 * length x) ?s0 s1" and cl: "redirs_ok cl ?sl"
      and run: "run_segment (x @ NUL # tail) 0 False ?s0 = do {
        (ok, s2) \<leftarrow> apply_redirs cl (prepared False s1);
        if \<not> ok then Some (Some 1, b', (restore_redirs s2)\<lparr>pipe_writing := False\<rparr>)
        else do {
          (rc, s3) \<leftarrow> shell_run_builtin (words ?sl) s2;
          Some (rc, b', if rc = None then s3 else (restore_redirs s3)\<lparr>pipe_writing := False\<rparr>) } }"
    define t where "t = (prepared False s1)\<lparr>out_file := None, in_file := None, in_off := 0\<rparr>"
    have "starts_from (131072 + 32 * length x) s t"
      by (rule starts_from_more [OF starts_from_grew [OF s0 g]])
        (simp_all add: t_def prepared_def fs.truncate_def heap.truncate_def)
    moreover have "at_console t"
      using g reader by (auto simp: at_console_def t_def prepared_def heap_grew_def)
    moreover have "shell_exec_line (x @ NUL # tail) s = do {
        (rc, t) \<leftarrow> shell_run_builtin ws t; Some (rc, b', after_line rc t) }"
      unfolding line_one [OF x] run
      by (auto simp: no_redirs [OF cl] t_def [symmetric] after_line_def split: bind_splits option.splits)
    ultimately show ?thesis by (rule that)
  qed (use x0 ws le le0 in simp_all)
qed

section \<open>Errors and statuses\<close>

text \<open>At the console a text is printed, and nothing else changes.\<close>

lemma console_out:
  "at_console s \<Longrightarrow> \<exists>x. out_all t s = Some (s\<lparr>screen := x, line_out := line_out s @ concat (map serial_bytes t)\<rparr>)"
  by (rule console_text) (simp_all add: at_console_def)

definition not_found_text :: "string \<Rightarrow> string" where
  "not_found_text w = w @ '': command not found'' @ [LF]"

lemma not_found_format: "sh_printf_text (''%s: command not found'' @ [LF]) [A_string w] = Some (not_found_text w)"
  by (simp add: not_found_text_def read_spec_def sh_conv_def next_arg_def arg_string_def pad_string_def)

lemma run_unknown:
  assumes "at_console t" and "cmd_lookup w = None"
  shows "\<exists>x. shell_run_builtin (w # ws) t =
    Some (Some 127, t\<lparr>screen := x, line_out := line_out t @ concat (map serial_bytes (not_found_text w))\<rparr>)"
  unfolding shell_run_builtin_def sh_printf_def nth_Cons_0 assms(2) option.case not_found_format bind.bind_lunit
  using console_out [OF assms(1), of "not_found_text w"] by auto

text \<open>C20: A line of one command, without separators, pipes and redirections, whose first word names no command
  prints that on the console, leaves every file as it is, and sets the exit status to 127.  (The exit status before
  has at most two digits, the line has at most 31 words, and the heap has room for the pipes and the words.)\<close>

theorem unknown_command:
  assumes ok: "fs_ok s" and le: "0 \<le> last_exit s" "last_exit s < 100"
    and x: "command_text x" "CHR ''|'' \<notin> set x"
    and ts: "tokens_spec (exit_digits (last_exit s)) x empty_spec =
      Some \<lparr>words = w # ws, to_file = None, from_file = None\<rparr>"
    and w: "cmd_lookup w = None" "length ws < 31"
    and room: "frontier s + 131072 + 32 * length x \<le> heap_end s"
  shows "\<exists>b' s'. shell_exec_line (x @ NUL # tail) s = Some (Some 127, b', s') \<and> last_exit s' = 127 \<and>
    same_files s s' \<and> fs_ok s' \<and> line_out s' = line_out s @ concat (map serial_bytes (not_found_text w))"
proof (rule plain_line [OF fs_okD(1) [OF ok] le x ts _ _ room])
  fix b' t
  assume t: "starts_from (131072 + 32 * length x) s t" "at_console t"
    and run: "shell_exec_line (x @ NUL # tail) s = do {
       (rc, t) \<leftarrow> shell_run_builtin (w # ws) t; Some (rc, b', after_line rc t) }"
  obtain t' where v: "shell_run_builtin (w # ws) t = Some (Some 127, t')"
      "same_files t t'" "fs_ok t' = fs_ok t" "line_out t' = line_out t @ concat (map serial_bytes (not_found_text w))"
    using run_unknown [OF t(2) w(1), of ws] by (auto simp: same_files_def fs_ok_more)
  have "same_files s t'" "fs_ok t'" using t(1) starts_from_ok [OF t(1) ok] v(2,3) by (simp_all add: starts_from_def same_files_def)
  then show ?thesis
    using run v(1,4) t(1) after_line_files [where s = t' and rc = "Some 127"]
    by (auto simp: starts_from_def same_files_def)
qed (use w in simp_all)

lemma lookup_nosuch: "cmd_lookup ''nosuch'' = None"
  by (simp add: cmd_lookup_def commands_def)

lemma nosuch_line:
  "tokens_spec (exit_digits (last_exit demo_big)) ''nosuch thing'' empty_spec =
     Some \<lparr>words = [''nosuch'', ''thing''], to_file = None, from_file = None\<rparr>"
  unfolding demo_big_sel by code_simp

theorem unknown_command_witness:
  "\<exists>b s. shell_exec_line (''nosuch thing'' @ [NUL]) demo_big = Some (Some 127, b, s) \<and>
     line_out s = concat (map serial_bytes (''nosuch: command not found'' @ [LF]))"
proof -
  have "\<exists>b' s'. shell_exec_line (''nosuch thing'' @ NUL # []) demo_big = Some (Some 127, b', s') \<and> last_exit s' = 127 \<and>
    same_files demo_big s' \<and> fs_ok s' \<and> line_out s' = line_out demo_big @ concat (map serial_bytes (not_found_text ''nosuch''))"
    by (rule unknown_command [OF fs_ok_demo_big _ _ _ _ nosuch_line lookup_nosuch])
      (simp_all add: command_text_def blank_def frontier_def heap_end_def)
  then show ?thesis by (auto simp: not_found_text_def)
qed

text \<open>C16: The exit status of a line, whatever is on it, is 0, 1 or 2, or 127 for a command that does not exist.\<close>

theorem line_exit_codes:
  assumes "shell_exec_line b s = Some (Some rc, b', s')"
  shows "rc \<in> {0, 1, 2, 127}"
proof -
  have "line_codes (shell_exec_line b s)"
    unfolding shell_exec_line_def
    by (rule line_ends_pure line_ends_if line_ends_here line_codes_line_loop line_status_simps | auto)+
  then show ?thesis using assms by (auto simp: line_ends_def line_status_def small_code_def)
qed

theorem line_exit_codes_witness:
  "\<exists>rc b s. shell_exec_line (''false'' @ [NUL]) demo_big = Some (Some rc, b, s) \<and> rc \<in> {0, 1, 2, 127}"
proof -
  have ts: "tokens_spec (exit_digits (last_exit demo_big)) ''false'' empty_spec =
      Some \<lparr>words = [''false''], to_file = None, from_file = None\<rparr>" unfolding demo_big_sel by code_simp
  have lk: "cmd_lookup ''false'' = Some (returns cmd_false)" unfolding cmd_lookup_def commands_def by simp
  have x: "command_text ''false''" "CHR ''|'' \<notin> set ''false''" by (simp_all add: command_text_def blank_def)
  have "\<exists>rc b s. shell_exec_line (''false'' @ NUL # []) demo_big = Some (Some rc, b, s)"
    by (rule plain_line [OF fs_okD(1) [OF fs_ok_demo_big] _ _ x ts, of "[]"])
      (simp_all add: frontier_def heap_end_def shell_run_builtin_def lk returns_def cmd_false_def)
  then show ?thesis using line_exit_codes by fastforce
qed

section \<open>Typing\<close>

text \<open>What a key does to the line that is being typed: a character is put behind it while the buffer has room, and
  backspace takes the last one away.\<close>

definition edit_line :: "nat \<Rightarrow> char \<Rightarrow> string \<Rightarrow> string" where
  "edit_line mx c cur = (if c = BS then butlast cur else if length cur < mx - 1 then cur @ [c] else cur)"

definition typeable :: "char \<Rightarrow> bool" where
  "typeable c \<longleftrightarrow> c = BS \<or> 32 \<le> uc c \<and> uc c < 127"

definition typed :: "nat \<Rightarrow> string \<Rightarrow> string" where
  "typed mx cs = fold (edit_line mx) cs []"

definition with_console :: "shell \<Rightarrow> vga \<Rightarrow> u8 list \<Rightarrow> int list \<Rightarrow> shell" where
  "with_console s v l ks = s\<lparr>screen := v, line_out := l, keys := ks\<rparr>"

lemma with_console_simps [simp]:
  "with_console (with_console s v l ks) v' l' ks' = with_console s v' l' ks'"
  "at_console (with_console s v l ks) = at_console s" "keys (with_console s v l ks) = ks"
  "line_out (with_console s v l ks) = l" "with_console s (screen s) (line_out s) (keys s) = s"
  by (simp_all add: with_console_def at_console_def)

lemma console_with: "at_console s \<Longrightarrow> \<exists>v l. out_all t s = Some (with_console s v l (keys s))"
  using console_out [of s t] by (auto simp: with_console_def)

lemma uc_no_code [simp]: "uc c \<noteq> KB_CTRL_D" "uc c \<noteq> KB_CTRL_C" "uc c \<noteq> KB_KEY_UP" "uc c \<noteq> KB_KEY_DOWN"
  using uc_less_256 [of c] by (auto simp: key_codes simp del: uc_less_256)

lemma uc_not_neg [simp]: "\<not> uc c < 0"
  using uc_nonneg [of c] by linarith

lemma uc_line_ends: "uc LF = 10" "uc CR = 13"
  by code_simp+

lemma out_all_Nil: "out_all [] = Some"
  by (rule ext) simp

lemma console_key: "at_console s \<Longrightarrow> keys s = k # ks \<Longrightarrow> 0 \<le> k \<Longrightarrow> k \<noteq> KB_CTRL_D \<Longrightarrow> k \<noteq> KB_CTRL_C \<Longrightarrow>
    sh_getc s = Some (k, with_console s (screen s) (line_out s) ks)"
  by (auto simp: sh_getc_def next_key_def at_console_def with_console_def split: option.split)

lemma console_rub_out: "at_console s \<Longrightarrow> \<exists>v l. rub_out s = Some (with_console s v l (keys s))"
proof -
  assume "at_console s"
  moreover have "rub_out s = out_all [BS, CHR '' '', BS] s"
    by (simp add: rub_out_def sh_putc_def) (auto split: bind_splits)
  ultimately show ?thesis using console_with by metis
qed

lemma readline_prefix:
  assumes "at_console s" and "keys s = map uc cs @ rest" and "\<forall>c \<in> set cs. typeable c"
  shows "\<exists>v l. readline_loop mx cur s = readline_loop mx (fold (edit_line mx) cs cur) (with_console s v l rest)"
  using assms
proof (induction cs arbitrary: cur s)
  case Nil
  then have "rest = keys s" by simp
  then have "with_console s (screen s) (line_out s) rest = s" by simp
  then show ?case by (metis fold_simps(1))
next
  case (Cons c cs)
  let ?s = "with_console s (screen s) (line_out s) (map uc cs @ rest)"
  have c: "uc c < 256" "c = BS \<or> 32 \<le> uc c \<and> uc c < 127" using Cons.prems(3) by (simp_all add: typeable_def)
  have g: "sh_getc s = Some (uc c, ?s)"
    by (intro console_key) (use Cons.prems in simp_all)
  have ih: "\<exists>v l. readline_loop mx (edit_line mx c cur) t = readline_loop mx (fold (edit_line mx) (c # cs) cur)
      (with_console s v l rest)" if "t = with_console s v l (map uc cs @ rest)" for t v l
    using Cons.IH [of t "edit_line mx c cur"] Cons.prems(1,3) that by simp
  show ?case
  proof (cases "c = BS")
    case True
    then show ?thesis
      using ih [of ?s] ih console_rub_out [of ?s] Cons.prems(1)
      by (subst readline_loop.simps) (auto simp: g edit_line_def)
  next
    case False
    then have r: "32 \<le> uc c" "uc c < 127" using c(2) by simp_all
    then have n: "c \<noteq> LF" "c \<noteq> CR" using uc_line_ends by auto
    show ?thesis
      using ih [of ?s] ih console_with [of ?s "[c]"] Cons.prems(1) False r n
      by (subst readline_loop.simps) (auto simp: g sh_putc_def edit_line_def out_all_Nil)
  qed
qed

lemma readline_enter:
  assumes "at_console s" and "keys s = map uc cs @ uc LF # ks" and "\<forall>c \<in> set cs. typeable c"
  shows "\<exists>v l. sh_readline mx s = Some (int (length (typed mx cs)), typed mx cs, with_console s v l ks)"
proof -
  obtain v l where p: "sh_readline mx s = readline_loop mx (typed mx cs) (with_console s v l (uc LF # ks))"
    using readline_prefix [OF assms, of mx "[]"] by (auto simp: sh_readline_def typed_def)
  have "sh_getc (with_console s v l (uc LF # ks)) = Some (uc LF, with_console s v l ks)"
    using console_key [of "with_console s v l (uc LF # ks)" "uc LF" ks] assms(1)
    by simp (simp add: with_console_def)
  then show ?thesis
    using console_with [of "with_console s v l ks" "[LF]"] assms(1) unfolding p
    by (subst readline_loop.simps) (auto simp: sh_putc_def out_all_Nil)
qed

text \<open>Ctrl-C and Ctrl-D come out of \<open>sh_getc\<close> as the end of the input.\<close>

lemma readline_end:
  assumes "at_console s" and "keys s = map uc cs @ k # ks" and "\<forall>c \<in> set cs. typeable c"
    and "k = KB_CTRL_C \<or> k = KB_CTRL_D"
  shows "\<exists>v l. sh_readline mx s = Some (- 1, typed mx cs, with_console s v l ks)"
proof -
  obtain v l where p: "sh_readline mx s = readline_loop mx (typed mx cs) (with_console s v l (k # ks))"
    using readline_prefix [OF assms(1-3), of mx "[]"] by (auto simp: sh_readline_def typed_def)
  have "sh_getc (with_console s v l (k # ks)) = Some (- 1, with_console s v l ks)"
    using assms(1,4) by (auto simp: sh_getc_def next_key_def at_console_def with_console_def split: option.split)
  then show ?thesis unfolding p by (subst readline_loop.simps) auto
qed

lemma prompt_with:
  assumes "at_console s"
  shows "\<exists>v l. prompt s = Some (with_console s v l (keys s))"
proof -
  have f: "sh_printf_text ''root@%s'' [A_string h] = Some (''root@'' @ h)" for h
    by (simp add: read_spec_def sh_conv_def next_arg_def arg_string_def pad_string_def)
  have put: "\<exists>v' l'. out_all t (set_color fg bg (with_console s v l (keys s))) = Some (with_console s v' l' (keys s))"
    for t fg bg v l
    using console_with [of "set_color fg bg (with_console s v l (keys s))" t] assms
    by (auto simp: set_color_def with_console_def at_console_def)
  have pwd: "vfs_pwd (set_color fg bg (with_console s v l ks)) = vfs_pwd s" for fg bg v l ks
    by (simp add: set_color_def with_console_def)
  have host: "shell_hostname (set_color fg bg s) = shell_hostname s" for fg bg by (simp add: set_color_def)
  obtain v1 l1 where 1: "out_all (''root@'' @ shell_hostname s) (set_color 0x0A 0 s) = Some (with_console s v1 l1 (keys s))"
    using put [of "''root@'' @ shell_hostname s" "0x0A" 0 "screen s" "line_out s", unfolded with_console_simps(5)] by blast
  obtain v2 l2 where 2: "out_all '':'' (set_color 0x07 0 (with_console s v1 l1 (keys s))) = Some (with_console s v2 l2 (keys s))"
    using put by blast
  obtain v3 l3 where 3: "out_all (vfs_pwd s) (set_color 0x0B 0 (with_console s v2 l2 (keys s))) = Some (with_console s v3 l3 (keys s))"
    using put by blast
  obtain v4 l4 where 4: "out_all ''# '' (set_color 0x07 0 (with_console s v3 l3 (keys s))) = Some (with_console s v4 l4 (keys s))"
    using put by blast
  have "prompt s = Some (set_color 0x07 0 (with_console s v4 l4 (keys s)))"
    by (simp only: prompt_def sh_printf_def sh_puts_def Let_def f bind.bind_lunit host pwd 1 2 3 4)
  moreover have "set_color 0x07 0 (with_console s v4 l4 (keys s)) = with_console s (vga_setcolor 0x07 0 v4) l4 (keys s)"
    by (simp add: set_color_def with_console_def)
  ultimately show ?thesis by auto
qed

text \<open>The line that the editor sends back, and what the round of the session makes of it.\<close>

lemma round_readline:
  assumes "at_console s"
  obtains v l where "shell_round s = do {
     (n, t, s) \<leftarrow> sh_readline 1024 (with_console (s\<lparr>hist_pos := hist_count s\<rparr>) v l (keys s));
     if n < 0 then do { s \<leftarrow> sh_puts [LF] s; Some (Some False, s) }
     else if n = 0 \<or> t = [] then Some (None, s)
     else do {
       (rc, b, s) \<leftarrow> shell_exec_line (line_buffer t) (push_history t s);
       Some (if rc = None then Some True else None, s) } }"
proof -
  obtain v l where p: "prompt s = Some (with_console s v l (keys s))" using prompt_with [OF assms] by blast
  have "(with_console s v l ks)\<lparr>hist_pos := hist_count (with_console s v l ks)\<rparr> =
      with_console (s\<lparr>hist_pos := hist_count s\<rparr>) v l ks" for ks by (simp add: with_console_def)
  note e = this
  show ?thesis by (rule that [of v l]) (simp only: shell_round_def Let_def p e bind.bind_lunit)
qed

text \<open>C8: At the prompt the keys up to Enter are edited into a line, with backspace taking back the last character
  and with at most 1023 characters; if the line is not empty it goes into the history and is executed, and the keys
  behind Enter are left for later.\<close>

theorem typed_line_runs:
  assumes "at_console s" and "keys s = map uc cs @ uc LF # ks" and "\<forall>c \<in> set cs. typeable c"
  shows "\<exists>v l. let s1 = with_console (s\<lparr>hist_pos := hist_count s\<rparr>) v l ks; t = typed 1024 cs in
    shell_round s =
      (if t = [] then Some (None, s1)
       else do {
         (rc, b, s2) \<leftarrow> shell_exec_line (line_buffer t) (push_history t s1);
         Some (if rc = None then Some True else None, s2) })"
proof -
  obtain v l where r: "shell_round s = do {
     (n, t, s) \<leftarrow> sh_readline 1024 (with_console (s\<lparr>hist_pos := hist_count s\<rparr>) v l (keys s));
     if n < 0 then do { s \<leftarrow> sh_puts [LF] s; Some (Some False, s) }
     else if n = 0 \<or> t = [] then Some (None, s)
     else do {
       (rc, b, s) \<leftarrow> shell_exec_line (line_buffer t) (push_history t s);
       Some (if rc = None then Some True else None, s) } }"
    using round_readline [OF assms(1)] by blast
  have c: "at_console (s\<lparr>hist_pos := hist_count s\<rparr>)" using assms(1) by simp
  obtain v' l' where "sh_readline 1024 (with_console (s\<lparr>hist_pos := hist_count s\<rparr>) v l (keys s)) =
      Some (int (length (typed 1024 cs)), typed 1024 cs, with_console (s\<lparr>hist_pos := hist_count s\<rparr>) v' l' ks)"
    using readline_enter [of "with_console (s\<lparr>hist_pos := hist_count s\<rparr>) v l (keys s)" cs ks 1024] c assms(2,3) by auto
  then show ?thesis unfolding r Let_def by auto
qed

text \<open>C40: Ctrl-C at the prompt does not cancel the line: it ends the shell, as Ctrl-D does, with the exit status
  as it was.\<close>

theorem ctrl_c_ends_shell:
  assumes "at_console s" and "keys s = map uc cs @ KB_CTRL_C # ks" and "\<forall>c \<in> set cs. typeable c"
  shows "\<exists>s'. shell_round s = Some (Some False, s') \<and> shell_loop s = Some (False, s') \<and> sh_last_exit s' = sh_last_exit s"
proof -
  obtain v l where r: "shell_round s = do {
     (n, t, s) \<leftarrow> sh_readline 1024 (with_console (s\<lparr>hist_pos := hist_count s\<rparr>) v l (keys s));
     if n < 0 then do { s \<leftarrow> sh_puts [LF] s; Some (Some False, s) }
     else if n = 0 \<or> t = [] then Some (None, s)
     else do {
       (rc, b, s) \<leftarrow> shell_exec_line (line_buffer t) (push_history t s);
       Some (if rc = None then Some True else None, s) } }"
    using round_readline [OF assms(1)] by blast
  have c: "at_console (s\<lparr>hist_pos := hist_count s\<rparr>)" using assms(1) by simp
  obtain v' l' where rl: "sh_readline 1024 (with_console (s\<lparr>hist_pos := hist_count s\<rparr>) v l (keys s)) =
      Some (- 1, typed 1024 cs, with_console (s\<lparr>hist_pos := hist_count s\<rparr>) v' l' ks)"
    using readline_end [of "with_console (s\<lparr>hist_pos := hist_count s\<rparr>) v l (keys s)" cs KB_CTRL_C ks 1024] c assms(2,3) by auto
  obtain v'' l'' where nl: "sh_puts [LF] (with_console (s\<lparr>hist_pos := hist_count s\<rparr>) v' l' ks) =
      Some (with_console (s\<lparr>hist_pos := hist_count s\<rparr>) v'' l'' ks)"
    using console_with [of "with_console (s\<lparr>hist_pos := hist_count s\<rparr>) v' l' ks" "[LF]"] c by (auto simp: sh_puts_def)
  have "shell_round s = Some (Some False, with_console (s\<lparr>hist_pos := hist_count s\<rparr>) v'' l'' ks)"
    by (simp add: r rl nl)
  moreover from this have "shell_loop s = Some (False, with_console (s\<lparr>hist_pos := hist_count s\<rparr>) v'' l'' ks)"
    by (subst shell_loop.simps) simp
  ultimately show ?thesis by (simp add: sh_last_exit_def with_console_def)
qed

text \<open>A state of the shell with keys that have been typed.\<close>

definition demo_typed :: "int list \<Rightarrow> shell" where
  "demo_typed ks = demo_big\<lparr>keys := ks\<rparr>"

lemma demo_typed_console: "at_console (demo_typed ks)" "keys (demo_typed ks) = ks"
  by (simp_all add: demo_typed_def demo_big_def demo_shell_def at_console_def fs.extend_def)

theorem typed_line_runs_witness:
  "\<exists>s1. shell_round (demo_typed (map uc ''lx'' @ uc BS # map uc ''s'' @ [uc LF])) = do {
     (rc, b, s2) \<leftarrow> shell_exec_line (line_buffer ''ls'') (push_history ''ls'' s1);
     Some (if rc = None then Some True else None, s2) }"
proof -
  have t: "typed 1024 (''lx'' @ BS # ''s'') = ''ls''" by (simp add: typed_def edit_line_def)
  show ?thesis
    using typed_line_runs [of "demo_typed (map uc ''lx'' @ uc BS # map uc ''s'' @ [uc LF])" "''lx'' @ BS # ''s''" "[]"]
    unfolding t by (auto simp: demo_typed_console typeable_def uc_def Let_def)
qed

theorem ctrl_c_ends_shell_witness:
  "\<exists>s'. shell_loop (demo_typed (map uc ''l'' @ [KB_CTRL_C])) = Some (False, s')"
  using ctrl_c_ends_shell [of "demo_typed (map uc ''l'' @ [KB_CTRL_C])" "''l''" "[]"]
  by (auto simp: demo_typed_console typeable_def uc_def)

section \<open>History\<close>

definition last_n :: "nat \<Rightarrow> 'a list \<Rightarrow> 'a list" where
  "last_n n xs = drop (length xs - n) xs"

lemma length_last_n: "length (last_n n xs) \<le> n"
  by (simp add: last_n_def)

lemma last_n_append: "last_n n (last_n n xs @ ys) = last_n n (xs @ ys)"
  by (cases "length xs \<le> n") (auto simp: last_n_def add.commute)

lemma push_history_room:
  assumes "heap_ok s" and "frontier s + length t + 17 \<le> heap_end s" and "hist_count s \<le> HIST_MAX"
  shows "history (push_history t s) = last_n HIST_MAX (history s @ [Some t]) \<and> heap_ok (push_history t s) \<and>
    frontier (push_history t s) \<le> frontier s + length t + 17 \<and> heap_end (push_history t s) = heap_end s"
proof -
  have e: "heap_end s \<le> 33554432" using assms(1) by (simp add: heap_ok_def heap_end_def)
  have f: "16777216 \<le> frontier s" by (simp add: frontier_def)
  define n :: u64 where "n = of_nat (length t + 1)"
  have "length t + 1 < 2 ^ 63" using assms(2) e f by simp
  then have n: "unat n = length t + 1" unfolding n_def by (subst unat_of_nat) simp
  have up: "up16 (length t + 1) < length t + 17" using up16_less [of "length t + 1"] by simp
  have small: "unat n < 2 ^ 63" and room: "frontier s + up16 (unat n) \<le> heap_end s" using assms(2) n up e f by simp_all
  note k = kmalloc_room [OF assms(1) small room]
  have "heap_ok (s\<lparr>used := used s + align_up n 16\<rparr>)" using heap_ok_kmalloc [OF assms(1) small] by (simp add: k(1))
  moreover have "dup_string t s = (Some t, s\<lparr>used := used s + align_up n 16\<rparr>)"
    unfolding dup_string_def n_def [symmetric] k(1) by simp
  then have "push_history t s = s\<lparr>used := used s + align_up n 16, history := last_n HIST_MAX (history s @ [Some t])\<rparr>"
    using assms(3)
    by (cases "history s") (auto simp: push_history_def last_n_def HIST_MAX_def)
  ultimately show ?thesis using k(2) n up by (simp add: heap_ok_def frontier_def heap_end_def)
qed

text \<open>C19: The history holds the last 32 lines, in their order.\<close>

theorem history_keeps_last:
  assumes "heap_ok s" and "hist_count s \<le> HIST_MAX" and "frontier s + sum_list (map (\<lambda>t. length t + 17) ts) \<le> heap_end s"
  shows "history (fold push_history ts s) = last_n 32 (history s @ map Some ts)"
  using assms
proof (induction ts arbitrary: s)
  case Nil
  then show ?case by (simp add: last_n_def HIST_MAX_def)
next
  case (Cons t ts)
  have p: "history (push_history t s) = last_n HIST_MAX (history s @ [Some t])" "heap_ok (push_history t s)"
    "frontier (push_history t s) \<le> frontier s + length t + 17" "heap_end (push_history t s) = heap_end s"
    using push_history_room [of s t] Cons.prems by simp_all
  show ?case
    using Cons.IH [of "push_history t s"] p Cons.prems last_n_append [of 32 "history s @ [Some t]" "map Some ts"]
      length_last_n [of 32 "history s @ [Some t]"]
    by (simp add: HIST_MAX_def)
qed

theorem history_keeps_last_witness:
  "history (fold push_history [''ls'', ''pwd''] demo_big) = [Some ''ls'', Some ''pwd'']"
proof -
  have "history demo_big = []" by (simp add: demo_big_def)
  then show ?thesis
    using history_keeps_last [OF fs_okD(1) [OF fs_ok_demo_big], of "[''ls'', ''pwd'']"]
    by (simp add: frontier_def heap_end_def HIST_MAX_def last_n_def)
qed

end
