(* ===== verification/Spec2Isabelle.thy ===== *)
theory Spec2Isabelle
  imports Kernel Line_Props Text_Props Diff_Props Sys_Props Boot_Props Boot_Session Session_Props Cmd_Props
begin

text \<open>
  BojanOS is a 64-bit kernel with a text console, a file system in memory and a shell.  This development models its C
  code (\<open>src/src/*.c\<close> with the headers in \<open>src/include\<close>) from \<open>kmain\<close> to the commands of the shell, and proves what
  the parts promise to each other and to the user.

  \<^bold>\<open>How the program works.\<close>  \<open>kmain\<close> initialises the serial line and the screen, reads what the boot loader left in
  memory (\<open>multiboot.c\<close>), sets up the heap (\<open>kheap.c\<close>), builds the initial tree (\<open>vfs_init\<close>), loads the descriptor
  tables (\<open>gdt.c\<close>, \<open>idt.c\<close>), programs the interrupt controller and the timer, and starts the shell (or the self test,
  if the kernel command line asks for it).  From then on interrupts count ticks and queue keys, and everything else
  happens in the shell: it edits a line from the queued keys, puts it into the history, splits it into commands at
  the separators and pipes, tokenizes each command in place, applies the redirections, and calls the handler that the
  command table names.  Handlers read and write through \<open>out_raw\<close> and \<open>sh_getc\<close>, which choose among console, pipe
  and file, and work on the tree of vnodes through \<open>vfs.c\<close>, whose memory comes from the heap and is never given back.

  \<^bold>\<open>Conventions.\<close>  Machine integers are words of their width, \<open>int\<close> is a mathematical integer with the 32-bit range
  written out where a value can leave it, sizes that are bounded by the heap are naturals.  A function that may have
  undefined behaviour, overrun a buffer of fixed size or not return has an option result; \<open>None\<close> says so.  Loops that
  need not end are \<open>partial_function (option)\<close>, so no fuel is used anywhere; where a loop does end this is a theorem
  (\<open>rm_recursive_removes\<close>, \<open>sleep_ms_deadline\<close>, \<open>typed_line_runs\<close>, \<open>echo_pipe_cat\<close>, \<open>kernel_boots\<close>), and a
  theorem of the form \<open>f s = Some s' \<Longrightarrow> \<dots>\<close> is used for invariants only.  The state is one record that grows along the
  components, \<open>heap\<close>, then \<open>fs\<close>, then \<open>shell\<close>, so that the operations of a component apply to the larger states
  unchanged, and what they leave alone is visible in their types.

  \<^bold>\<open>Theories and the code they model.\<close>

  \<^item> \<open>Prelude\<close>: types, C strings, generic lemmas and hint collections.
  \<^item> \<open>Cstring\<close>: \<open>string.c\<close>; pointers are the rests of the objects they point into.
  \<^item> \<open>Kheap\<close>: \<open>kheap.c\<close> and the allocating functions of \<open>string.c\<close>.  The locale \<open>bump_allocator\<close> is the interface.
  \<^item> \<open>Digits\<close>, \<open>Format\<close>: \<open>print_dec\<close>, \<open>print_hex\<close> and the three formatted printers of \<open>vga.c\<close>, \<open>serial.c\<close>, \<open>shell.c\<close>.
  \<^item> \<open>Vga\<close>: the screen and its cursor registers, \<open>vga.c\<close>.  \<open>Serial\<close>: the polled transmitter, \<open>serial.c\<close>.
  \<^item> \<open>Keyboard\<close>: scan codes and the ring buffer, \<open>keyboard.c\<close>.  The locale \<open>bounded_queue\<close> is the interface.
  \<^item> \<open>Clock\<close>: \<open>timer.c\<close>, \<open>rtc.c\<close>, \<open>pic.c\<close>.  \<open>Descriptors\<close>: \<open>gdt.c\<close>, \<open>idt.c\<close> and the interrupt dispatch.
  \<^item> \<open>Multiboot\<close>: \<open>multiboot.c\<close>; memory is a function from addresses to bytes.
  \<^item> \<open>Vfs\<close>: \<open>vfs.c\<close>.  \<open>Vfs_Inv\<close>, \<open>Vfs_Path\<close>, \<open>Vfs_Laws\<close>, \<open>Vfs_Boot\<close>: the invariant of the tree, path resolution as a
    walk along names, the laws of the operations, and the initial tree.  \<open>Vfs_Steps\<close>: the file system as a transition
    system.  \<open>Vfs_Props\<close>: its properties.
  \<^item> \<open>Shell_Io\<close>: the static variables of \<open>shell.c\<close>, \<open>out_raw\<close>, \<open>sh_getc\<close>, \<open>sh_readline\<close> and the history.
  \<^item> \<open>Tokenize\<close>: \<open>tokenize\<close> of \<open>shell.c\<close>, in place.  \<open>Tokenize_Spec\<close>: the tokenizer on strings that it implements.
  \<^item> \<open>Cmd_Base\<close>, \<open>Cmd_Fs\<close>, \<open>Cmd_Text\<close>, \<open>Cmd_Sys\<close>: \<open>cmds.c\<close>, one definition for each command, and the command table.
  \<^item> \<open>Shell_Exec\<close>: redirections, segments, pipelines, lines and the session of \<open>shell.c\<close>.
  \<^item> \<open>Kernel\<close>: \<open>kernel.c\<close>, with the self test.
  \<^item> \<open>Shell_Line\<close>: what is left of a line while it is overwritten.  \<open>Shell_Out\<close>: the contracts \<open>char_sink\<close> and
    \<open>char_source\<close> of console, pipe and file.  \<open>Line_Props\<close>: lines from the first character to the files and the screen.
  \<^item> \<open>Text_Props\<close>, \<open>Diff_Props\<close>, \<open>Sys_Props\<close>, \<open>Cmd_Props\<close>: properties of single commands.  The locale \<open>line_order\<close> is the
    contract of a comparison for \<open>sort\<close>.
  \<^item> \<open>Shell_Inv\<close>, \<open>Cmd_Inv\<close>, \<open>Session_Inv\<close>: the invariant of the session, with one rule for each construct and each
    operation, through every command and the interpreter.  \<open>Cmd_Exit\<close>: the exit codes, with the same rules.
  \<^item> \<open>Session_Props\<close>: single commands, the line editor and the history.  \<open>Boot_Session\<close>: from power-on to the prompt.
    \<open>Boot_Props\<close>: the memory that boot finds.
\<close>

section \<open>What is proved\<close>

text \<open>
  \<^bold>\<open>The whole system.\<close>  With more than 32 MB of memory the kernel comes up with the initial tree
  (\<open>kernel_boots\<close>), and from any start, through any session, the tree stays well formed and inside the heap and the
  variables of the shell stay in their bounds (\<open>session_invariant\<close>).  Both rest on the invariant of the file system
  alone (\<open>fs_invariant\<close>), which includes that parents are older than their children and so that every walk ends.

  \<^bold>\<open>The file system\<close> is a map from paths to contents (\<open>write_file_map\<close>, \<open>append_file_map\<close>), whose entries appear
  (\<open>mkfile_creates\<close>, \<open>mkdir_creates\<close>, \<open>create_succeeds\<close>) and disappear (\<open>rm_removes\<close>, \<open>rm_recursive_removes\<close>) under
  their paths, with a name of the working directory that leads back to it (\<open>pwd_roundtrip\<close>).

  \<^bold>\<open>Devices.\<close>  The key buffer is a bounded queue (\<open>keyboard_fifo\<close>), the serial port is only written when it is
  free (\<open>serial_print_polite\<close>), the cursor stays on the screen (\<open>vga_write_on_screen\<close>), every interrupt is
  acknowledged (\<open>isr_irq_acknowledged\<close>), \<open>sleep_ms\<close> ends at its deadline, the clock is decoded (\<open>rtc_read_formats\<close>).

  \<^bold>\<open>The shell.\<close>  The tokenizer implements the one on strings (\<open>tokenize_refines\<close>); typed keys become an executed line
  (\<open>typed_line_runs\<close>); separators, redirections and pipes do what the theorems on whole lines say (\<open>two_commands\<close>,
  \<open>echo_redirect\<close>, \<open>echo_pipe_cat\<close>, \<open>unknown_command\<close>); exit statuses are 0, 1, 2 or 127 (\<open>line_exit_codes\<close>).

  \<^bold>\<open>Commands.\<close>  \<open>sort\<close>, \<open>uniq\<close>, \<open>grep\<close>, \<open>head\<close>, \<open>tail\<close>, \<open>diff\<close>, \<open>find\<close>'s patterns, \<open>factor\<close>, \<open>cal\<close>, \<open>cp\<close> and \<open>mv\<close>
  are compared with what they should compute; \<open>diff_command\<close> follows \<open>diff\<close> from the files to the console.  Where the code does something else the theorem says what it does:
  \<open>head_tail_lines\<close>, \<open>mv_itself_removes\<close>, \<open>ctrl_c_ends_shell\<close>, \<open>exit_status_runaway\<close>, \<open>long_name_overruns\<close>,
  \<open>trailing_slash_entry\<close>, \<open>date_weekday_wrong\<close>, \<open>sh_printf_alignment\<close>, \<open>isr_exception_halts\<close>, \<open>mb1_map_ignored\<close>,
  \<open>corrupt_map_hangs\<close>, \<open>heap_within_memory\<close>.

  \<^bold>\<open>Bounds in the statements.\<close>  Room in the heap is stated as a distance between the frontier and the end of the heap;
  the amounts are those of the code (64 bytes of slack for a write, two pipes of 64 KB and 32 bytes for each
  character of a line, 24 bytes for each character of a text that is split into lines).  Theorems about whole lines ask for an exit status below 100 on entry, because the expansion
  of a longer one makes the tokenizer leave the line (\<open>exit_status_runaway\<close>).  Allocation requests are below \<open>2^63\<close>
  bytes, where the sum in \<open>kmalloc\<close> does not wrap.
\<close>

section \<open>Not modelled\<close>

text \<open>
  The assembly files (boot sectors, mode switch, interrupt stubs, table loading), the build and image tools and the host
  test driver.  Hardware is a parameter: memory, \<open>cpuid\<close>, the CMOS registers, the status of the serial port and the
  mask registers.  Interrupts are operations of their own (\<open>Keyboard\<close>, \<open>Clock\<close>, \<open>Descriptors\<close>) and are not interleaved
  with the shell: it reads from the list of keys that will be typed, and ticks pass for it only while it sleeps.
  Descriptor tables and port writes of the hardware set-up are the result of \<open>setup_hardware\<close> and not part of the
  state of \<open>kernel_up\<close>.  The contents of freed or overwritten heap blocks are not represented, as the code never reads
  them.
\<close>

end
